(* ===== verification/Prelude.thy ===== *)
theory Prelude
  imports Main "HOL-Library.Word" "HOL-Library.AList"
begin

text \<open>
  Shared vocabulary of the development: the integer widths of the source, the two error types
  (\<open>std::io::Error\<close> as the code inspects it, and the crate-wide \<open>Error\<close> of
  \<open>core/core/src/error.rs\<close>), sequencing of fallible computations (Rust's \<open>?\<close>), big-endian
  integers, decimal printing and parsing, and the \<open>str\<close> methods the sources call.
  Text is a \<open>string\<close> of ASCII characters: \<open>String::from_utf8_lossy\<close> is the identity there,
  and \<open>char::is_whitespace\<close> is the six ASCII blanks.
\<close>

unbundle bit_operations_syntax

named_theorems res_simps \<open>computation rules of fallible sequencing\<close>
named_theorems text_simps \<open>computation rules of the str methods\<close>
named_theorems byte_simps \<open>round trips of integer encodings\<close>

section \<open>Types\<close>

type_synonym u8 = "8 word"
type_synonym u16 = "16 word"
type_synonym u32 = "32 word"
type_synonym u64 = "64 word"
type_synonym bytes = "8 word list"
type_synonym ipv4 = "32 word"
type_synonym ipv6 = "128 word"

text \<open>\<open>std::io::Error\<close>: the code only asks whether the kind is \<open>UnexpectedEof\<close>.\<close>

datatype io_error = UnexpectedEof | OtherIo string

datatype error =
    Io io_error
  | Codec string
  | Crypto string
  | Protocol string
  | Auth string
  | Transport string
  | Config string
  | Closed
  | NotImplemented string

type_synonym 'a res = "error + 'a"

section \<open>Sequencing of fallible steps\<close>

text \<open>\<open>bind_res\<close> is Rust's \<open>?\<close> on a pure result; \<open>bind_st\<close> is the same on a step that also
  changes a state: the state reached at the error is kept, as the mutation is in the source.\<close>

definition bind_res :: "'e + 'a \<Rightarrow> ('a \<Rightarrow> 'e + 'b) \<Rightarrow> 'e + 'b" where
  "bind_res r k = (case r of Inl e \<Rightarrow> Inl e | Inr a \<Rightarrow> k a)"

definition bind_st ::
  "('e + 'a) \<times> 's \<Rightarrow> ('a \<Rightarrow> 's \<Rightarrow> ('e + 'b) \<times> 's) \<Rightarrow> ('e + 'b) \<times> 's" where
  "bind_st p k = (case p of (Inl e, s) \<Rightarrow> (Inl e, s) | (Inr a, s) \<Rightarrow> k a s)"

definition map_err :: "('e \<Rightarrow> 'f) \<Rightarrow> 'e + 'a \<Rightarrow> 'f + 'a" where
  "map_err f r = (case r of Inl e \<Rightarrow> Inl (f e) | Inr a \<Rightarrow> Inr a)"

lemma bind_res_Inl [simp, res_simps]: "bind_res (Inl e) k = Inl e"
  by (simp add: bind_res_def)

lemma bind_res_Inr [simp, res_simps]: "bind_res (Inr a) k = k a"
  by (simp add: bind_res_def)

lemma bind_st_Inl [simp, res_simps]: "bind_st (Inl e, s) k = (Inl e, s)"
  by (simp add: bind_st_def)

lemma bind_st_Inr [simp, res_simps]: "bind_st (Inr a, s) k = k a s"
  by (simp add: bind_st_def)

lemma map_err_Inl [simp, res_simps]: "map_err f (Inl e) = Inl (f e)"
  by (simp add: map_err_def)

lemma map_err_Inr [simp, res_simps]: "map_err f (Inr a) = Inr a"
  by (simp add: map_err_def)

lemma bind_res_Inr_iff: "bind_res r k = Inr b \<longleftrightarrow> (\<exists>a. r = Inr a \<and> k a = Inr b)"
  by (cases r) auto

lemma bind_st_Inr_iff:
  "bind_st p k = (Inr b, s') \<longleftrightarrow> (\<exists>a s. p = (Inr a, s) \<and> k a s = (Inr b, s'))"
  by (cases p; cases "fst p") auto

lemma map_err_Inr_iff [simp]: "map_err f r = Inr a \<longleftrightarrow> r = Inr a"
  by (cases r) auto

section \<open>Big-endian integers\<close>

definition be16 :: "u16 \<Rightarrow> bytes" where
  "be16 w = [ucast (drop_bit 8 w), ucast w]"

definition un16 :: "bytes \<Rightarrow> u16" where
  "un16 bs = push_bit 8 (ucast (bs ! 0)) OR ucast (bs ! 1)"

definition be32 :: "u32 \<Rightarrow> bytes" where
  "be32 w = [ucast (drop_bit 24 w), ucast (drop_bit 16 w), ucast (drop_bit 8 w), ucast w]"

definition un32 :: "bytes \<Rightarrow> u32" where
  "un32 bs = push_bit 24 (ucast (bs ! 0)) OR push_bit 16 (ucast (bs ! 1))
     OR push_bit 8 (ucast (bs ! 2)) OR ucast (bs ! 3)"

lemma length_be16 [simp, byte_simps]: "length (be16 w) = 2"
  by (simp add: be16_def)

lemma length_be32 [simp, byte_simps]: "length (be32 w) = 4"
  by (simp add: be32_def)

lemma un16_be16 [simp, byte_simps]: "un16 (be16 w) = w"
  by (rule bit_word_eqI)
    (auto simp: un16_def be16_def bit_simps not_le not_less)

lemma un32_be32 [simp, byte_simps]: "un32 (be32 w) = w"
proof (rule bit_word_eqI)
  fix n
  assume "n < LENGTH(32)"
  then have n: "n < 32" by simp
  consider "n < 8" | "8 \<le> n" "n < 16" | "16 \<le> n" "n < 24" | "24 \<le> n"
    by linarith
  then show "bit (un32 (be32 w)) n = bit w n"
    using n by cases (auto simp: un32_def be32_def bit_simps)
qed

section \<open>Decimal numbers\<close>

definition digit_char :: "nat \<Rightarrow> char" where
  "digit_char d = char_of (48 + d)"

fun show_nat :: "nat \<Rightarrow> string" where
  "show_nat n = (if n < 10 then [digit_char n] else show_nat (n div 10) @ [digit_char (n mod 10)])"

declare show_nat.simps [simp del]

definition is_digit :: "char \<Rightarrow> bool" where
  "is_digit c \<longleftrightarrow> 48 \<le> (of_char c :: nat) \<and> (of_char c :: nat) \<le> 57"

definition digit_val :: "char \<Rightarrow> nat" where
  "digit_val c = of_char c - 48"

definition dec_value :: "string \<Rightarrow> nat" where
  "dec_value s = foldl (\<lambda>n c. 10 * n + digit_val c) 0 s"

text \<open>\<open>str::parse\<close> for an unsigned integer below \<open>bound\<close>: an optional plus sign, then at least
  one digit, and no overflow.\<close>

definition parse_uint :: "nat \<Rightarrow> string \<Rightarrow> nat option" where
  "parse_uint bound s =
     (let ds = (case s of c # r \<Rightarrow> if c = CHR ''+'' then r else s | [] \<Rightarrow> s)
      in if ds \<noteq> [] \<and> list_all is_digit ds \<and> dec_value ds < bound
         then Some (dec_value ds) else None)"

definition parse_u16 :: "string \<Rightarrow> u16 option" where
  "parse_u16 s = map_option of_nat (parse_uint 65536 s)"

definition show_u16 :: "u16 \<Rightarrow> string" where
  "show_u16 p = show_nat (unat p)"

lemma digit_char_props:
  assumes "d < 10"
  shows "is_digit (digit_char d)" and "digit_val (digit_char d) = d"
  using assms by (simp_all add: digit_char_def is_digit_def digit_val_def)

lemma dec_value_append: "dec_value (s @ [c]) = 10 * dec_value s + digit_val c"
  by (simp add: dec_value_def)

lemma dec_value_show_nat [simp, text_simps]: "dec_value (show_nat n) = n"
proof (induction n rule: show_nat.induct)
  case (1 n)
  show ?case
  proof (cases "n < 10")
    case True
    then show ?thesis
      by (subst show_nat.simps) (simp add: dec_value_def digit_char_props)
  next
    case False
    with "1.IH" show ?thesis
      by (subst show_nat.simps) (simp add: dec_value_append digit_char_props)
  qed
qed

lemma show_nat_digits: "list_all is_digit (show_nat n)"
proof (induction n rule: show_nat.induct)
  case (1 n)
  then show ?case
    by (subst show_nat.simps) (auto simp: digit_char_props)
qed

lemma show_nat_not_Nil [simp]: "show_nat n \<noteq> []"
  by (subst show_nat.simps) simp

lemma show_nat_inj [simp]: "show_nat m = show_nat n \<longleftrightarrow> m = n"
  by (metis dec_value_show_nat)

lemma parse_uint_show_nat:
  assumes "n < bound"
  shows "parse_uint bound (show_nat n) = Some n"
proof -
  obtain c r where s: "show_nat n = c # r"
    by (cases "show_nat n") auto
  with show_nat_digits [of n] have "c \<noteq> CHR ''+''"
    by (auto simp: is_digit_def)
  then show ?thesis
    using assms s show_nat_digits [of n] dec_value_show_nat [of n]
    by (simp add: parse_uint_def)
qed

lemma unat_lt_u16: "unat (p :: u16) < 65536"
  using unsigned_less [where ?'a = nat, of p] by simp

lemma parse_show_u16 [simp, text_simps]: "parse_u16 (show_u16 p) = Some p"
  by (simp add: parse_u16_def show_u16_def parse_uint_show_nat unat_lt_u16)

end
