(* ===== verification/Rust_Str.thy ===== *)
theory Rust_Str
  imports Prelude
begin

text \<open>
  The \<open>str\<close> methods the sources call, on ASCII text: trimming, splitting, prefixes,
  \<open>rsplit_once\<close>, \<open>lines\<close>, \<open>join\<close> and case-insensitive comparison, with the facts the parsers of
  the proxy, the link codec and the network setup rely on.
\<close>

section \<open>Definitions\<close>

definition newline :: char where
  "newline = char_of (10::nat)"

definition carriage_return :: char where
  "carriage_return = char_of (13::nat)"

definition is_ws :: "char \<Rightarrow> bool" where
  "is_ws c \<longleftrightarrow> (of_char c :: nat) \<in> {9, 10, 11, 12, 13, 32}"

definition trim_start :: "string \<Rightarrow> string" where
  "trim_start s = dropWhile is_ws s"

definition trim_end :: "string \<Rightarrow> string" where
  "trim_end s = rev (dropWhile is_ws (rev s))"

definition trim :: "string \<Rightarrow> string" where
  "trim s = trim_end (trim_start s)"

definition strip_prefix :: "string \<Rightarrow> string \<Rightarrow> string option" where
  "strip_prefix p s = (if take (length p) s = p then Some (drop (length p) s) else None)"

definition rsplit_once :: "char \<Rightarrow> string \<Rightarrow> (string \<times> string) option" where
  "rsplit_once c s =
     (case dropWhile (\<lambda>x. x \<noteq> c) (rev s) of
        [] \<Rightarrow> None
      | _ # r \<Rightarrow> Some (rev r, rev (takeWhile (\<lambda>x. x \<noteq> c) (rev s))))"

fun split_on :: "char \<Rightarrow> string \<Rightarrow> string list" where
  "split_on c s =
     (case dropWhile (\<lambda>x. x \<noteq> c) s of
        [] \<Rightarrow> [s]
      | _ # r \<Rightarrow> takeWhile (\<lambda>x. x \<noteq> c) s # (if length r < length s then split_on c r else []))"

declare split_on.simps [simp del]

fun split_whitespace :: "string \<Rightarrow> string list" where
  "split_whitespace s =
     (let t = trim_start s in
      if t = [] then []
      else takeWhile (\<lambda>c. \<not> is_ws c) t #
        (let r = dropWhile (\<lambda>c. \<not> is_ws c) t in
         if length r < length s then split_whitespace r else []))"

declare split_whitespace.simps [simp del]

definition strip_cr :: "string \<Rightarrow> string" where
  "strip_cr l = (if l \<noteq> [] \<and> last l = carriage_return then butlast l else l)"

fun lines :: "string \<Rightarrow> string list" where
  "lines s =
     (if s = [] then []
      else case dropWhile (\<lambda>c. c \<noteq> newline) s of
             [] \<Rightarrow> [s]
           | _ # r \<Rightarrow> strip_cr (takeWhile (\<lambda>c. c \<noteq> newline) s) #
               (if length r < length s then lines r else []))"

declare lines.simps [simp del]

fun join :: "string \<Rightarrow> string list \<Rightarrow> string" where
  "join sep [] = []"
| "join sep [x] = x"
| "join sep (x # y # xs) = x @ sep @ join sep (y # xs)"

definition to_ascii_lowercase :: "char \<Rightarrow> char" where
  "to_ascii_lowercase c =
     (if 65 \<le> (of_char c :: nat) \<and> (of_char c :: nat) \<le> 90
      then char_of (of_char c + 32 :: nat) else c)"

definition eq_ignore_ascii_case :: "string \<Rightarrow> string \<Rightarrow> bool" where
  "eq_ignore_ascii_case a b \<longleftrightarrow> map to_ascii_lowercase a = map to_ascii_lowercase b"

fun contains :: "string \<Rightarrow> string \<Rightarrow> bool" where
  "contains [] p \<longleftrightarrow> p = []"
| "contains (c # s) p \<longleftrightarrow> take (length p) (c # s) = p \<or> contains s p"

text \<open>What follows the first occurrence of a text: \<open>s.find(p)\<close> and the slice after it.\<close>

fun after_str :: "string \<Rightarrow> string \<Rightarrow> string option" where
  "after_str p [] = (if p = [] then Some [] else None)"
| "after_str p (c # s) = (if take (length p) (c # s) = p then Some (drop (length p) (c # s)) else after_str p s)"

text \<open>\<open>split_once\<close> of a character, \<open>trim_matches\<close> and \<open>Iterator::find_map\<close>.\<close>

definition split_once :: "char \<Rightarrow> string \<Rightarrow> (string \<times> string) option" where
  "split_once c s =
     (case dropWhile (\<lambda>x. x \<noteq> c) s of
        [] \<Rightarrow> None
      | _ # r \<Rightarrow> Some (takeWhile (\<lambda>x. x \<noteq> c) s, r))"

definition trim_matches :: "(char \<Rightarrow> bool) \<Rightarrow> string \<Rightarrow> string" where
  "trim_matches P s = rev (dropWhile P (rev (dropWhile P s)))"

fun find_map :: "('a \<Rightarrow> 'b option) \<Rightarrow> 'a list \<Rightarrow> 'b option" where
  "find_map f [] = None"
| "find_map f (x # xs) = (case f x of Some y \<Rightarrow> Some y | None \<Rightarrow> find_map f xs)"

text \<open>Bytes read as ASCII text, and text as bytes.\<close>

definition text_of :: "bytes \<Rightarrow> string" where
  "text_of bs = map (\<lambda>b. char_of (unat b)) bs"

definition bytes_of :: "string \<Rightarrow> bytes" where
  "bytes_of s = map (\<lambda>c. of_nat (of_char c)) s"

section \<open>Facts\<close>

lemma of_char_lt_256: "(of_char c :: nat) < 256"
  using of_char_mod_256 [of c, where ?'a = nat] by (metis mod_less_divisor zero_less_numeral)

lemma text_of_bytes_of [simp, text_simps]: "text_of (bytes_of s) = s"
proof (induction s)
  case Nil
  then show ?case by (simp add: text_of_def bytes_of_def)
next
  case (Cons c s)
  have "unat (of_nat (of_char c) :: u8) = of_char c"
    using of_char_lt_256 [of c] by (simp add: unat_of_nat)
  with Cons show ?case by (simp add: text_of_def bytes_of_def)
qed

lemma length_bytes_of [simp]: "length (bytes_of s) = length s"
  by (simp add: bytes_of_def)

lemma bytes_of_append: "bytes_of (s @ t) = bytes_of s @ bytes_of t"
  by (simp add: bytes_of_def)

lemma text_of_append: "text_of (s @ t) = text_of s @ text_of t"
  by (simp add: text_of_def)

lemma strip_prefix_append [simp, text_simps]: "strip_prefix p (p @ s) = Some s"
  by (simp add: strip_prefix_def)

lemma strip_prefix_SomeD: "strip_prefix p s = Some r \<Longrightarrow> s = p @ r"
  unfolding strip_prefix_def by (metis append_take_drop_id option.distinct(1) option.inject)

lemma rsplit_once_None: "c \<notin> set s \<Longrightarrow> rsplit_once c s = None"
proof -
  assume "c \<notin> set s"
  then have "dropWhile (\<lambda>x. x \<noteq> c) (rev s) = []"
    by auto
  then show ?thesis by (simp add: rsplit_once_def del: dropWhile_eq_Nil_conv)
qed

lemma rsplit_once_append:
  assumes "c \<notin> set p"
  shows "rsplit_once c (h @ c # p) = Some (h, p)"
proof -
  have *: "\<forall>x\<in>set (rev p). x \<noteq> c" using assms by auto
  have "takeWhile (\<lambda>x. x \<noteq> c) (rev p @ c # rev h) = rev p"
    using * by (subst takeWhile_append2) auto
  moreover have "dropWhile (\<lambda>x. x \<noteq> c) (rev p @ c # rev h) = c # rev h"
    using * by (subst dropWhile_append2) auto
  ultimately show ?thesis by (simp add: rsplit_once_def)
qed

lemma rsplit_once_SomeD:
  assumes "rsplit_once c s = Some (h, p)"
  shows "s = h @ c # p" and "c \<notin> set p"
proof -
  from assms obtain x r where dw: "dropWhile (\<lambda>x. x \<noteq> c) (rev s) = x # r"
    and h: "h = rev r" and p: "p = rev (takeWhile (\<lambda>x. x \<noteq> c) (rev s))"
    by (auto simp: rsplit_once_def split: list.splits)
  have "x = c"
    using dw hd_dropWhile [of "\<lambda>x. x \<noteq> c" "rev s"] by simp
  then have "rev s = rev p @ c # r"
    using takeWhile_dropWhile_id [of "\<lambda>x. x \<noteq> c" "rev s"] dw p by simp
  then have "rev (rev s) = rev (rev p @ c # r)" by simp
  then show "s = h @ c # p" using h by simp
  show "c \<notin> set p" unfolding p by (auto dest: set_takeWhileD)
qed

lemma trim_start_non_ws:
  "s = [] \<or> \<not> is_ws (hd s) \<Longrightarrow> trim_start s = s"
  by (cases s) (auto simp: trim_start_def)

lemma trim_end_non_ws:
  "s = [] \<or> \<not> is_ws (last s) \<Longrightarrow> trim_end s = s"
  by (cases s rule: rev_cases) (auto simp: trim_end_def)

lemma trim_surround:
  assumes "list_all is_ws b" and "list_all is_ws a"
  shows "trim (b @ m @ a) = trim m"
proof -
  have pre: "dropWhile is_ws (b @ m @ a) = dropWhile is_ws (m @ a)"
    using assms(1) by (subst dropWhile_append2) (auto simp: list_all_iff)
  have post: "dropWhile is_ws (rev (x @ a)) = dropWhile is_ws (rev x)" for x
    using assms(2) dropWhile_append2 [of "rev a" is_ws "rev x"] by (simp add: list_all_iff)
  show ?thesis
  proof (cases "\<forall>c \<in> set m. is_ws c")
    case True
    with assms(2) have "dropWhile is_ws (m @ a) = []" "dropWhile is_ws m = []"
      by (auto simp: list_all_iff dropWhile_eq_Nil_conv)
    with pre show ?thesis unfolding trim_def trim_start_def by metis
  next
    case False
    then have "dropWhile is_ws (m @ a) = dropWhile is_ws m @ a" by (meson dropWhile_append1)
    with pre post show ?thesis by (simp add: trim_def trim_start_def trim_end_def)
  qed
qed

lemma trim_id: "list_all (\<lambda>c. \<not> is_ws c) s \<Longrightarrow> trim s = s"
proof -
  assume *: "list_all (\<lambda>c. \<not> is_ws c) s"
  then have "trim_start s = s"
    by (intro trim_start_non_ws) (cases s, auto simp: list_all_iff)
  moreover from * have "trim_end s = s"
    by (intro trim_end_non_ws) (cases s rule: rev_cases, auto simp: list_all_iff)
  ultimately show ?thesis by (simp add: trim_def)
qed

lemma split_on_notin: "c \<notin> set s \<Longrightarrow> split_on c s = [s]"
proof -
  assume "c \<notin> set s"
  then have "dropWhile (\<lambda>x. x \<noteq> c) s = []"
    by auto
  then show ?thesis by (subst split_on.simps) (simp del: dropWhile_eq_Nil_conv)
qed

lemma split_on_Cons:
  assumes "c \<notin> set p"
  shows "split_on c (p @ c # s) = p # split_on c s"
proof -
  have "takeWhile (\<lambda>x. x \<noteq> c) (p @ c # s) = p"
    using assms by (subst takeWhile_append2) auto
  moreover have "dropWhile (\<lambda>x. x \<noteq> c) (p @ c # s) = c # s"
    using assms by (subst dropWhile_append2) auto
  ultimately show ?thesis by (subst split_on.simps) simp
qed

lemma split_on_join:
  assumes "xs \<noteq> []" and "\<And>x. x \<in> set xs \<Longrightarrow> c \<notin> set x"
  shows "split_on c (join [c] xs) = xs"
  using assms
proof (induction xs rule: list_nonempty_induct)
  case (single x)
  then show ?case by (simp add: split_on_notin)
next
  case (cons x xs)
  then obtain y ys where xs: "xs = y # ys" by (cases xs) auto
  from cons.prems have "c \<notin> set x" by simp
  then have "split_on c (x @ c # join [c] xs) = x # split_on c (join [c] xs)"
    by (rule split_on_Cons)
  with cons xs show ?case by simp
qed

lemma hd_split_on: "split_on c s \<noteq> [] \<and> hd (split_on c s) = takeWhile (\<lambda>x. x \<noteq> c) s"
proof (cases "dropWhile (\<lambda>x. x \<noteq> c) s")
  case Nil
  then have "takeWhile (\<lambda>x. x \<noteq> c) s = s"
    by (metis append_Nil2 takeWhile_dropWhile_id)
  with Nil show ?thesis
    by (subst (1 2) split_on.simps)
      (simp del: dropWhile_eq_Nil_conv takeWhile_eq_all_conv)
next
  case (Cons a r)
  then show ?thesis by (subst (1 2) split_on.simps) simp
qed

text \<open>Splitting a line of blank-separated words gives the words back.\<close>

lemma split_whitespace_Nil [simp, text_simps]: "split_whitespace [] = []"
  by (subst split_whitespace.simps) (simp add: trim_start_def)

lemma split_whitespace_tail_shorter:
  assumes "trim_start s \<noteq> []"
  shows "length (dropWhile (\<lambda>c. \<not> is_ws c) (trim_start s)) < length s"
proof -
  from assms obtain c t where t: "trim_start s = c # t"
    by (cases "trim_start s") auto
  then have "\<not> is_ws c"
    using hd_dropWhile [of is_ws s] by (simp add: trim_start_def)
  then have "length (dropWhile (\<lambda>c. \<not> is_ws c) (c # t)) < length (c # t)"
    by (simp add: length_dropWhile_le le_imp_less_Suc)
  also have "\<dots> \<le> length s"
    using t length_dropWhile_le [of is_ws s] by (simp add: trim_start_def)
  finally show ?thesis using t by simp
qed

lemma split_whitespace_unfold:
  "split_whitespace s =
     (if trim_start s = [] then []
      else takeWhile (\<lambda>c. \<not> is_ws c) (trim_start s) #
        split_whitespace (dropWhile (\<lambda>c. \<not> is_ws c) (trim_start s)))"
  using split_whitespace_tail_shorter [of s]
  by (subst split_whitespace.simps) (simp add: Let_def)

lemma split_whitespace_skip:
  assumes "is_ws b"
  shows "split_whitespace (b # s) = split_whitespace s"
proof -
  have "trim_start (b # s) = trim_start s"
    using assms by (simp add: trim_start_def)
  then show ?thesis
    by (subst (1 2) split_whitespace_unfold) simp
qed

lemma split_whitespace_Cons_ws:
  assumes w: "w \<noteq> []" "list_all (\<lambda>c. \<not> is_ws c) w" and b: "is_ws b"
  shows "split_whitespace (w @ b # s) = w # split_whitespace s"
proof -
  let ?n = "\<lambda>c. \<not> is_ws c"
  have all: "\<And>x. x \<in> set w \<Longrightarrow> ?n x" using w(2) by (auto simp: list_all_iff)
  have t: "trim_start (w @ b # s) = w @ b # s"
    using w by (cases w) (auto simp: trim_start_def)
  have tk: "takeWhile ?n (w @ b # s) = w"
    using all b by (subst takeWhile_append2) auto
  have dr: "dropWhile ?n (w @ b # s) = b # s"
    using all b by (subst dropWhile_append2) auto
  have step: "split_whitespace (b # s) = split_whitespace s"
    using b by (rule split_whitespace_skip)
  show ?thesis
    by (subst split_whitespace.simps) (use w t tk dr step in \<open>simp add: Let_def\<close>)
qed

lemma split_whitespace_word:
  assumes w: "w \<noteq> []" "list_all (\<lambda>c. \<not> is_ws c) w"
  shows "split_whitespace w = [w]"
proof -
  let ?n = "\<lambda>c. \<not> is_ws c"
  have "trim_start w = w" using w by (cases w) (auto simp: trim_start_def)
  moreover have "takeWhile ?n w = w" "dropWhile ?n w = []"
    using w by (auto simp: list_all_iff takeWhile_eq_all_conv dropWhile_eq_Nil_conv)
  ultimately show ?thesis
    by (subst split_whitespace_unfold) (simp add: w del: dropWhile_eq_Nil_conv)
qed

text \<open>The first line of a text that starts with a CRLF-terminated line.\<close>

lemma lines_crlf:
  assumes "newline \<notin> set l" and "carriage_return \<noteq> newline"
  shows "lines (l @ [carriage_return, newline] @ s) = l # lines s"
proof -
  let ?p = "\<lambda>c. c \<noteq> newline"
  have tk: "takeWhile ?p (l @ carriage_return # newline # s) = l @ [carriage_return]"
    using assms by (subst takeWhile_append2) auto
  have dr: "dropWhile ?p (l @ carriage_return # newline # s) = newline # s"
    using assms by (subst dropWhile_append2) auto
  show ?thesis
    by (subst lines.simps) (simp add: tk dr strip_cr_def)
qed

lemma cr_neq_newline [simp]: "carriage_return \<noteq> newline" "newline \<noteq> carriage_return"
  by (simp_all add: carriage_return_def newline_def)

end
