(* ===== verification/Ip_Addr.thy ===== *)
theory Ip_Addr
  imports Rust_Str
begin

text \<open>
  \<open>std::net\<close> addresses: an \<open>Ipv4Addr\<close> is a 32-bit and an \<open>Ipv6Addr\<close> a 128-bit word in network
  order. Octets, the \<open>Display\<close> text of both, the strict dotted-quad parser, and socket addresses.
  The main facts are the octet round trips, the print/parse round trip of IPv4 and the bits of an
  IPv6 address assembled from octets.
\<close>

section \<open>IPv4\<close>

definition octets4 :: "ipv4 \<Rightarrow> bytes" where
  "octets4 ip = be32 ip"

definition ipv4_new :: "u8 \<Rightarrow> u8 \<Rightarrow> u8 \<Rightarrow> u8 \<Rightarrow> ipv4" where
  "ipv4_new a b c d = un32 [a, b, c, d]"

definition show_ipv4 :: "ipv4 \<Rightarrow> string" where
  "show_ipv4 ip = join ''.'' (map (\<lambda>b. show_nat (unat b)) (octets4 ip))"

text \<open>An octet of the strict parser: one to three digits, no leading zero, at most 255.\<close>

definition parse_octet :: "string \<Rightarrow> u8 option" where
  "parse_octet s =
     (if s \<noteq> [] \<and> length s \<le> 3 \<and> list_all is_digit s
         \<and> (length s = 1 \<or> hd s \<noteq> CHR ''0'') \<and> dec_value s < 256
      then Some (of_nat (dec_value s)) else None)"

definition parse_ipv4 :: "string \<Rightarrow> ipv4 option" where
  "parse_ipv4 s =
     (case split_on (CHR ''.'') s of
        [a, b, c, d] \<Rightarrow>
          (case (parse_octet a, parse_octet b, parse_octet c, parse_octet d) of
             (Some w, Some x, Some y, Some z) \<Rightarrow> Some (ipv4_new w x y z)
           | _ \<Rightarrow> None)
      | _ \<Rightarrow> None)"

lemma show_nat_lt_1000: "n < 1000 \<Longrightarrow> length (show_nat n) \<le> 3"
  by (simp add: show_nat.simps)

lemma show_nat_hd: "0 < n \<Longrightarrow> hd (show_nat n) \<noteq> CHR ''0''"
proof (induction n rule: show_nat.induct)
  case (1 n)
  show ?case
  proof (cases "n < 10")
    case True
    have "digit_char n \<noteq> CHR ''0''"
      using True 1(2) digit_char_props(2) [of n] by (auto simp: digit_val_def)
    with True show ?thesis by (subst show_nat.simps) simp
  next
    case False
    then show ?thesis
      using "1.IH" by (subst show_nat.simps) simp
  qed
qed

lemma parse_octet_show: "parse_octet (show_nat (unat b)) = Some (b :: u8)"
proof -
  have lt: "unat b < 256"
    using unsigned_less [where ?'a = nat, of b] by simp
  have "length (show_nat (unat b)) = 1 \<or> hd (show_nat (unat b)) \<noteq> CHR ''0''"
    using show_nat_hd [of "unat b"] by (cases "unat b = 0") (auto simp: show_nat.simps)
  with lt show ?thesis
    by (simp add: parse_octet_def show_nat_digits show_nat_lt_1000)
qed

lemma dot_not_digit: "CHR ''.'' \<notin> set (show_nat n)"
  using show_nat_digits [of n] by (auto simp: list_all_iff is_digit_def)

lemma octets4_eq: "octets4 ip = [octets4 ip ! 0, octets4 ip ! 1, octets4 ip ! 2, octets4 ip ! 3]"
  by (simp add: octets4_def be32_def)

lemma parse_show_ipv4 [simp, text_simps]: "parse_ipv4 (show_ipv4 ip) = Some ip"
proof -
  let ?t = "\<lambda>b::u8. show_nat (unat b)"
  have "split_on (CHR ''.'') (show_ipv4 ip) = map ?t (octets4 ip)"
    unfolding show_ipv4_def
    by (rule split_on_join) (auto simp: octets4_def be32_def dot_not_digit)
  also have "\<dots> = [?t (octets4 ip ! 0), ?t (octets4 ip ! 1), ?t (octets4 ip ! 2), ?t (octets4 ip ! 3)]"
    by (subst octets4_eq) simp
  finally show ?thesis
    using un32_be32 [of ip] octets4_eq [of ip]
    by (simp add: parse_ipv4_def parse_octet_show ipv4_new_def octets4_def)
qed

lemma show_ipv4_inj [simp]: "show_ipv4 a = show_ipv4 b \<longleftrightarrow> a = b"
  by (metis option.inject parse_show_ipv4)

section \<open>IPv6\<close>

definition octets6 :: "ipv6 \<Rightarrow> bytes" where
  "octets6 ip = map (\<lambda>i. ucast (drop_bit (8 * i) ip)) (rev [0..<16])"

definition ipv6_of_octets :: "bytes \<Rightarrow> ipv6" where
  "ipv6_of_octets bs = foldl (\<lambda>a b. push_bit 8 a OR ucast b) 0 bs"

definition segments6 :: "ipv6 \<Rightarrow> u16 list" where
  "segments6 ip = map (\<lambda>i. ucast (drop_bit (16 * i) ip)) (rev [0..<8])"

lemma length_octets6 [simp]: "length (octets6 ip) = 16"
  by (simp add: octets6_def)

lemma octets6_nth: "i < 16 \<Longrightarrow> octets6 ip ! i = ucast (drop_bit (8 * (15 - i)) ip)"
  by (simp add: octets6_def rev_nth)

lemma bit_ipv6_of_octets:
  "length bs \<le> 16 \<Longrightarrow>
   bit (ipv6_of_octets bs) n \<longleftrightarrow> n < 8 * length bs \<and> bit (rev bs ! (n div 8)) (n mod 8)"
proof (induction bs arbitrary: n rule: rev_induct)
  case Nil
  then show ?case by (simp add: ipv6_of_octets_def)
next
  case (snoc b bs)
  have eq: "ipv6_of_octets (bs @ [b]) = push_bit 8 (ipv6_of_octets bs) OR ucast b"
    by (simp add: ipv6_of_octets_def)
  show ?case
  proof (cases "n < 8")
    case True
    then show ?thesis by (simp add: eq bit_simps)
  next
    case False
    then have nb: "\<not> bit (ucast b :: ipv6) n"
      by (auto simp: bit_simps dest: bit_imp_le_length)
    have "bit (ipv6_of_octets (bs @ [b])) n \<longleftrightarrow> n < 128 \<and> bit (ipv6_of_octets bs) (n - 8)"
      using False nb by (auto simp: eq bit_simps)
    moreover have "n div 8 = Suc ((n - 8) div 8)" "n mod 8 = (n - 8) mod 8"
      using False by (auto simp: le_div_geq le_mod_geq)
    ultimately show ?thesis
      using snoc.IH [of "n - 8"] snoc.prems False by (auto simp: less_diff_conv)
  qed
qed

lemma ipv6_of_octets6 [simp, byte_simps]: "ipv6_of_octets (octets6 ip) = ip"
proof (rule bit_word_eqI)
  fix n
  assume "n < LENGTH(128)"
  then have n: "n < 128" by simp
  then have i: "n div 8 < 16" by simp
  have "rev (octets6 ip) ! (n div 8) = ucast (drop_bit (8 * (n div 8)) ip)"
    using i by (simp add: octets6_def rev_map)
  then show "bit (ipv6_of_octets (octets6 ip)) n = bit ip n"
    using n by (simp add: bit_ipv6_of_octets bit_simps)
qed

text \<open>\<open>Display\<close> of an IPv6 address: IPv4-mapped addresses in dotted form, otherwise the first
  longest run of at least two zero groups is written \<open>::\<close>.\<close>

definition hex_char :: "nat \<Rightarrow> char" where
  "hex_char d = (if d < 10 then char_of (48 + d) else char_of (87 + d))"

fun show_hex :: "nat \<Rightarrow> string" where
  "show_hex n = (if n < 16 then [hex_char n] else show_hex (n div 16) @ [hex_char (n mod 16)])"

declare show_hex.simps [simp del]

definition show_groups :: "u16 list \<Rightarrow> string" where
  "show_groups gs = join '':'' (map (\<lambda>g. show_hex (unat g)) gs)"

fun zero_span :: "nat \<Rightarrow> (nat \<times> nat) \<Rightarrow> (nat \<times> nat) \<Rightarrow> u16 list \<Rightarrow> nat \<times> nat" where
  "zero_span i longest current [] = longest"
| "zero_span i longest current (g # gs) =
     (if g = 0 then
        (let cur = (if snd current = 0 then i else fst current, Suc (snd current))
         in zero_span (Suc i) (if snd cur > snd longest then cur else longest) cur gs)
      else zero_span (Suc i) longest (0, 0) gs)"

definition show_ipv6 :: "ipv6 \<Rightarrow> string" where
  "show_ipv6 ip =
     (let gs = segments6 ip in
      if take 6 gs = [0, 0, 0, 0, 0, 0xffff] then ''::ffff:'' @ show_ipv4 (ucast ip)
      else (case zero_span 0 (0, 0) (0, 0) gs of (start, len) \<Rightarrow>
        if len > 1 then show_groups (take start gs) @ ''::'' @ show_groups (drop (start + len) gs)
        else show_groups gs))"

section \<open>Either family, and socket addresses\<close>

datatype ip_addr = V4 ipv4 | V6 ipv6

fun show_ip :: "ip_addr \<Rightarrow> string" where
  "show_ip (V4 ip) = show_ipv4 ip"
| "show_ip (V6 ip) = show_ipv6 ip"

datatype socket_addr = SocketAddr ip_addr u16

fun show_socket_addr :: "socket_addr \<Rightarrow> string" where
  "show_socket_addr (SocketAddr (V4 ip) p) = show_ipv4 ip @ '':'' @ show_u16 p"
| "show_socket_addr (SocketAddr (V6 ip) p) = ''['' @ show_ipv6 ip @ '']:'' @ show_u16 p"

end
