(* ===== verification/Ip_Parse.thy ===== *)
theory Ip_Parse
  imports Ip_Addr
begin

text \<open>
  \<open>str::parse::<IpAddr>()\<close> of the standard library, as its reader works: numbers with a digit limit,
  dotted quads, and IPv6 groups with one \<open>::\<close> and an optional embedded IPv4 tail. A reader takes the rest
  of the input and returns a value and the new rest; a failing reader consumes nothing.
\<close>

section \<open>Readers\<close>

definition hex_val :: "char \<Rightarrow> nat option" where
  "hex_val c =
     (let n = of_char c :: nat in
      if 48 \<le> n \<and> n \<le> 57 then Some (n - 48)
      else if 97 \<le> n \<and> n \<le> 102 then Some (n - 87)
      else if 65 \<le> n \<and> n \<le> 70 then Some (n - 55) else None)"

definition to_digit :: "nat \<Rightarrow> char \<Rightarrow> nat option" where
  "to_digit radix c = (case hex_val c of Some d \<Rightarrow> if d < radix then Some d else None | None \<Rightarrow> None)"

definition digits_of :: "nat \<Rightarrow> string \<Rightarrow> string" where
  "digits_of radix s = takeWhile (\<lambda>c. to_digit radix c \<noteq> None) s"

definition number_value :: "nat \<Rightarrow> string \<Rightarrow> nat" where
  "number_value radix ds = foldl (\<lambda>n c. radix * n + the (to_digit radix c)) 0 ds"

text \<open>\<open>read_number\<close>: all digits that follow; too many, none, too big, or a forbidden leading zero fail.\<close>

definition read_number :: "nat \<Rightarrow> nat \<Rightarrow> bool \<Rightarrow> nat \<Rightarrow> string \<Rightarrow> (nat \<times> string) option" where
  "read_number radix max_digits allow_zero_prefix bound s =
     (let ds = digits_of radix s in
      if ds = [] \<or> length ds > max_digits \<or> number_value radix ds \<ge> bound
         \<or> (\<not> allow_zero_prefix \<and> length ds > 1 \<and> hd ds = CHR ''0'')
      then None else Some (number_value radix ds, drop (length ds) s))"

definition read_char :: "char \<Rightarrow> string \<Rightarrow> string option" where
  "read_char c s = (case s of x # r \<Rightarrow> if x = c then Some r else None | [] \<Rightarrow> None)"

definition read_separator :: "char \<Rightarrow> nat \<Rightarrow> (string \<Rightarrow> ('a \<times> string) option) \<Rightarrow> string \<Rightarrow> ('a \<times> string) option" where
  "read_separator sep i inner s = (if i > 0 then Option.bind (read_char sep s) inner else inner s)"

fun read_quads :: "nat \<Rightarrow> nat \<Rightarrow> string \<Rightarrow> (u8 list \<times> string) option" where
  "read_quads i 0 s = Some ([], s)"
| "read_quads i (Suc k) s =
     Option.bind (read_separator (CHR ''.'') i (read_number 10 3 False 256) s) (\<lambda>(n, r).
       Option.bind (read_quads (Suc i) k r) (\<lambda>(ns, r'). Some (of_nat n # ns, r')))"

definition read_ipv4_addr :: "string \<Rightarrow> (ipv4 \<times> string) option" where
  "read_ipv4_addr s = map_option (\<lambda>(os, r). (un32 os, r)) (read_quads 0 4 s)"

text \<open>\<open>read_groups\<close>: at most \<open>k\<close> more groups of a slice whose next index is \<open>i\<close>; the flag tells that
  the last two came from a dotted quad.\<close>

fun read_groups :: "nat \<Rightarrow> nat \<Rightarrow> string \<Rightarrow> u16 list \<times> bool \<times> string" where
  "read_groups i 0 s = ([], False, s)"
| "read_groups i (Suc k) s =
     (case (if k > 0 then read_separator (CHR '':'') i read_ipv4_addr s else None) of
        Some (v4, r) \<Rightarrow> ([ucast (drop_bit 16 v4), ucast v4], True, r)
      | None \<Rightarrow>
          (case read_separator (CHR '':'') i (read_number 16 4 True 65536) s of
             Some (g, r) \<Rightarrow> (case read_groups (Suc i) k r of (gs, v4, r') \<Rightarrow> (of_nat g # gs, v4, r'))
           | None \<Rightarrow> ([], False, s)))"

definition ipv6_of_groups :: "u16 list \<Rightarrow> ipv6" where
  "ipv6_of_groups gs = foldl (\<lambda>a g. push_bit 16 a OR ucast g) 0 gs"

definition read_ipv6_addr :: "string \<Rightarrow> (ipv6 \<times> string) option" where
  "read_ipv6_addr s =
     (case read_groups 0 8 s of (head, head_v4, r) \<Rightarrow>
        if length head = 8 then Some (ipv6_of_groups head, r)
        else if head_v4 then None
        else Option.bind (read_char (CHR '':'') r) (\<lambda>r1. Option.bind (read_char (CHR '':'') r1) (\<lambda>r2.
          (case read_groups 0 (8 - (length head + 1)) r2 of (tail, _, r3) \<Rightarrow>
             Some (ipv6_of_groups (head @ replicate (8 - length head - length tail) 0 @ tail), r3)))))"

definition parse_ip :: "string \<Rightarrow> ip_addr option" where
  "parse_ip s =
     (case read_ipv4_addr s of
        Some (ip, r) \<Rightarrow> if r = [] then Some (V4 ip) else None
      | None \<Rightarrow>
          (case read_ipv6_addr s of
             Some (ip, r) \<Rightarrow> if r = [] then Some (V6 ip) else None
           | None \<Rightarrow> None))"

section \<open>Printed IPv4 addresses parse back\<close>

lemma to_digit_10: "to_digit 10 c = (if is_digit c then Some (digit_val c) else None)"
  by (auto simp: to_digit_def hex_val_def is_digit_def digit_val_def Let_def)

lemma number_value_10: "list_all is_digit ds \<Longrightarrow> number_value 10 ds = dec_value ds"
proof -
  have "list_all is_digit ds \<Longrightarrow> foldl (\<lambda>n c. 10 * n + the (to_digit 10 c)) a ds
      = foldl (\<lambda>n c. 10 * n + digit_val c) a ds" for a
    by (induction ds arbitrary: a) (auto simp: to_digit_10)
  then show "list_all is_digit ds \<Longrightarrow> ?thesis"
    by (simp add: number_value_def dec_value_def)
qed

lemma read_number_show:
  assumes "r = [] \<or> \<not> is_digit (hd r)"
  shows "read_number 10 3 False 256 (show_nat (unat (b :: u8)) @ r) = Some (unat b, r)"
proof -
  have lt: "unat b < 256"
    using unsigned_less [where ?'a = nat, of b] by simp
  have z: "show_nat 0 = [digit_char 0]"
    by (subst show_nat.simps) simp
  have d: "digits_of 10 (show_nat (unat b) @ r) = show_nat (unat b)"
    using show_nat_digits [of "unat b"] assms
    by (cases r) (auto simp: digits_of_def to_digit_10 takeWhile_append list_all_iff)
  have "length (show_nat (unat b)) \<le> 3"
    using lt by (intro show_nat_lt_1000) simp
  moreover have "length (show_nat (unat b)) > 1 \<Longrightarrow> hd (show_nat (unat b)) \<noteq> CHR ''0''"
    using show_nat_hd [of "unat b"] z by (cases "unat b = 0") simp_all
  ultimately show ?thesis
    using lt show_nat_digits [of "unat b"] by (auto simp: read_number_def d number_value_10 Let_def)
qed

lemma not_digit_dot [simp]: "\<not> is_digit (CHR ''.'')"
  by (simp add: is_digit_def)

definition dotted :: "u8 list \<Rightarrow> string" where
  "dotted bs = concat (map (\<lambda>b. ''.'' @ show_nat (unat b)) bs)"

lemma dotted_hd: "dotted bs = [] \<or> \<not> is_digit (hd (dotted bs))"
  by (cases bs) (simp_all add: dotted_def)

lemma read_quads_dotted: "read_quads (Suc i) (length bs) (dotted bs) = Some (bs, [])"
proof (induction bs arbitrary: i)
  case (Cons b bs)
  have "dotted (b # bs) = CHR ''.'' # show_nat (unat b) @ dotted bs"
    by (simp add: dotted_def)
  then show ?case
    using Cons [of "Suc i"] by (simp add: read_separator_def read_char_def read_number_show [OF dotted_hd])
qed (simp add: dotted_def)

lemma parse_show_v4: "parse_ip (show_ipv4 ip) = Some (V4 ip)"
proof -
  obtain b0 bs where os: "octets4 ip = b0 # bs" and l: "length bs = 3"
    using octets4_eq [of ip] by (metis length_Cons list.size(3) numeral_3_eq_3)
  have "join ''.'' (map (\<lambda>b. show_nat (unat b)) (b # cs)) = show_nat (unat b) @ dotted cs" for b :: u8 and cs
    by (induction cs arbitrary: b) (simp_all add: dotted_def)
  then have s: "show_ipv4 ip = show_nat (unat b0) @ dotted bs"
    by (simp add: show_ipv4_def os)
  have "read_quads 0 (Suc (length bs)) (show_ipv4 ip) = Some (b0 # bs, [])"
    using read_quads_dotted [of 0 bs] by (simp add: s read_separator_def read_number_show [OF dotted_hd])
  moreover have "Suc (length bs) = 4" using l by simp
  ultimately have "read_ipv4_addr (show_ipv4 ip) = Some (un32 (octets4 ip), [])"
    by (simp only: read_ipv4_addr_def os) simp
  then show ?thesis
    by (simp add: parse_ip_def octets4_def)
qed

end
