(* ===== verification/Shell.thy ===== *)
theory Shell
  imports Ip_Parse
begin

text \<open>
  Commands of the host. Server and client configure the network by running programs (\<open>ip\<close>, \<open>iptables\<close>,
  \<open>sysctl\<close>); the operating system is a function argument \<open>exec\<close> that takes a command and the state of the
  host to what the program printed and the next state. The undo lists both ends keep are lists of
  commands, run one after the other when the guard that owns them is dropped.
\<close>

section \<open>Errors in context\<close>

text \<open>\<open>anyhow::Error\<close>: an error of the library, a message, or one of them in a context.\<close>

datatype anyhow = Source error | Message string | Context string anyhow

definition with_context :: "string \<Rightarrow> error + 'a \<Rightarrow> anyhow + 'a" where
  "with_context ctx r = map_err (\<lambda>e. Context ctx (Source e)) r"

section \<open>Commands\<close>

type_synonym cmd = "string \<times> string list"

record cmd_output =
  out_ok :: bool
  out_stdout :: string
  out_stderr :: string

type_synonym 'o exec = "cmd \<Rightarrow> 'o \<Rightarrow> (string + cmd_output) \<times> 'o"

text \<open>The program could be started and ended with status 0.\<close>

definition succeeded :: "string + cmd_output \<Rightarrow> bool" where
  "succeeded r = (case r of Inl _ \<Rightarrow> False | Inr out \<Rightarrow> out_ok out)"

text \<open>The platforms the sources are compiled for (\<open>target_os\<close>).\<close>

datatype target_os = Linux | Macos | Windows | Other_Os

text \<open>The word after the first \<open>key\<close>: \<open>position(|t| *t == key).and_then(|i| toks.get(i + 1))\<close>.\<close>

fun word_after :: "string \<Rightarrow> string list \<Rightarrow> string option" where
  "word_after key [] = None"
| "word_after key (t # ts) =
     (if t = key then (case ts of [] \<Rightarrow> None | w # _ \<Rightarrow> Some w) else word_after key ts)"

text \<open>A command whose failure is an error, and one whose standard output is taken when it succeeds.\<close>

definition run_command :: "'o exec \<Rightarrow> string \<Rightarrow> string list \<Rightarrow> 'o \<Rightarrow> unit res \<times> 'o" where
  "run_command exec c args st =
     (case exec (c, args) st of
        (Inl e, st') \<Rightarrow> (Inl (Transport (''spawn `'' @ c @ ''`: '' @ e)), st')
      | (Inr out, st') \<Rightarrow>
          (if out_ok out then (Inr (), st')
           else (Inl (Transport (''`'' @ c @ '' '' @ join '' '' args @ ''` failed: '' @ trim (out_stderr out))), st')))"

definition cmd_out :: "'o exec \<Rightarrow> string \<Rightarrow> string list \<Rightarrow> 'o \<Rightarrow> string option \<times> 'o" where
  "cmd_out exec c args st =
     (case exec (c, args) st of
        (Inl e, st') \<Rightarrow> (None, st')
      | (Inr out, st') \<Rightarrow> (if out_ok out then Some (out_stdout out) else None, st'))"

text \<open>What dropping a guard does with its undo list: every command runs, its status is ignored.\<close>

definition undo_all :: "'o exec \<Rightarrow> cmd list \<Rightarrow> 'o \<Rightarrow> 'o" where
  "undo_all exec undo st = foldl (\<lambda>s c. snd (exec c s)) st undo"

lemma undo_all_simps [simp]:
  "undo_all exec [] st = st"
  "undo_all exec (c # cs) st = undo_all exec cs (snd (exec c st))"
  "undo_all exec (cs @ ds) st = undo_all exec ds (undo_all exec cs st)"
  by (simp_all add: undo_all_def)

lemma word_after_append:
  "key \<notin> set ts \<Longrightarrow> word_after key (ts @ key # w # us) = Some w"
  by (induction ts) auto

lemma word_after_None: "key \<notin> set ts \<Longrightarrow> word_after key ts = None"
  by (induction ts) auto

lemma snd_run_command [simp]: "snd (run_command exec c args st) = snd (exec (c, args) st)"
  by (simp add: run_command_def split: prod.split sum.split)

lemma fst_run_command: "fst (run_command exec c args st) = Inr () \<longleftrightarrow> succeeded (fst (exec (c, args) st))"
  by (simp add: run_command_def succeeded_def split: prod.split sum.split)

lemma snd_cmd_out [simp]: "snd (cmd_out exec c args st) = snd (exec (c, args) st)"
  by (simp add: cmd_out_def split: prod.split sum.split)

section \<open>The commands that were run\<close>

text \<open>An observation that lists the commands in the order they ran.\<close>

definition records :: "'o exec \<Rightarrow> ('o \<Rightarrow> cmd list) \<Rightarrow> bool" where
  "records exec hist \<longleftrightarrow> (\<forall>c st. hist (snd (exec c st)) = hist st @ [c])"

text \<open>From one state to the next only commands ran that satisfy \<open>P\<close>.\<close>

definition ran :: "('o \<Rightarrow> cmd list) \<Rightarrow> (cmd \<Rightarrow> bool) \<Rightarrow> 'o \<Rightarrow> 'o \<Rightarrow> bool" where
  "ran hist P st st' \<longleftrightarrow> (\<exists>cs. hist st' = hist st @ cs \<and> list_all P cs)"

lemma ran_refl [simp]: "ran hist P st st"
  by (simp add: ran_def)

lemma ran_trans: "ran hist P a b \<Longrightarrow> ran hist P b c \<Longrightarrow> ran hist P a c"
  by (auto simp: ran_def)

lemma ran_exec: "records exec hist \<Longrightarrow> P c \<Longrightarrow> ran hist P st (snd (exec c st))"
  by (cases c) (auto simp: ran_def records_def)

lemma ran_step: "records exec hist \<Longrightarrow> ran hist P a b \<Longrightarrow> P c \<Longrightarrow> ran hist P a (snd (exec c b))"
  by (blast intro: ran_trans ran_exec)

lemma ran_same: "hist b = hist a \<Longrightarrow> ran hist P a b"
  by (simp add: ran_def)

lemma ran_weaken: "ran hist P a b \<Longrightarrow> (\<And>c. P c \<Longrightarrow> Q c) \<Longrightarrow> ran hist Q a b"
  by (auto simp: ran_def list_all_iff)

end
