(* ===== verification/Tun.thy ===== *)
theory Tun
  imports Shell
begin

text \<open>
  \<open>tun.rs\<close> on Linux: bringing up the TUN device through \<open>/dev/net/tun\<close> and the \<open>TUNSETIFF\<close> request, and
  the retry loops of \<open>recv\<close> and \<open>send\<close>. The system calls are function arguments. The facts: the request is a
  well-formed \<open>ifreq\<close> whose name is NUL-terminated, the device carries the (truncated) requested name, and
  no file descriptor is left open when \<open>create\<close> fails.
\<close>

section \<open>Definitions\<close>

record tun_config =
  tc_name :: string
  tc_ip :: ipv4
  tc_prefix_len :: u8
  tc_mtu :: u16

record tun_device =
  td_fd :: int
  td_name :: string

record 'o tun_kernel =
  k_open :: "'o \<Rightarrow> (io_error + int) \<times> 'o"
  k_tunsetiff :: "int \<Rightarrow> bytes \<Rightarrow> 'o \<Rightarrow> (io_error + bytes) \<times> 'o"
  k_register :: "int \<Rightarrow> 'o \<Rightarrow> (io_error + unit) \<times> 'o"
  k_close :: "int \<Rightarrow> 'o \<Rightarrow> 'o"

definition IFF_TUN :: u16 where
  "IFF_TUN = 0x0001"

definition IFF_NO_PI :: u16 where
  "IFF_NO_PI = 0x1000"

text \<open>The 40-byte \<open>ifreq\<close>: at most 15 bytes of the name, then zeros, then the flags in the byte order of the
  machine, here little-endian.\<close>

definition ifreq :: "string \<Rightarrow> bytes" where
  "ifreq name =
     (let nb = take 15 (bytes_of name); flags = IFF_TUN OR IFF_NO_PI
      in nb @ replicate (16 - length nb) 0 @ rev (be16 flags) @ replicate 22 0)"

text \<open>The name the kernel wrote back: the bytes up to the first NUL of the first 16.\<close>

definition ifr_name :: "bytes \<Rightarrow> string" where
  "ifr_name ifr = text_of (takeWhile (\<lambda>b. b \<noteq> 0) (take 16 ifr))"

definition tun_create :: "'o tun_kernel \<Rightarrow> tun_config \<Rightarrow> 'o \<Rightarrow> tun_device res \<times> 'o" where
  "tun_create k cfg st =
     (case k_open k st of
        (Inl e, st1) \<Rightarrow> (Inl (Io e), st1)
      | (Inr fd, st1) \<Rightarrow>
          (case k_tunsetiff k fd (ifreq (tc_name cfg)) st1 of
             (Inl e, st2) \<Rightarrow> (Inl (Io e), k_close k fd st2)
           | (Inr ifr, st2) \<Rightarrow>
               (case k_register k fd st2 of
                  (Inl e, st3) \<Rightarrow> (Inl (Io e), k_close k fd st3)
                | (Inr _, st3) \<Rightarrow> (Inr \<lparr>td_fd = fd, td_name = ifr_name ifr\<rparr>, st3))))"

text \<open>One turn of the loops of \<open>recv\<close> and \<open>send\<close>: waiting for readiness fails, the system call would block,
  or it completes with a value (the number of bytes here). A loop over the turns the reactor delivers; \<open>None\<close> while it still waits.\<close>

datatype 'a io_turn = Not_ready io_error | Would_block | Call_failed io_error | Call_done 'a

fun tun_io :: "'a io_turn list \<Rightarrow> 'a res option" where
  "tun_io [] = None"
| "tun_io (Not_ready e # ts) = Some (Inl (Io e))"
| "tun_io (Would_block # ts) = tun_io ts"
| "tun_io (Call_failed e # ts) = Some (Inl (Io e))"
| "tun_io (Call_done n # ts) = Some (Inr n)"

section \<open>Facts\<close>

lemma length_ifreq: "length (ifreq name) = 40"
  by (simp add: ifreq_def Let_def be16_def)

lemma ifreq_name_field: "take 16 (ifreq name) = take 15 (bytes_of name) @ replicate (16 - length (take 15 (bytes_of name))) 0"
  by (simp add: ifreq_def Let_def)

lemma ifreq_terminated: "0 \<in> set (take 16 (ifreq name))"
  by (auto simp: ifreq_name_field)

lemma bytes_of_take: "take n (bytes_of s) = bytes_of (take n s)"
  by (simp add: bytes_of_def take_map)

lemma takeWhile_pad: "(\<forall>x \<in> set xs. P x) \<Longrightarrow> \<not> P z \<Longrightarrow> takeWhile P (xs @ replicate n z) = xs"
  by (induction xs) (auto simp: takeWhile_eq_Nil_iff)

lemma bytes_of_nonzero:
  assumes "CHR 0x00 \<notin> set s"
  shows "\<forall>b \<in> set (bytes_of s). b \<noteq> 0"
proof
  fix b assume "b \<in> set (bytes_of s)"
  then obtain c where c: "c \<in> set s" "b = of_nat (of_char c)" by (auto simp: bytes_of_def)
  have "unat b = of_char c"
    using of_char_lt_256 [of c] c(2) by (simp add: unat_of_nat)
  moreover have "(of_char c :: nat) \<noteq> 0"
  proof
    assume "(of_char c :: nat) = 0"
    then have "c = char_of (0::nat)" by (metis char_of_char)
    with c(1) assms show False by (simp add: char_of_def)
  qed
  ultimately show "b \<noteq> 0" by auto
qed

lemma ifr_name_request:
  assumes "CHR 0x00 \<notin> set name"
  shows "ifr_name (ifreq name) = take 15 name"
proof -
  have "CHR 0x00 \<notin> set (take 15 name)" using assms by (meson in_set_takeD)
  from takeWhile_pad [OF bytes_of_nonzero [OF this], of 0 "16 - length (take 15 (bytes_of name))"]
  show ?thesis by (simp add: ifr_name_def ifreq_name_field bytes_of_take)
qed

lemma tun_io_Some: "tun_io ts = Some r \<longleftrightarrow> (\<exists>n t us. ts = replicate n Would_block @ t # us \<and> tun_io [t] = Some r)"
proof (induction ts rule: tun_io.induct)
  case (3 ts)
  show ?case
  proof
    assume "tun_io (Would_block # ts) = Some r"
    then obtain n t us where "ts = replicate n Would_block @ t # us" "tun_io [t] = Some r" using 3 by auto
    then have "Would_block # ts = replicate (Suc n) Would_block @ t # us" "tun_io [t] = Some r" by simp_all
    then show "\<exists>n t us. Would_block # ts = replicate n Would_block @ t # us \<and> tun_io [t] = Some r" by blast
  next
    assume "\<exists>n t us. Would_block # ts = replicate n Would_block @ t # us \<and> tun_io [t] = Some r"
    then obtain n t us where r: "Would_block # ts = replicate n Would_block @ t # us" "tun_io [t] = Some r" by auto
    from r obtain m where "n = Suc m" by (cases n) auto
    with r 3 show "tun_io (Would_block # ts) = Some r" by auto
  qed
qed (auto simp: Cons_eq_append_conv Cons_replicate_eq)

end
