(* ===== verification/Wire_Types.thy ===== *)
theory Wire_Types
  imports Ip_Addr
begin

text \<open>
  The types both ends of a link share: the constants of \<open>core/core/src/lib.rs\<close>, the enums of
  \<open>core/core/src/config.rs\<close> with their wire views and texts, and the handshake and frame types of
  \<open>core/core/src/protocol\<close>. Base64 is a third-party crate, so \<open>parse_psk\<close> takes the decoder as
  an argument.
\<close>

section \<open>Constants\<close>

definition PROTOCOL_VERSION :: u16 where
  "PROTOCOL_VERSION = 2"

definition MAX_MESSAGE_LEN :: nat where
  "MAX_MESSAGE_LEN = 256 * 1024"

definition DEFAULT_MTU :: u16 where
  "DEFAULT_MTU = 1380"

definition KEEPALIVE_SECS :: u64 where
  "KEEPALIVE_SECS = 15"

definition DEAD_LINK_SECS :: u64 where
  "DEAD_LINK_SECS = 45"

definition NOISE_PATTERN :: string where
  "NOISE_PATTERN = ''Noise_NNpsk0_25519_ChaChaPoly_BLAKE2s''"

section \<open>Enums of the configuration\<close>

datatype transport_kind = Tcp | Ws | Quic

fun show_transport :: "transport_kind \<Rightarrow> string" where
  "show_transport Tcp = ''tcp''"
| "show_transport Ws = ''ws''"
| "show_transport Quic = ''quic''"

datatype session_mode = GlobalProxy | SystemProxy | HttpProxy | Vpn

definition wire :: "session_mode \<Rightarrow> session_mode" where
  "wire m = (case m of SystemProxy \<Rightarrow> HttpProxy | other \<Rightarrow> other)"

definition is_stream :: "session_mode \<Rightarrow> bool" where
  "is_stream m \<longleftrightarrow> (case m of HttpProxy \<Rightarrow> True | SystemProxy \<Rightarrow> True | _ \<Rightarrow> False)"

fun show_mode :: "session_mode \<Rightarrow> string" where
  "show_mode GlobalProxy = ''global_proxy''"
| "show_mode SystemProxy = ''system_proxy''"
| "show_mode HttpProxy = ''http_proxy''"
| "show_mode Vpn = ''vpn''"

text \<open>\<open>generate_psk\<close>: base64 of 32 random bytes; \<open>parse_psk\<close>: the trimmed text decoded, exactly
  32 bytes. \<open>encode\<close> and \<open>decode\<close> stand for the base64 engine, \<open>key\<close> for the random bytes.\<close>

definition generate_psk :: "(bytes \<Rightarrow> string) \<Rightarrow> bytes \<Rightarrow> string" where
  "generate_psk encode key = encode key"

definition parse_psk :: "(string \<Rightarrow> string + bytes) \<Rightarrow> string \<Rightarrow> bytes res" where
  "parse_psk decode s =
     (case decode (trim s) of
        Inl e \<Rightarrow> Inl (Config (''invalid psk base64: '' @ e))
      | Inr bs \<Rightarrow>
          if length bs \<noteq> 32
          then Inl (Config (''psk must be 32 bytes, got '' @ show_nat (length bs)))
          else Inr bs)"

section \<open>Handshake payloads and frames\<close>

record hello_msg =
  h_version :: u16
  h_token :: string
  h_mode :: session_mode
  h_requested_ip :: "ipv4 option"
  h_client_name :: "string option"
  h_join_vpn :: bool

record welcome_msg =
  w_session_id :: "128 word"
  w_assigned_ip :: ipv4
  w_prefix_len :: u8
  w_gateway :: ipv4
  w_mtu :: u16
  w_dns :: "ipv4 list"
  w_assigned_ip6 :: "ipv6 option"
  w_prefix6 :: u8
  w_gateway6 :: "ipv6 option"
  w_dns6 :: "ipv6 list"

record peer_info =
  pi_ip :: ipv4
  pi_name :: string
  pi_ip6 :: "ipv6 option"

datatype target_addr = TargetIp socket_addr | TargetDomain string u16

fun show_target :: "target_addr \<Rightarrow> string" where
  "show_target (TargetIp a) = show_socket_addr a"
| "show_target (TargetDomain h p) = h @ '':'' @ show_u16 p"

datatype frame =
    Hello hello_msg
  | Welcome welcome_msg
  | Reject string
  | Ping
  | Pong
  | Packet bytes
  | StreamOpen u32 target_addr
  | StreamData u32 bytes
  | StreamClose u32 "string option"
  | GetPeers
  | PeerList "peer_info list"

text \<open>Payload bytes of a frame, as the traffic counters of both ends count them.\<close>

definition payload_len :: "frame \<Rightarrow> nat" where
  "payload_len f = (case f of Packet p \<Rightarrow> length p | StreamData i d \<Rightarrow> length d | _ \<Rightarrow> 0)"

section \<open>Facts\<close>

lemma wire_idem [simp]: "wire (wire m) = wire m"
  by (cases m) (simp_all add: wire_def)

lemma is_stream_wire [simp]: "is_stream (wire m) = is_stream m"
  by (cases m) (simp_all add: wire_def is_stream_def)

lemma show_mode_inj [simp]: "show_mode a = show_mode b \<longleftrightarrow> a = b"
  by (cases a; cases b) simp_all

lemma parse_psk_length: "parse_psk decode s = Inr k \<Longrightarrow> length k = 32"
  by (auto simp: parse_psk_def split: sum.splits if_splits)

end
