(* ===== verification/Server_Config.thy ===== *)
theory Server_Config
  imports Wire_Types
begin

text \<open>
  \<open>server/src/config.rs\<close>: the records of \<open>server.toml\<close>, loading and saving, subnet lookups, the peer
  lookup and the starter template. TOML (\<open>toml\<close>) and CIDR parsing (\<open>ipnet\<close>) are third-party: the
  printers and parsers are arguments, as are the file contents and the random secrets. A parsed
  network is its network address and prefix length. The interface \<open>peer_registry\<close> collects what the
  session handler and the web admin rely on about the peer list.
\<close>

section \<open>Records\<close>

record listener_config =
  lc_transport :: transport_kind
  lc_bind :: string
  lc_tls :: bool

record network_config =
  nc_subnet :: string
  nc_gateway :: ipv4
  nc_mtu :: u16
  nc_dns :: "ipv4 list"
  nc_tun_name :: string
  nc_egress_iface :: "string option"
  nc_subnet6 :: "string option"
  nc_gateway6 :: "ipv6 option"
  nc_dns6 :: "ipv6 list"

record security_config =
  sc_noise_psk :: string
  sc_tls_cert_path :: "string option"
  sc_tls_key_path :: "string option"

record web_config =
  wc_bind :: string
  wc_admin_token :: string

record peer_config =
  pc_name :: string
  pc_token :: string
  pc_ip :: ipv4
  pc_enabled :: bool
  pc_allow_global :: bool
  pc_allow_http_proxy :: bool

record server_config =
  sc_listeners :: "listener_config list"
  sc_network :: network_config
  sc_security :: security_config
  sc_web :: web_config
  sc_peers :: "peer_config list"

section \<open>Operations\<close>

definition default_subnet6 :: "string option" where
  "default_subnet6 = Some ''fd66::/64''"

definition default_gateway6 :: "ipv6 option" where
  "default_gateway6 = Some (push_bit 112 0xfd66 OR 1)"

definition default_dns6 :: "ipv6 list" where
  "default_dns6 =
     [push_bit 112 0x2001 OR push_bit 96 0x4860 OR push_bit 80 0x4860 OR 0x8888,
      push_bit 112 0x2606 OR push_bit 96 0x4700 OR push_bit 80 0x4700 OR 0x1111]"

definition load ::
  "(string \<Rightarrow> io_error + string) \<Rightarrow> (string \<Rightarrow> string + server_config) \<Rightarrow> string \<Rightarrow> server_config res" where
  "load read_file from_toml path =
     bind_res (map_err Io (read_file path)) (\<lambda>text.
       map_err (\<lambda>e. Config (''parse '' @ path @ '': '' @ e)) (from_toml text))"

text \<open>\<open>save\<close> gives the text to write, or the error; \<open>write_file\<close> is the file system's answer.\<close>

definition save ::
  "(server_config \<Rightarrow> string + string) \<Rightarrow> (string \<Rightarrow> string \<Rightarrow> io_error + unit) \<Rightarrow>
   server_config \<Rightarrow> string \<Rightarrow> unit res" where
  "save to_toml write_file cfg path =
     bind_res (map_err (\<lambda>e. Config (''serialize: '' @ e)) (to_toml cfg)) (\<lambda>text.
       map_err Io (write_file path text))"

definition prefix_len :: "(string \<Rightarrow> string + ipv4 \<times> u8) \<Rightarrow> server_config \<Rightarrow> u8 res" where
  "prefix_len parse_net cfg =
     (case parse_net (nc_subnet (sc_network cfg)) of
        Inl e \<Rightarrow> Inl (Config (''bad subnet '' @ nc_subnet (sc_network cfg) @ '': '' @ e))
      | Inr (net, len) \<Rightarrow> Inr len)"

definition subnet6_net :: "(string \<Rightarrow> (ipv6 \<times> u8) option) \<Rightarrow> server_config \<Rightarrow> (ipv6 \<times> u8) option" where
  "subnet6_net parse_net6 cfg = Option.bind (nc_subnet6 (sc_network cfg)) parse_net6"

definition find_peer :: "server_config \<Rightarrow> string \<Rightarrow> peer_config option" where
  "find_peer cfg token = find (\<lambda>p. pc_token p = token) (sc_peers cfg)"

definition template :: "string \<Rightarrow> string \<Rightarrow> string \<Rightarrow> server_config" where
  "template psk admin_token peer_token =
     \<lparr>sc_listeners = [\<lparr>lc_transport = Tcp, lc_bind = ''0.0.0.0:8443'', lc_tls = True\<rparr>],
      sc_network =
        \<lparr>nc_subnet = ''10.66.0.0/24'', nc_gateway = ipv4_new 10 66 0 1, nc_mtu = 1380,
         nc_dns = [ipv4_new 8 8 8 8, ipv4_new 1 1 1 1], nc_tun_name = ''et0'',
         nc_egress_iface = None, nc_subnet6 = default_subnet6, nc_gateway6 = default_gateway6,
         nc_dns6 = default_dns6\<rparr>,
      sc_security = \<lparr>sc_noise_psk = psk, sc_tls_cert_path = None, sc_tls_key_path = None\<rparr>,
      sc_web = \<lparr>wc_bind = ''127.0.0.1:9000'', wc_admin_token = admin_token\<rparr>,
      sc_peers =
        [\<lparr>pc_name = ''example'', pc_token = peer_token, pc_ip = ipv4_new 10 66 0 2,
          pc_enabled = True, pc_allow_global = True, pc_allow_http_proxy = True\<rparr>]\<rparr>"

section \<open>The peer list as a registry\<close>

text \<open>Tokens and pinned addresses are unique: the admin API keeps this, and address assignment and
  the derived IPv6 addresses rest on it.\<close>

definition wf_peers :: "peer_config list \<Rightarrow> bool" where
  "wf_peers ps \<longleftrightarrow> distinct (map pc_token ps) \<and> distinct (map pc_ip ps)"

locale peer_registry =
  fixes lookup :: "'c \<Rightarrow> string \<Rightarrow> peer_config option"
    and members :: "'c \<Rightarrow> peer_config set"
    and wf :: "'c \<Rightarrow> bool"
  assumes lookup_member: "lookup c t = Some p \<Longrightarrow> p \<in> members c \<and> pc_token p = t"
    and member_lookup: "wf c \<Longrightarrow> p \<in> members c \<Longrightarrow> lookup c (pc_token p) = Some p"
    and ip_unique: "wf c \<Longrightarrow> p \<in> members c \<Longrightarrow> q \<in> members c \<Longrightarrow> pc_ip p = pc_ip q \<Longrightarrow> p = q"
begin

lemma lookup_same_ip:
  assumes "wf c" "lookup c s = Some p" "lookup c t = Some q" "pc_ip p = pc_ip q"
  shows "s = t" and "p = q"
proof -
  from assms show pq: "p = q"
    using ip_unique lookup_member by blast
  then show "s = t"
    using lookup_member [OF assms(2)] lookup_member [OF assms(3)] by simp
qed

lemma lookup_None_iff: "wf c \<Longrightarrow> lookup c t = None \<longleftrightarrow> (\<forall>p \<in> members c. pc_token p \<noteq> t)"
  using lookup_member member_lookup by (metis not_None_eq)

end

lemma find_distinct:
  "distinct (map f xs) \<Longrightarrow> x \<in> set xs \<Longrightarrow> find (\<lambda>y. f y = f x) xs = Some x"
  by (induction xs) auto

interpretation registry: peer_registry find_peer "\<lambda>c. set (sc_peers c)" "\<lambda>c. wf_peers (sc_peers c)"
proof unfold_locales
  fix c :: server_config and t p
  assume "find_peer c t = Some p"
  then show "p \<in> set (sc_peers c) \<and> pc_token p = t"
    by (auto simp: find_peer_def find_Some_iff)
next
  fix c :: server_config and p
  assume "wf_peers (sc_peers c)" "p \<in> set (sc_peers c)"
  then show "find_peer c (pc_token p) = Some p"
    by (simp add: find_peer_def wf_peers_def find_distinct)
next
  fix c :: server_config and p q
  assume "wf_peers (sc_peers c)" "p \<in> set (sc_peers c)" "q \<in> set (sc_peers c)" "pc_ip p = pc_ip q"
  then show "p = q"
    by (auto simp: wf_peers_def dest: inj_onD [OF distinct_map [THEN iffD1, THEN conjunct2]])
qed

lemma template_wf: "wf_peers (sc_peers (template psk adm tok))"
  by (simp add: template_def wf_peers_def)

end
