(* ===== verification/Server_Net.thy ===== *)
theory Server_Net
  imports Tun Server_Config "HOL-Library.Multiset"
begin

text \<open>
  \<open>server/src/net.rs\<close> on Linux: bringing up the shared TUN, forwarding, the NAT and FORWARD rules of both
  address families, and the undo list that dropping \<open>ServerNet\<close> runs. The host is an argument: \<open>exec\<close> runs a
  command, \<open>parse6\<close> reads an IPv6 network, the TUN system calls are those of \<open>Tun\<close>. The firewall is observed
  as a multiset of rules \<open>fw\<close>; \<open>fw_laws\<close> says what \<open>iptables -A\<close>, \<open>-I\<close> and \<open>-D\<close> do to it. The facts: a
  failed \<open>setup\<close> installs no rule, what a successful one installs is covered by its undo list, and dropping
  the guard puts the firewall back.
\<close>

section \<open>Definitions\<close>

record server_net =
  sn_tun :: tun_device
  sn_egress :: string
  sn_ipv6 :: bool
  sn_undo :: "cmd list"

definition run :: "'o exec \<Rightarrow> string \<Rightarrow> string list \<Rightarrow> 'o \<Rightarrow> unit res \<times> 'o" where
  "run exec c args st =
     (case exec (c, args) st of
        (Inl e, st') \<Rightarrow> (Inl (Transport (''spawn `'' @ c @ ''`: '' @ e)), st')
      | (Inr out, st') \<Rightarrow>
          (if out_ok out then (Inr (), st')
           else (Inl (Transport (''`'' @ c @ '' '' @ join '' '' args @ ''` failed: '' @ trim (out_stderr out))), st')))"

definition detect_egress :: "'o exec \<Rightarrow> 'o \<Rightarrow> string res \<times> 'o" where
  "detect_egress exec st =
     (case exec (''ip'', [''route'', ''show'', ''default'']) st of
        (Inl e, st') \<Rightarrow> (Inl (Transport (''ip route: '' @ e)), st')
      | (Inr out, st') \<Rightarrow>
          ((case word_after ''dev'' (split_whitespace (out_stdout out)) of
              Some d \<Rightarrow> Inr d
            | None \<Rightarrow> Inl (Transport ''could not detect egress interface'')), st'))"

definition detect_egress6 :: "'o exec \<Rightarrow> 'o \<Rightarrow> string option \<times> 'o" where
  "detect_egress6 exec st =
     (case exec (''ip'', [''-6'', ''route'', ''show'', ''default'']) st of
        (Inl e, st') \<Rightarrow> (None, st')
      | (Inr out, st') \<Rightarrow> (word_after ''dev'' (split_whitespace (out_stdout out)), st'))"

definition masq :: "string \<Rightarrow> string \<Rightarrow> string \<Rightarrow> string list" where
  "masq subnet egress action =
     [''-t'', ''nat'', action, ''POSTROUTING'', ''-s'', subnet, ''-o'', egress, ''-j'', ''MASQUERADE'']"

definition fwd_out :: "string \<Rightarrow> string \<Rightarrow> string \<Rightarrow> string list" where
  "fwd_out ifname egress action =
     [action, ''FORWARD'', ''-i'', ifname, ''-o'', egress, ''-j'', ''ACCEPT'']"

definition fwd_in :: "string \<Rightarrow> string \<Rightarrow> string \<Rightarrow> string list" where
  "fwd_in ifname egress action =
     [action, ''FORWARD'', ''-i'', egress, ''-o'', ifname, ''-m'', ''state'', ''--state'', ''RELATED,ESTABLISHED'',
      ''-j'', ''ACCEPT'']"

definition fwd_hairpin :: "string \<Rightarrow> string \<Rightarrow> string list" where
  "fwd_hairpin ifname action =
     [action, ''FORWARD'', ''-i'', ifname, ''-o'', ifname, ''-j'', ''ACCEPT'']"

text \<open>Commands whose result is ignored (\<open>.await.ok()\<close>), one after the other.\<close>

definition run_all :: "'o exec \<Rightarrow> cmd list \<Rightarrow> 'o \<Rightarrow> 'o" where
  "run_all exec cs st = foldl (\<lambda>s (c, args). snd (run exec c args s)) st cs"

definition gw6_cidr :: "(string \<Rightarrow> (ipv6 \<times> u8) option) \<Rightarrow> string \<Rightarrow> ipv6 \<Rightarrow> string" where
  "gw6_cidr parse6 subnet6 gw6 =
     show_ipv6 gw6 @ ''/'' @ show_nat (unat (case parse6 subnet6 of Some (_, p) \<Rightarrow> p | None \<Rightarrow> 64))"

definition setup_ipv6 ::
  "'o exec \<Rightarrow> (string \<Rightarrow> (ipv6 \<times> u8) option) \<Rightarrow> network_config \<Rightarrow> string \<Rightarrow> cmd list \<Rightarrow> 'o \<Rightarrow> bool \<times> cmd list \<times> 'o" where
  "setup_ipv6 exec parse6 net ifname undo st =
     (case (nc_subnet6 net, nc_gateway6 net) of
        (Some subnet6, Some gw6) \<Rightarrow>
          (case detect_egress6 exec st of
             (None, st1) \<Rightarrow> (False, undo, st1)
           | (Some egress6, st1) \<Rightarrow>
               (let cidr = gw6_cidr parse6 subnet6 gw6;
                    st2 = run_all exec
                      [(''ip'', [''-6'', ''addr'', ''add'', cidr, ''dev'', ifname]),
                       (''sysctl'', [''-w'', ''net.ipv6.conf.all.forwarding=1'']),
                       (''sysctl'', [''-w'', ''net.ipv6.conf.'' @ ifname @ ''.forwarding=1''])] st1
                in case run exec ''ip6tables'' (masq subnet6 egress6 ''-A'') st2 of
                     (Inl _, st3) \<Rightarrow>
                       (False, undo, run_all exec [(''ip'', [''-6'', ''addr'', ''del'', cidr, ''dev'', ifname])] st3)
                   | (Inr _, st3) \<Rightarrow>
                       (True,
                        undo @ [(''ip6tables'', masq subnet6 egress6 ''-D''), (''ip6tables'', fwd_out ifname egress6 ''-D''),
                                (''ip6tables'', fwd_in ifname egress6 ''-D''), (''ip6tables'', fwd_hairpin ifname ''-D'')],
                        run_all exec
                          [(''ip6tables'', fwd_out ifname egress6 ''-I''), (''ip6tables'', fwd_in ifname egress6 ''-I''),
                           (''ip6tables'', fwd_hairpin ifname ''-I'')] st3)))
      | _ \<Rightarrow> (False, undo, st))"

definition egress_of :: "'o exec \<Rightarrow> network_config \<Rightarrow> 'o \<Rightarrow> string res \<times> 'o" where
  "egress_of exec net st =
     (case nc_egress_iface net of Some e \<Rightarrow> (Inr e, st) | None \<Rightarrow> detect_egress exec st)"

definition install_rules ::
  "'o exec \<Rightarrow> (string \<Rightarrow> (ipv6 \<times> u8) option) \<Rightarrow> network_config \<Rightarrow> string \<Rightarrow> tun_device \<Rightarrow> string \<Rightarrow> 'o \<Rightarrow> server_net \<times> 'o" where
  "install_rules exec parse6 net subnet tun egress st =
     (let ifname = td_name tun;
          st1 = run_all exec
            [(''iptables'', masq subnet egress ''-A''), (''iptables'', fwd_out ifname egress ''-I''),
             (''iptables'', fwd_in ifname egress ''-I''), (''iptables'', fwd_hairpin ifname ''-I'')] st;
          undo =
            [(''iptables'', masq subnet egress ''-D''), (''iptables'', fwd_out ifname egress ''-D''),
             (''iptables'', fwd_in ifname egress ''-D''), (''iptables'', fwd_hairpin ifname ''-D'')];
          (ipv6, undo', st2) = setup_ipv6 exec parse6 net ifname undo st1
      in (\<lparr>sn_tun = tun, sn_egress = egress, sn_ipv6 = ipv6, sn_undo = undo'\<rparr>, st2))"

definition setup_net ::
  "'o tun_kernel \<Rightarrow> 'o exec \<Rightarrow> (string \<Rightarrow> (ipv6 \<times> u8) option) \<Rightarrow> network_config \<Rightarrow> u8 \<Rightarrow> string \<Rightarrow> 'o \<Rightarrow>
   server_net res \<times> 'o" where
  "setup_net k exec parse6 net prefix subnet st =
     bind_st (tun_create k \<lparr>tc_name = nc_tun_name net, tc_ip = nc_gateway net, tc_prefix_len = prefix, tc_mtu = nc_mtu net\<rparr> st)
       (\<lambda>tun st1. let ifname = td_name tun in
        bind_st
          (run exec ''ip'' [''link'', ''set'', ''dev'', ifname, ''mtu'', show_u16 (nc_mtu net)]
             (run_all exec [(''ip'', [''addr'', ''add'', show_ipv4 (nc_gateway net) @ ''/'' @ show_nat (unat prefix), ''dev'', ifname])] st1))
          (\<lambda>_ st2. bind_st (run exec ''ip'' [''link'', ''set'', ''dev'', ifname, ''up''] st2)
            (\<lambda>_ st3. bind_st
              (egress_of exec net
                 (run_all exec
                    [(''sysctl'', [''-w'', ''net.ipv4.ip_forward=1'']),
                     (''sysctl'', [''-w'', ''net.ipv4.conf.'' @ ifname @ ''.send_redirects=0'']),
                     (''sysctl'', [''-w'', ''net.ipv4.conf.all.send_redirects=0''])] st3))
              (\<lambda>egress st4. case install_rules exec parse6 net subnet tun egress st4 of (sn, st5) \<Rightarrow> (Inr sn, st5)))))"

definition server_net_drop :: "'o exec \<Rightarrow> server_net \<Rightarrow> 'o \<Rightarrow> 'o" where
  "server_net_drop exec sn st = undo_all exec (sn_undo sn) st"

section \<open>The firewall\<close>

type_synonym rule = "string \<times> string list"

text \<open>An \<open>iptables\<close> or \<open>ip6tables\<close> command read as an action on a rule: the program with the table, the chain
  and the match.\<close>

definition fw_edit :: "cmd \<Rightarrow> (string \<times> rule) option" where
  "fw_edit c =
     (case c of (p, args) \<Rightarrow>
        if p = ''iptables'' \<or> p = ''ip6tables''
        then (case args of
                t # tab # a # spec \<Rightarrow>
                  if t = ''-t'' then Some (a, (p, tab # spec)) else Some (t, (p, ''filter'' # tab # a # spec))
              | _ \<Rightarrow> None)
        else None)"

definition fw_laws :: "'o exec \<Rightarrow> ('o \<Rightarrow> rule multiset) \<Rightarrow> bool" where
  "fw_laws exec fw \<longleftrightarrow>
     (\<forall>c st. fw (snd (exec c st)) =
        (case fw_edit c of
           None \<Rightarrow> fw st
         | Some (a, r) \<Rightarrow>
             if a = ''-A'' \<or> a = ''-I'' then (if succeeded (fst (exec c st)) then add_mset r (fw st) else fw st)
             else if a = ''-D'' then fw st - {#r#} else fw st))"

definition tun_quiet :: "'o tun_kernel \<Rightarrow> ('o \<Rightarrow> 'a) \<Rightarrow> bool" where
  "tun_quiet k obs \<longleftrightarrow>
     (\<forall>st. obs (snd (k_open k st)) = obs st) \<and>
     (\<forall>fd b st. obs (snd (k_tunsetiff k fd b st)) = obs st) \<and>
     (\<forall>fd st. obs (snd (k_register k fd st)) = obs st) \<and>
     (\<forall>fd st. obs (k_close k fd st) = obs st)"

definition undo_rules :: "cmd list \<Rightarrow> rule multiset" where
  "undo_rules undo = mset (map (\<lambda>c. snd (the (fw_edit c))) undo)"

section \<open>Facts\<close>

lemma snd_run [simp]: "snd (run exec c args st) = snd (exec (c, args) st)"
  by (simp add: run_def split: prod.split sum.split)

lemma fst_run: "fst (run exec c args st) = Inr () \<longleftrightarrow> succeeded (fst (exec (c, args) st))"
  by (simp add: run_def succeeded_def split: prod.split sum.split)

lemma run_all_simps [simp]:
  "run_all exec [] st = st"
  "run_all exec (c # cs) st = run_all exec cs (snd (exec c st))"
  by (simp_all add: run_all_def split: prod.split)

lemma fw_law:
  assumes "fw_laws exec fw"
  shows "fw (snd (exec c st)) =
    (case fw_edit c of
       None \<Rightarrow> fw st
     | Some (a, r) \<Rightarrow>
         if a = ''-A'' \<or> a = ''-I'' then (if succeeded (fst (exec c st)) then add_mset r (fw st) else fw st)
         else if a = ''-D'' then fw st - {#r#} else fw st)"
  using assms unfolding fw_laws_def by blast

lemma fw_quiet: "fw_laws exec fw \<Longrightarrow> fw_edit c = None \<Longrightarrow> fw (snd (exec c st)) = fw st"
  by (simp add: fw_law)

lemma fw_edit_rules [simp]:
  "p = ''iptables'' \<or> p = ''ip6tables'' \<Longrightarrow> fw_edit (p, masq s e a) = Some (a, (p, [''nat'', ''POSTROUTING'', ''-s'', s, ''-o'', e, ''-j'', ''MASQUERADE'']))"
  "p = ''iptables'' \<or> p = ''ip6tables'' \<Longrightarrow> a \<noteq> ''-t'' \<Longrightarrow> fw_edit (p, fwd_out i e a) = Some (a, (p, ''filter'' # tl (fwd_out i e [])))"
  "p = ''iptables'' \<or> p = ''ip6tables'' \<Longrightarrow> a \<noteq> ''-t'' \<Longrightarrow> fw_edit (p, fwd_in i e a) = Some (a, (p, ''filter'' # tl (fwd_in i e [])))"
  "p = ''iptables'' \<or> p = ''ip6tables'' \<Longrightarrow> a \<noteq> ''-t'' \<Longrightarrow> fw_edit (p, fwd_hairpin i a) = Some (a, (p, ''filter'' # tl (fwd_hairpin i [])))"
  by (simp_all add: fw_edit_def masq_def fwd_out_def fwd_in_def fwd_hairpin_def)

lemma fw_edit_other [simp]: "p \<noteq> ''iptables'' \<Longrightarrow> p \<noteq> ''ip6tables'' \<Longrightarrow> fw_edit (p, args) = None"
  by (simp add: fw_edit_def)

text \<open>Rules between two states: nothing of the old ones is lost, nothing but \<open>R\<close> is new.\<close>

definition grown :: "rule multiset \<Rightarrow> rule multiset \<Rightarrow> rule multiset \<Rightarrow> bool" where
  "grown A R B \<longleftrightarrow> A \<subseteq># B \<and> B \<subseteq># A + R"

lemma grown_refl [simp]: "grown A {#} A"
  by (simp add: grown_def)

lemma grown_trans: "grown A R B \<Longrightarrow> grown B S C \<Longrightarrow> grown A (R + S) C"
  unfolding grown_def
  by (metis (no_types, lifting) add.assoc mset_subset_eq_mono_add_right_cancel subset_mset.order_trans)

lemma exec_grown:
  assumes "fw_laws exec fw" and "fw_edit c = Some (a, r)" and "a = ''-A'' \<or> a = ''-I''"
  shows "grown (fw st) {#r#} (fw (snd (exec c st)))"
  using assms(2,3) by (auto simp: fw_law [OF assms(1)] grown_def)

lemma run_all_grown:
  assumes "fw_laws exec fw" and "\<forall>c \<in> set cs. \<exists>a r. fw_edit c = Some (a, r) \<and> (a = ''-A'' \<or> a = ''-I'')"
  shows "grown (fw st) (undo_rules cs) (fw (run_all exec cs st))"
  using assms(2)
proof (induction cs arbitrary: st)
  case Nil
  then show ?case by (simp add: undo_rules_def)
next
  case (Cons c cs)
  then obtain a r where c: "fw_edit c = Some (a, r)" "a = ''-A'' \<or> a = ''-I''" by auto
  from grown_trans [OF exec_grown [OF assms(1) this] Cons.IH] Cons.prems c(1)
  show ?case by (simp add: undo_rules_def)
qed

lemma run_all_quiet:
  "fw_laws exec fw \<Longrightarrow> \<forall>c \<in> set cs. fw_edit c = None \<Longrightarrow> fw (run_all exec cs st) = fw st"
  by (induction cs arbitrary: st) (auto simp: fw_quiet)

lemma undo_all_fw:
  assumes "fw_laws exec fw"
  shows "\<forall>c \<in> set cs. \<exists>r. fw_edit c = Some (''-D'', r) \<Longrightarrow> fw (undo_all exec cs st) = fw st - undo_rules cs"
proof (induction cs arbitrary: st)
  case Nil
  then show ?case by (simp add: undo_rules_def)
next
  case (Cons c cs)
  then obtain r where r: "fw_edit c = Some (''-D'', r)" by auto
  have "fw (snd (exec c st)) = fw st - {#r#}"
    using r by (simp add: fw_law [OF assms])
  with Cons r show ?case by (simp add: undo_rules_def)
qed

lemma grown_undo:
  assumes "grown A R B" and "\<forall>r \<in># R. r \<notin># A"
  shows "B - R = A"
proof (rule multiset_eqI)
  fix r
  have "count A r \<le> count B r" "count B r \<le> count A r + count R r"
    using assms(1) unfolding grown_def by (metis mset_subset_eq_count, metis count_union mset_subset_eq_count)
  moreover have "count R r = 0 \<or> count A r = 0"
    using assms(2) by (meson count_eq_zero_iff)
  ultimately show "count (B - R) r = count A r" by auto
qed

lemma detect_quiet [simp]:
  "fw_laws exec fw \<Longrightarrow> fw (snd (detect_egress exec st)) = fw st"
  "fw_laws exec fw \<Longrightarrow> fw (snd (detect_egress6 exec st)) = fw st"
  using fw_quiet [of exec fw "(''ip'', [''route'', ''show'', ''default''])" st]
    fw_quiet [of exec fw "(''ip'', [''-6'', ''route'', ''show'', ''default''])" st]
  by (auto simp: detect_egress_def detect_egress6_def split: prod.split sum.split)

lemma tun_create_quiet:
  "tun_quiet k obs \<Longrightarrow> obs (snd (tun_create k cfg st)) = obs st"
  unfolding tun_quiet_def tun_create_def
  by (auto split: prod.split sum.split) (metis snd_conv)+

text \<open>The undo commands of one address family, and the rules they take out.\<close>

definition family_undo :: "string \<Rightarrow> string \<Rightarrow> string \<Rightarrow> string \<Rightarrow> cmd list" where
  "family_undo p subnet ifname egress =
     [(p, masq subnet egress ''-D''), (p, fwd_out ifname egress ''-D''), (p, fwd_in ifname egress ''-D''),
      (p, fwd_hairpin ifname ''-D'')]"

definition family_add :: "string \<Rightarrow> string \<Rightarrow> string \<Rightarrow> string \<Rightarrow> cmd list" where
  "family_add p subnet ifname egress =
     [(p, masq subnet egress ''-A''), (p, fwd_out ifname egress ''-I''), (p, fwd_in ifname egress ''-I''),
      (p, fwd_hairpin ifname ''-I'')]"

abbreviation ip_tables :: "string \<Rightarrow> bool" where
  "ip_tables p \<equiv> p = ''iptables'' \<or> p = ''ip6tables''"

lemma family_rules: "ip_tables p \<Longrightarrow> undo_rules (family_add p s i e) = undo_rules (family_undo p s i e)"
  by (auto simp: undo_rules_def family_add_def family_undo_def)

lemma family_dels: "ip_tables p \<Longrightarrow> \<forall>c \<in> set (family_undo p s i e). \<exists>r. fw_edit c = Some (''-D'', r)"
  by (auto simp: family_undo_def)

lemma family_grown:
  assumes "fw_laws exec fw" and "ip_tables p"
  shows "grown (fw st) (undo_rules (family_undo p s i e)) (fw (run_all exec (family_add p s i e) st))"
proof -
  have "\<forall>c \<in> set (family_add p s i e). \<exists>a r. fw_edit c = Some (a, r) \<and> (a = ''-A'' \<or> a = ''-I'')"
    using assms(2) by (auto simp: family_add_def)
  from run_all_grown [OF assms(1) this] show ?thesis by (simp add: family_rules [OF assms(2)])
qed

definition nat_rule :: "string \<Rightarrow> string \<Rightarrow> string \<Rightarrow> rule" where
  "nat_rule p subnet egress = (p, [''nat'', ''POSTROUTING'', ''-s'', subnet, ''-o'', egress, ''-j'', ''MASQUERADE''])"

lemma setup_ipv6_cases:
  obtains (off) st1 where "setup_ipv6 exec parse6 net i undo st = (False, undo, st1)"
      "fw_laws exec fw \<Longrightarrow> fw st1 = fw st"
  | (on) sub6 eg6 where "nc_subnet6 net = Some sub6" "fst (setup_ipv6 exec parse6 net i undo st)"
      "fst (snd (setup_ipv6 exec parse6 net i undo st)) = undo @ family_undo ''ip6tables'' sub6 i eg6"
      "fw_laws exec fw \<Longrightarrow> grown (fw st) (undo_rules (family_undo ''ip6tables'' sub6 i eg6))
         (fw (snd (snd (setup_ipv6 exec parse6 net i undo st))))"
      "fw_laws exec fw \<Longrightarrow> nat_rule ''ip6tables'' sub6 eg6 \<in># fw (snd (snd (setup_ipv6 exec parse6 net i undo st)))"
proof (cases "nc_subnet6 net = None \<or> nc_gateway6 net = None \<or> fst (detect_egress6 exec st) = None")
  case True
  have "setup_ipv6 exec parse6 net i undo st = (False, undo, snd (snd (setup_ipv6 exec parse6 net i undo st)))
      \<and> (fw_laws exec fw \<longrightarrow> fw (snd (snd (setup_ipv6 exec parse6 net i undo st))) = fw st)"
    using True detect_quiet(2) [of exec fw st]
    by (cases "detect_egress6 exec st") (auto simp: setup_ipv6_def split: option.splits)
  then show ?thesis using off by blast
next
  case False
  then obtain sub6 gw6 eg6 st1 where g: "nc_subnet6 net = Some sub6" "nc_gateway6 net = Some gw6"
    "detect_egress6 exec st = (Some eg6, st1)" by (cases "detect_egress6 exec st") auto
  define cidr where "cidr = gw6_cidr parse6 sub6 gw6"
  define st2 where "st2 = run_all exec
      [(''ip'', [''-6'', ''addr'', ''add'', cidr, ''dev'', i]),
       (''sysctl'', [''-w'', ''net.ipv6.conf.all.forwarding=1'']),
       (''sysctl'', [''-w'', ''net.ipv6.conf.'' @ i @ ''.forwarding=1''])] st1"
  define m where "m = (''ip6tables'', masq sub6 eg6 ''-A'')"
  define st3 where "st3 = snd (exec m st2)"
  have quiet: "fw st2 = fw st" if "fw_laws exec fw"
    unfolding st2_def using run_all_quiet [OF that] detect_quiet(2) [OF that, of st] g(3)
    by (simp add: run_all_quiet fw_quiet that)
  have st3: "snd (run exec ''ip6tables'' (masq sub6 eg6 ''-A'') st2) = st3"
    by (simp add: st3_def m_def)
  show ?thesis
  proof (cases "fst (run exec ''ip6tables'' (masq sub6 eg6 ''-A'') st2)")
    case (Inl e)
    define st4 where "st4 = run_all exec [(''ip'', [''-6'', ''addr'', ''del'', cidr, ''dev'', i])] st3"
    have r: "run exec ''ip6tables'' (masq sub6 eg6 ''-A'') st2 = (Inl e, st3)"
      using Inl st3 by (metis prod.collapse)
    have "\<not> succeeded (fst (exec m st2))"
      using Inl fst_run [of exec "''ip6tables''" "masq sub6 eg6 ''-A''" st2] by (simp add: m_def)
    then have "fw st3 = fw st2" if "fw_laws exec fw"
      by (simp add: st3_def fw_law [OF that] m_def)
    then have "fw st4 = fw st" if "fw_laws exec fw"
      using that quiet by (simp add: st4_def fw_quiet [OF that])
    moreover have "setup_ipv6 exec parse6 net i undo st = (False, undo, st4)"
      using g r by (simp add: setup_ipv6_def Let_def st4_def st2_def cidr_def)
    ultimately show ?thesis using off by blast
  next
    case (Inr u)
    define fs where "fs = [(''ip6tables'', fwd_out i eg6 ''-I''), (''ip6tables'', fwd_in i eg6 ''-I''), (''ip6tables'', fwd_hairpin i ''-I'')]"
    have r: "run exec ''ip6tables'' (masq sub6 eg6 ''-A'') st2 = (Inr (), st3)"
      using Inr st3 by (metis old.unit.exhaust prod.collapse)
    have eq: "setup_ipv6 exec parse6 net i undo st = (True, undo @ family_undo ''ip6tables'' sub6 i eg6, run_all exec fs st3)"
      using g r by (simp add: setup_ipv6_def Let_def family_undo_def fs_def st2_def cidr_def)
    have all: "run_all exec fs st3 = run_all exec (family_add ''ip6tables'' sub6 i eg6) st2"
      by (simp add: family_add_def fs_def st3_def m_def)
    have ok: "succeeded (fst (exec m st2))"
      using r fst_run [of exec "''ip6tables''" "masq sub6 eg6 ''-A''" st2] by (simp add: m_def)
    have "nat_rule ''ip6tables'' sub6 eg6 \<in># fw (run_all exec fs st3)" if "fw_laws exec fw"
    proof -
      have "nat_rule ''ip6tables'' sub6 eg6 \<in># fw st3"
        using ok by (simp add: st3_def fw_law [OF that] m_def nat_rule_def)
      moreover have "grown (fw st3) (undo_rules fs) (fw (run_all exec fs st3))"
        by (rule run_all_grown [OF that]) (auto simp: fs_def)
      ultimately show ?thesis unfolding grown_def by (meson mset_subset_eqD)
    qed
    moreover have "grown (fw st) (undo_rules (family_undo ''ip6tables'' sub6 i eg6)) (fw (run_all exec fs st3))" if "fw_laws exec fw"
      using family_grown [OF that, of "''ip6tables''" st2 sub6 i eg6] quiet [OF that] all by simp
    ultimately show ?thesis using on [OF g(1)] eq by simp
  qed
qed

lemma undo_rules_append [simp]: "undo_rules (a @ b) = undo_rules a + undo_rules b"
  by (simp add: undo_rules_def)

lemma install_rules_cases:
  assumes "install_rules exec parse6 net subnet tun egress st = (sn, st')" and "fw_laws exec fw"
  shows "(\<forall>c \<in> set (sn_undo sn). \<exists>r. fw_edit c = Some (''-D'', r)) \<and>
         grown (fw st) (undo_rules (sn_undo sn)) (fw st') \<and>
         (sn_ipv6 sn \<longrightarrow> (\<exists>sub6 eg6. nc_subnet6 net = Some sub6 \<and> nat_rule ''ip6tables'' sub6 eg6 \<in># fw st'))"
proof -
  define i where "i = td_name tun"
  define u where "u = family_undo ''iptables'' subnet i egress"
  define st1 where "st1 = run_all exec (family_add ''iptables'' subnet i egress) st"
  obtain b u' st2 where s6: "setup_ipv6 exec parse6 net i u st1 = (b, u', st2)"
    by (cases "setup_ipv6 exec parse6 net i u st1") auto
  have res: "sn = \<lparr>sn_tun = tun, sn_egress = egress, sn_ipv6 = b, sn_undo = u'\<rparr>" "st' = st2"
    using assms(1) s6
    by (simp_all add: install_rules_def Let_def u_def st1_def i_def family_undo_def family_add_def)
  have g1: "grown (fw st) (undo_rules u) (fw st1)"
    using family_grown [OF assms(2)] by (simp add: u_def st1_def)
  have d1: "\<forall>c \<in> set u. \<exists>r. fw_edit c = Some (''-D'', r)"
    unfolding u_def by (rule family_dels) simp
  show ?thesis
  proof (cases rule: setup_ipv6_cases [of exec parse6 net i u st1 fw])
    case (off st1')
    with s6 res g1 d1 assms(2) show ?thesis by simp
  next
    case (on sub6 eg6)
    with grown_trans [OF g1, of "undo_rules (family_undo ''ip6tables'' sub6 i eg6)" "fw st2"] s6 res d1 assms(2)
      family_dels [of "''ip6tables''" sub6 i eg6]
    show ?thesis by auto
  qed
qed

text \<open>A run of \<open>setup_net\<close> either fails before the first rule or ends in \<open>install_rules\<close> on an untouched firewall.\<close>

lemma run_quiet:
  "fw_laws exec fw \<Longrightarrow> p \<noteq> ''iptables'' \<Longrightarrow> p \<noteq> ''ip6tables'' \<Longrightarrow> run exec p args st = (r, st') \<Longrightarrow> fw st' = fw st"
  by (metis fw_edit_other fw_quiet snd_conv snd_run)

lemma egress_quiet: "fw_laws exec fw \<Longrightarrow> egress_of exec net st = (r, st') \<Longrightarrow> fw st' = fw st"
  by (auto simp: egress_of_def split: option.splits) (metis detect_quiet(1) snd_conv)

lemma setup_net_split:
  assumes "fw_laws exec fw" and "tun_quiet k fw"
  shows "case setup_net k exec parse6 net prefix subnet st of
      (Inl e, st') \<Rightarrow> fw st' = fw st
    | (Inr sn, st') \<Rightarrow> \<exists>tun egress st4. install_rules exec parse6 net subnet tun egress st4 = (sn, st') \<and> fw st4 = fw st"
proof -
  note q = run_quiet [OF assms(1)] egress_quiet [OF assms(1)] fw_quiet [OF assms(1)] tun_create_quiet [OF assms(2)]
  define cfg where "cfg = \<lparr>tc_name = nc_tun_name net, tc_ip = nc_gateway net, tc_prefix_len = prefix, tc_mtu = nc_mtu net\<rparr>"
  obtain r1 st1 where c: "tun_create k cfg st = (r1, st1)" by (cases "tun_create k cfg st")
  have f1: "fw st1 = fw st" using q(4) [of cfg st] c by simp
  show ?thesis
  proof (cases r1)
    case (Inl e)
    with c f1 show ?thesis by (simp add: setup_net_def cfg_def)
  next
    case (Inr tun)
    define i where "i = td_name tun"
    define st1' where "st1' = run_all exec [(''ip'', [''addr'', ''add'', show_ipv4 (nc_gateway net) @ ''/'' @ show_nat (unat prefix), ''dev'', i])] st1"
    obtain r2 st2 where m: "run exec ''ip'' [''link'', ''set'', ''dev'', i, ''mtu'', show_u16 (nc_mtu net)] st1' = (r2, st2)"
      by (cases "run exec ''ip'' [''link'', ''set'', ''dev'', i, ''mtu'', show_u16 (nc_mtu net)] st1'")
    obtain r3 st3 where u: "run exec ''ip'' [''link'', ''set'', ''dev'', i, ''up''] st2 = (r3, st3)"
      by (cases "run exec ''ip'' [''link'', ''set'', ''dev'', i, ''up''] st2")
    define st3' where "st3' = run_all exec
       [(''sysctl'', [''-w'', ''net.ipv4.ip_forward=1'']),
        (''sysctl'', [''-w'', ''net.ipv4.conf.'' @ i @ ''.send_redirects=0'']),
        (''sysctl'', [''-w'', ''net.ipv4.conf.all.send_redirects=0''])] st3"
    obtain r4 st4 where e: "egress_of exec net st3' = (r4, st4)" by (cases "egress_of exec net st3'")
    have f: "fw st1' = fw st" "fw st2 = fw st1'" "fw st3 = fw st2" "fw st3' = fw st3" "fw st4 = fw st3'"
      using f1 q(1) [OF _ _ m] q(1) [OF _ _ u] q(2) [OF e] by (simp_all add: st1'_def st3'_def q(3))
    have eq: "setup_net k exec parse6 net prefix subnet st =
        bind_st (r2, st2) (\<lambda>_ st2. bind_st (run exec ''ip'' [''link'', ''set'', ''dev'', i, ''up''] st2)
          (\<lambda>_ st3. bind_st (egress_of exec net (run_all exec
              [(''sysctl'', [''-w'', ''net.ipv4.ip_forward=1'']),
               (''sysctl'', [''-w'', ''net.ipv4.conf.'' @ i @ ''.send_redirects=0'']),
               (''sysctl'', [''-w'', ''net.ipv4.conf.all.send_redirects=0''])] st3))
            (\<lambda>egress st4. case install_rules exec parse6 net subnet tun egress st4 of (sn, st5) \<Rightarrow> (Inr sn, st5))))"
      using c Inr m by (simp add: setup_net_def cfg_def [symmetric] Let_def st1'_def i_def)
    show ?thesis
      using u e f unfolding eq st3'_def
      by (cases r2; cases r3; cases r4) (auto split: prod.split)
  qed
qed

lemma setup_net_Inr:
  assumes "fw_laws exec fw" and "tun_quiet k fw" and "setup_net k exec parse6 net prefix subnet st = (Inr sn, st')"
  shows "\<exists>tun egress st4. install_rules exec parse6 net subnet tun egress st4 = (sn, st') \<and> fw st4 = fw st"
proof -
  have "case setup_net k exec parse6 net prefix subnet st of
      (Inl e, st') \<Rightarrow> fw st' = fw st
    | (Inr sn, st') \<Rightarrow> \<exists>tun egress st4. install_rules exec parse6 net subnet tun egress st4 = (sn, st') \<and> fw st4 = fw st"
    by (rule setup_net_split [OF assms(1,2)])
  then show ?thesis unfolding assms(3) by simp
qed

lemma setup_net_Inl:
  assumes "fw_laws exec fw" and "tun_quiet k fw" and "setup_net k exec parse6 net prefix subnet st = (Inl e, st')"
  shows "fw st' = fw st"
proof -
  have "case setup_net k exec parse6 net prefix subnet st of
      (Inl e, st') \<Rightarrow> fw st' = fw st
    | (Inr sn, st') \<Rightarrow> \<exists>tun egress st4. install_rules exec parse6 net subnet tun egress st4 = (sn, st') \<and> fw st4 = fw st"
    by (rule setup_net_split [OF assms(1,2)])
  then show ?thesis unfolding assms(3) by simp
qed

section \<open>Properties\<close>

text \<open>A firewall of its own for the examples: every command succeeds, \<open>ip route\<close> answers with an interface,
  and the rules are kept as the multiset itself.\<close>

definition box_exec :: "rule multiset exec" where
  "box_exec c st =
     (Inr \<lparr>out_ok = True, out_stdout = ''default via 192.0.2.1 dev eth0'', out_stderr = []\<rparr>,
      (case fw_edit c of
         None \<Rightarrow> st
       | Some (a, r) \<Rightarrow> if a = ''-A'' \<or> a = ''-I'' then add_mset r st else if a = ''-D'' then st - {#r#} else st))"

definition box_tun :: "'o tun_kernel" where
  "box_tun = \<lparr>k_open = (\<lambda>st. (Inr 3, st)), k_tunsetiff = (\<lambda>fd ifr st. (Inr ifr, st)), k_register = (\<lambda>fd st. (Inr (), st)),
     k_close = (\<lambda>fd st. st)\<rparr>"

definition box_net :: network_config where
  "box_net = \<lparr>nc_subnet = ''10.66.0.0/24'', nc_gateway = 0x0A420001, nc_mtu = 1380, nc_dns = [], nc_tun_name = ''et0'',
     nc_egress_iface = Some ''eth0'', nc_subnet6 = Some ''fd66::/64'', nc_gateway6 = Some 1, nc_dns6 = []\<rparr>"

lemma box_laws: "fw_laws box_exec (\<lambda>st. st)" "tun_quiet box_tun obs"
  by (auto simp: fw_laws_def box_exec_def succeeded_def tun_quiet_def box_tun_def split: option.split)

lemma box_run: "run box_exec p args st = (Inr (), snd (box_exec (p, args) st))"
  by (simp add: run_def box_exec_def)

lemma box_setup: "\<exists>sn st1. setup_net box_tun box_exec (\<lambda>_. None) box_net 24 ''10.66.0.0/24'' st = (Inr sn, st1)"
  by (simp add: setup_net_def tun_create_def box_tun_def Let_def box_run egress_of_def box_net_def split: prod.split)

text \<open>Dropping the server's network guard puts the firewall back: when none of the rules it would remove was there
  before \<open>setup\<close>, the multiset of rules after the drop is the one before \<open>setup\<close>, whichever of the ignored
  \<open>iptables\<close> commands failed on the way.\<close>

lemma net_drop_restores:
  assumes "fw_laws exec fw" and "tun_quiet k fw"
    and "setup_net k exec parse6 net prefix subnet st = (Inr sn, st1)" and "fw st2 = fw st1"
    and "\<forall>r \<in># undo_rules (sn_undo sn). r \<notin># fw st"
  shows "fw (server_net_drop exec sn st2) = fw st"
proof -
  obtain tun egress st4 where i: "install_rules exec parse6 net subnet tun egress st4 = (sn, st1)" "fw st4 = fw st"
    using setup_net_Inr [OF assms(1-3)] by blast
  from install_rules_cases [OF i(1) assms(1)] i(2)
  have d: "\<forall>c \<in> set (sn_undo sn). \<exists>r. fw_edit c = Some (''-D'', r)"
    and g: "grown (fw st) (undo_rules (sn_undo sn)) (fw st1)" by auto
  show ?thesis
    unfolding server_net_drop_def using undo_all_fw [OF assms(1) d, of st2] grown_undo [OF g assms(5)] assms(4) by simp
qed

text \<open>The server announces IPv6 only with NAT66 in place: after a \<open>setup\<close> whose \<open>ipv6\<close> flag is set, the
  masquerade rule of the configured IPv6 subnet is among the rules; and a \<open>setup\<close> that fails leaves the
  firewall as it was.\<close>

theorem net_setup_rules:
  assumes "fw_laws exec fw" and "tun_quiet k fw"
  shows "case setup_net k exec parse6 net prefix subnet st of
      (Inl e, st') \<Rightarrow> fw st' = fw st
    | (Inr sn, st') \<Rightarrow> (sn_ipv6 sn \<longrightarrow>
        (\<exists>sub6 eg6. nc_subnet6 net = Some sub6 \<and> nat_rule ''ip6tables'' sub6 eg6 \<in># fw st'))"
proof (cases "setup_net k exec parse6 net prefix subnet st")
  case (Pair r st')
  show ?thesis
  proof (cases r)
    case (Inl e)
    with Pair setup_net_Inl [OF assms] show ?thesis by simp
  next
    case (Inr sn)
    with Pair have "setup_net k exec parse6 net prefix subnet st = (Inr sn, st')" by simp
    then obtain tun egress st4 where i: "install_rules exec parse6 net subnet tun egress st4 = (sn, st')"
      using setup_net_Inr [OF assms] by blast
    from install_rules_cases [OF i assms(1)] Pair Inr show ?thesis by simp
  qed
qed

end
