(* ===== verification/Router.thy ===== *)
theory Router
  imports Server_Config "HOL-Library.Multiset"
begin

text \<open>
  The virtual-IP router of \<open>server/src/session.rs\<close>. Its two concurrent maps are association lists with
  distinct keys; the list order stands for the unspecified iteration order of a \<open>DashMap\<close>. A sender
  (\<open>mpsc::Sender\<close>) and a shared \<open>Arc<Counters>\<close> are the number of the session that owns them, so the
  two tables alias the same queue as the clones in the source do. The bounded channels of \<open>tokio\<close> are
  third-party: a \<open>runtime\<close> record carries them as an argument.
\<close>

section \<open>Channels of the runtime\<close>

text \<open>\<open>mpsc::channel(n)\<close>, \<open>try_send\<close> (\<open>None\<close> when it is refused), \<open>recv\<close> (\<open>None\<close> when nothing waits),
  the drop of the receiver and whether it happened; for frames and for byte chunks.\<close>

record ('q, 'r) runtime =
  channel_f :: "nat \<Rightarrow> 'q"
  try_send_f :: "'q \<Rightarrow> frame \<Rightarrow> 'q option"
  recv_f :: "'q \<Rightarrow> (frame \<times> 'q) option"
  drop_f :: "'q \<Rightarrow> 'q"
  closed_f :: "'q \<Rightarrow> bool"
  channel_d :: "nat \<Rightarrow> 'r"
  try_send_d :: "'r \<Rightarrow> bytes \<Rightarrow> 'r option"
  recv_d :: "'r \<Rightarrow> (bytes \<times> 'r) option"
  drop_d :: "'r \<Rightarrow> 'r"
  closed_d :: "'r \<Rightarrow> bool"

text \<open>What the code relies on: a queue starts empty, an accepted message goes to its end, the
  receiver takes from its front, and nothing is accepted once the receiver is gone.\<close>

definition channel_laws ::
  "(nat \<Rightarrow> 'q) \<Rightarrow> ('q \<Rightarrow> 'm \<Rightarrow> 'q option) \<Rightarrow> ('q \<Rightarrow> ('m \<times> 'q) option) \<Rightarrow> ('q \<Rightarrow> 'q) \<Rightarrow> ('q \<Rightarrow> bool) \<Rightarrow>
   ('q \<Rightarrow> 'm list) \<Rightarrow> bool" where
  "channel_laws channel try_send recv drop_rx closed pending \<longleftrightarrow>
     (\<forall>n. pending (channel n) = [] \<and> \<not> closed (channel n)) \<and>
     (\<forall>q m q'. try_send q m = Some q' \<longrightarrow> pending q' = pending q @ [m] \<and> \<not> closed q \<and> \<not> closed q') \<and>
     (\<forall>q m q'. recv q = Some (m, q') \<longrightarrow> pending q = m # pending q' \<and> closed q' = closed q) \<and>
     (\<forall>q. recv q = None \<longrightarrow> pending q = []) \<and>
     (\<forall>q. closed (drop_rx q))"

definition queue_laws :: "('q, 'r) runtime \<Rightarrow> ('q \<Rightarrow> frame list) \<Rightarrow> bool" where
  "queue_laws rt = channel_laws (channel_f rt) (try_send_f rt) (recv_f rt) (drop_f rt) (closed_f rt)"

definition data_laws :: "('q, 'r) runtime \<Rightarrow> ('r \<Rightarrow> bytes list) \<Rightarrow> bool" where
  "data_laws rt = channel_laws (channel_d rt) (try_send_d rt) (recv_d rt) (drop_d rt) (closed_d rt)"

section \<open>Records\<close>

record online =
  on_name :: string
  on_mode :: session_mode
  on_addr :: string
  on_vpn_member :: bool
  on_ip6 :: "ipv6 option"

record counters =
  c_up :: u64
  c_down :: u64

record entry =
  e_tx :: nat
  e_info :: online
  e_token :: string
  e_counters :: nat
  e_connected :: u64

record live_entry =
  le_ip :: ipv4
  le_name :: string
  le_token :: string
  le_mode :: session_mode
  le_addr :: string
  le_up :: u64
  le_down :: u64
  le_connected_secs :: u64

record router =
  peers :: "(ipv4 \<times> entry) list"
  peers6 :: "(ipv6 \<times> nat) list"

section \<open>Operations\<close>

definition router_new :: router where
  "router_new = \<lparr>peers = [], peers6 = []\<rparr>"

definition register ::
  "router \<Rightarrow> ipv4 \<Rightarrow> ipv6 option \<Rightarrow> nat \<Rightarrow> online \<Rightarrow> string \<Rightarrow> nat \<Rightarrow> u64 \<Rightarrow> router" where
  "register r ip ip6 tx info token counters now =
     (let r1 = (case ip6 of Some v6 \<Rightarrow> r\<lparr>peers6 := AList.update v6 tx (peers6 r)\<rparr> | None \<Rightarrow> r)
      in r1\<lparr>peers := AList.update ip
              \<lparr>e_tx = tx, e_info = info, e_token = token, e_counters = counters, e_connected = now\<rparr>
              (peers r1)\<rparr>)"

definition unregister :: "router \<Rightarrow> ipv4 \<Rightarrow> ipv6 option \<Rightarrow> router" where
  "unregister r ip ip6 =
     (let r1 = r\<lparr>peers := AList.delete ip (peers r)\<rparr>
      in case ip6 of Some v6 \<Rightarrow> r1\<lparr>peers6 := AList.delete v6 (peers6 r1)\<rparr> | None \<Rightarrow> r1)"

text \<open>\<open>deliver\<close> and \<open>deliver6\<close> push onto the owner's queue; the queues of all sessions are the second
  argument and part of the result.\<close>

definition push_frame ::
  "('q, 'r) runtime \<Rightarrow> nat \<Rightarrow> frame \<Rightarrow> (nat \<Rightarrow> 'q) \<Rightarrow> bool \<times> (nat \<Rightarrow> 'q)" where
  "push_frame rt tx f qs =
     (case try_send_f rt (qs tx) f of Some q' \<Rightarrow> (True, qs(tx := q')) | None \<Rightarrow> (False, qs))"

definition deliver ::
  "('q, 'r) runtime \<Rightarrow> router \<Rightarrow> ipv4 \<Rightarrow> frame \<Rightarrow> (nat \<Rightarrow> 'q) \<Rightarrow> bool \<times> (nat \<Rightarrow> 'q)" where
  "deliver rt r ip f qs =
     (case map_of (peers r) ip of Some e \<Rightarrow> push_frame rt (e_tx e) f qs | None \<Rightarrow> (False, qs))"

definition deliver6 ::
  "('q, 'r) runtime \<Rightarrow> router \<Rightarrow> ipv6 \<Rightarrow> frame \<Rightarrow> (nat \<Rightarrow> 'q) \<Rightarrow> bool \<times> (nat \<Rightarrow> 'q)" where
  "deliver6 rt r ip6 f qs =
     (case map_of (peers6 r) ip6 of Some tx \<Rightarrow> push_frame rt tx f qs | None \<Rightarrow> (False, qs))"

definition router_online :: "router \<Rightarrow> (ipv4 \<times> online) list" where
  "router_online r = map (\<lambda>(ip, e). (ip, e_info e)) (peers r)"

definition router_live :: "(nat \<Rightarrow> counters) \<Rightarrow> u64 \<Rightarrow> router \<Rightarrow> live_entry list" where
  "router_live ctrs now r =
     map (\<lambda>(ip, e). \<lparr>le_ip = ip, le_name = on_name (e_info e), le_token = e_token e,
            le_mode = on_mode (e_info e), le_addr = on_addr (e_info e),
            le_up = c_up (ctrs (e_counters e)), le_down = c_down (ctrs (e_counters e)),
            le_connected_secs = now - e_connected e\<rparr>)
       (peers r)"

section \<open>The tables as an interface\<close>

locale session_table =
  fixes lookup :: "'t \<Rightarrow> 'k \<Rightarrow> 'v option"
    and put :: "'k \<Rightarrow> 'v \<Rightarrow> 't \<Rightarrow> 't"
    and remove :: "'k \<Rightarrow> 't \<Rightarrow> 't"
    and entries :: "'t \<Rightarrow> ('k \<times> 'v) list"
    and wf :: "'t \<Rightarrow> bool"
  assumes lookup_put: "lookup (put k v t) j = (if j = k then Some v else lookup t j)"
    and lookup_remove: "lookup (remove k t) j = (if j = k then None else lookup t j)"
    and wf_put: "wf t \<Longrightarrow> wf (put k v t)"
    and wf_remove: "wf t \<Longrightarrow> wf (remove k t)"
    and entries_lookup: "wf t \<Longrightarrow> (k, v) \<in> set (entries t) \<longleftrightarrow> lookup t k = Some v"
begin

text \<open>A session that ends removes whatever its key maps to: after a second session took the key over,
  the end of the first one removes the second one's entry.\<close>

lemma takeover_lost: "lookup (remove k (put k v2 (put k v1 t))) k = None"
  by (simp add: lookup_remove)

lemma put_remove_other: "j \<noteq> k \<Longrightarrow> lookup (remove k (put k v t)) j = lookup t j"
  by (simp add: lookup_put lookup_remove)

lemma remove_entries:
  "wf t \<Longrightarrow> set (entries (remove k t)) = {(j, v) \<in> set (entries t). j \<noteq> k}"
  using entries_lookup wf_remove by (auto simp: lookup_remove split: if_splits)

lemma put_entries:
  "wf t \<Longrightarrow> set (entries (put k v t)) = insert (k, v) {(j, w) \<in> set (entries t). j \<noteq> k}"
  using entries_lookup wf_put by (auto simp: lookup_put split: if_splits)

end

interpretation table: session_table map_of AList.update AList.delete "\<lambda>t. t" "\<lambda>t. distinct (map fst t)"
proof unfold_locales
  fix k j :: 'a and v :: 'b and t :: "('a \<times> 'b) list"
  show "map_of (AList.update k v t) j = (if j = k then Some v else map_of t j)"
    by (simp add: update_conv')
  show "map_of (AList.delete k t) j = (if j = k then None else map_of t j)"
    by (simp add: delete_conv')
  show "distinct (map fst t) \<Longrightarrow> distinct (map fst (AList.update k v t))"
    by (rule distinct_update)
  show "distinct (map fst t) \<Longrightarrow> distinct (map fst (AList.delete k t))"
    by (rule distinct_delete)
  show "distinct (map fst t) \<Longrightarrow> ((k, v) \<in> set t) = (map_of t k = Some v)"
    by (simp add: map_of_eq_Some_iff)
qed

section \<open>Facts\<close>

definition router_wf :: "router \<Rightarrow> bool" where
  "router_wf r \<longleftrightarrow> distinct (map fst (peers r)) \<and> distinct (map fst (peers6 r))"

lemma router_new_wf [simp]: "router_wf router_new"
  by (simp add: router_wf_def router_new_def)

lemma peers_register:
  "peers (register r ip ip6 tx info tok c now) =
     AList.update ip \<lparr>e_tx = tx, e_info = info, e_token = tok, e_counters = c, e_connected = now\<rparr> (peers r)"
  by (simp add: register_def Let_def split: option.splits)

lemma peers6_register:
  "peers6 (register r ip ip6 tx info tok c now) =
     (case ip6 of Some v6 \<Rightarrow> AList.update v6 tx (peers6 r) | None \<Rightarrow> peers6 r)"
  by (simp add: register_def Let_def split: option.splits)

lemma peers_unregister: "peers (unregister r ip ip6) = AList.delete ip (peers r)"
  by (simp add: unregister_def Let_def split: option.splits)

lemma peers6_unregister:
  "peers6 (unregister r ip ip6) =
     (case ip6 of Some v6 \<Rightarrow> AList.delete v6 (peers6 r) | None \<Rightarrow> peers6 r)"
  by (simp add: unregister_def Let_def split: option.splits)

lemmas router_tables = peers_register peers6_register peers_unregister peers6_unregister

lemma register_wf [intro]: "router_wf r \<Longrightarrow> router_wf (register r ip ip6 tx info tok c now)"
  by (auto simp: router_wf_def router_tables distinct_update split: option.splits)

lemma unregister_wf [intro]: "router_wf r \<Longrightarrow> router_wf (unregister r ip ip6)"
  by (auto simp: router_wf_def router_tables distinct_delete split: option.splits)

lemma push_frame_other: "push_frame rt tx f qs = (b, qs') \<Longrightarrow> j \<noteq> tx \<Longrightarrow> qs' j = qs j"
  by (auto simp: push_frame_def split: option.splits)

lemma push_frame_accepted:
  "queue_laws rt pending \<Longrightarrow> push_frame rt tx f qs = (True, qs') \<Longrightarrow>
   pending (qs' tx) = pending (qs tx) @ [f]"
  by (auto simp: push_frame_def queue_laws_def channel_laws_def split: option.splits)

lemma push_frame_refused: "push_frame rt tx f qs = (False, qs') \<Longrightarrow> qs' = qs"
  by (auto simp: push_frame_def split: option.splits)

lemma router_online_iff:
  assumes "router_wf r"
  shows "(ip, o1) \<in> set (router_online r) \<longleftrightarrow> (\<exists>e. map_of (peers r) ip = Some e \<and> o1 = e_info e)"
  using assms by (force simp: router_online_def router_wf_def map_of_eq_Some_iff)

section \<open>Bounded queues\<close>

text \<open>The instance the witnesses use: whether the receiver is gone, the capacity and what waits.\<close>

type_synonym 'm queue = "bool \<times> nat \<times> 'm list"

definition q_channel :: "nat \<Rightarrow> 'm queue" where
  "q_channel n = (False, n, [])"

definition q_try_send :: "'m queue \<Rightarrow> 'm \<Rightarrow> 'm queue option" where
  "q_try_send q m = (case q of (gone, n, ms) \<Rightarrow>
     if gone \<or> length ms \<ge> n then None else Some (gone, n, ms @ [m]))"

definition q_recv :: "'m queue \<Rightarrow> ('m \<times> 'm queue) option" where
  "q_recv q = (case q of (gone, n, ms) \<Rightarrow> (case ms of [] \<Rightarrow> None | m # ms' \<Rightarrow> Some (m, gone, n, ms')))"

definition q_drop :: "'m queue \<Rightarrow> 'm queue" where
  "q_drop q = (True, snd q)"

definition q_pending :: "'m queue \<Rightarrow> 'm list" where
  "q_pending q = snd (snd q)"

definition bounded_rt :: "(frame queue, bytes queue) runtime" where
  "bounded_rt = \<lparr>channel_f = q_channel, try_send_f = q_try_send, recv_f = q_recv, drop_f = q_drop, closed_f = fst,
     channel_d = q_channel, try_send_d = q_try_send, recv_d = q_recv, drop_d = q_drop, closed_d = fst\<rparr>"

lemma bounded_laws: "channel_laws q_channel q_try_send q_recv q_drop fst q_pending"
  by (auto simp: channel_laws_def q_channel_def q_try_send_def q_recv_def q_drop_def q_pending_def
      split: prod.splits list.splits if_splits)

lemma bounded_rt_laws: "queue_laws bounded_rt q_pending" "data_laws bounded_rt q_pending"
  by (simp_all add: queue_laws_def data_laws_def bounded_rt_def bounded_laws)

end
