(* ===== verification/Metrics.thy ===== *)
theory Metrics
  imports Router
begin

text \<open>
  The in-memory metrics of \<open>server/src/session.rs\<close>: the totals, the per-token aggregate of finished
  sessions, the sample ring and the merged per-peer list. Counters are 64 bits wide and wrap, as
  \<open>fetch_add\<close> and a release-mode \<open>+=\<close> do. Times are seconds on the clock that \<open>Instant::now()\<close>
  reads. The iteration order of a \<open>HashMap\<close> (\<open>into_values\<close>) is unspecified, so it is an argument.
\<close>

section \<open>Records\<close>

record peer_agg =
  pa_name :: string
  pa_ip :: ipv4
  pa_mode :: session_mode
  pa_up :: u64
  pa_down :: u64

record traffic_sample =
  ts_t :: u64
  ts_up :: u64
  ts_down :: u64

record peer_stat =
  ps_name :: string
  ps_token :: string
  ps_ip :: string
  ps_mode :: "string option"
  ps_online :: bool
  ps_addr :: "string option"
  ps_up :: u64
  ps_down :: u64
  ps_connected_secs :: u64

definition MAX_SAMPLES :: nat where
  "MAX_SAMPLES = 180"

record metrics =
  m_start :: u64
  m_total_up :: u64
  m_total_down :: u64
  m_agg :: "(string \<times> peer_agg) list"
  m_timeline :: "traffic_sample list"
  m_last :: "u64 \<times> u64"

section \<open>Operations\<close>

definition metrics_new :: "u64 \<Rightarrow> metrics" where
  "metrics_new now = \<lparr>m_start = now, m_total_up = 0, m_total_down = 0, m_agg = [],
     m_timeline = [], m_last = (0, 0)\<rparr>"

definition uptime_secs :: "u64 \<Rightarrow> metrics \<Rightarrow> u64" where
  "uptime_secs now m = now - m_start m"

definition add_up :: "u64 \<Rightarrow> metrics \<Rightarrow> metrics" where
  "add_up n m = m\<lparr>m_total_up := m_total_up m + n\<rparr>"

definition add_down :: "u64 \<Rightarrow> metrics \<Rightarrow> metrics" where
  "add_down n m = m\<lparr>m_total_down := m_total_down m + n\<rparr>"

definition totals :: "metrics \<Rightarrow> u64 \<times> u64" where
  "totals m = (m_total_up m, m_total_down m)"

definition fold_session ::
  "string \<Rightarrow> string \<Rightarrow> ipv4 \<Rightarrow> session_mode \<Rightarrow> u64 \<Rightarrow> u64 \<Rightarrow> metrics \<Rightarrow> metrics" where
  "fold_session token name ip mode up down m =
     (let e = (case map_of (m_agg m) token of
                 Some a \<Rightarrow> a
               | None \<Rightarrow> \<lparr>pa_name = name, pa_ip = ip, pa_mode = mode, pa_up = 0, pa_down = 0\<rparr>)
      in m\<lparr>m_agg := AList.update token
             \<lparr>pa_name = name, pa_ip = ip, pa_mode = mode, pa_up = pa_up e + up, pa_down = pa_down e + down\<rparr>
             (m_agg m)\<rparr>)"

definition saturating_sub :: "u64 \<Rightarrow> u64 \<Rightarrow> u64" where
  "saturating_sub a b = (if b \<le> a then a - b else 0)"

text \<open>The loop \<open>while tl.len() > MAX_SAMPLES { tl.pop_front(); }\<close>.\<close>

fun pop_excess :: "nat \<Rightarrow> 'a list \<Rightarrow> 'a list" where
  "pop_excess n xs = (if length xs > n then pop_excess n (tl xs) else xs)"

declare pop_excess.simps [simp del]

definition sample :: "u64 \<Rightarrow> metrics \<Rightarrow> metrics" where
  "sample now m =
     (let (cu, cd) = totals m;
          du = saturating_sub cu (fst (m_last m));
          dd = saturating_sub cd (snd (m_last m));
          m1 = m\<lparr>m_last := (cu, cd)\<rparr>
      in m1\<lparr>m_timeline := pop_excess MAX_SAMPLES
               (m_timeline m1 @ [\<lparr>ts_t = uptime_secs now m1, ts_up = du, ts_down = dd\<rparr>])\<rparr>)"

definition timeline :: "metrics \<Rightarrow> traffic_sample list" where
  "timeline m = m_timeline m"

text \<open>\<open>peer_stats\<close>: first loop, second loop, then the stable sort by decreasing traffic.\<close>

definition stat_of_agg :: "string \<Rightarrow> peer_agg \<Rightarrow> peer_stat" where
  "stat_of_agg token a =
     \<lparr>ps_name = pa_name a, ps_token = token, ps_ip = show_ipv4 (pa_ip a),
      ps_mode = Some (show_mode (pa_mode a)), ps_online = False, ps_addr = None,
      ps_up = pa_up a, ps_down = pa_down a, ps_connected_secs = 0\<rparr>"

definition add_agg ::
  "string \<times> peer_agg \<Rightarrow> (string \<times> peer_stat) list \<Rightarrow> (string \<times> peer_stat) list" where
  "add_agg e out = AList.update (fst e) (stat_of_agg (fst e) (snd e)) out"

definition add_live :: "live_entry \<Rightarrow> (string \<times> peer_stat) list \<Rightarrow> (string \<times> peer_stat) list" where
  "add_live l out =
     (let s = (case map_of out (le_token l) of
                 Some s \<Rightarrow> s
               | None \<Rightarrow> \<lparr>ps_name = le_name l, ps_token = le_token l, ps_ip = show_ipv4 (le_ip l),
                          ps_mode = None, ps_online = False, ps_addr = None, ps_up = 0, ps_down = 0,
                          ps_connected_secs = 0\<rparr>)
      in AList.update (le_token l)
           (s\<lparr>ps_name := le_name l, ps_ip := show_ipv4 (le_ip l),
             ps_mode := Some (show_mode (le_mode l)), ps_online := True, ps_addr := Some (le_addr l),
             ps_up := ps_up s + le_up l, ps_down := ps_down s + le_down l,
             ps_connected_secs := le_connected_secs l\<rparr>) out)"

definition stats_table :: "metrics \<Rightarrow> live_entry list \<Rightarrow> (string \<times> peer_stat) list" where
  "stats_table m live = fold add_live live (fold add_agg (m_agg m) [])"

definition peer_stats ::
  "((string \<times> peer_stat) list \<Rightarrow> peer_stat list) \<Rightarrow> metrics \<Rightarrow> live_entry list \<Rightarrow> peer_stat list" where
  "peer_stats into_values m live =
     sort_key (\<lambda>s. - uint (ps_up s + ps_down s)) (into_values (stats_table m live))"

section \<open>The sample ring\<close>

lemma pop_excess_drop: "pop_excess n xs = drop (length xs - n) xs"
proof (induction n xs rule: pop_excess.induct)
  case (1 n xs)
  show ?case
  proof (cases "length xs > n")
    case True
    then have "drop (length xs - n) xs = drop (length (tl xs) - n) (tl xs)"
      by (cases xs) (auto simp: Suc_diff_le)
    with True "1.IH" show ?thesis
      by (simp add: pop_excess.simps [of n xs])
  qed (simp add: pop_excess.simps)
qed

lemma sample_timeline:
  "m_timeline (sample now m) =
     (let all = m_timeline m @ [\<lparr>ts_t = now - m_start m,
                 ts_up = saturating_sub (m_total_up m) (fst (m_last m)),
                 ts_down = saturating_sub (m_total_down m) (snd (m_last m))\<rparr>]
      in drop (length all - MAX_SAMPLES) all)"
  by (simp add: sample_def totals_def uptime_secs_def pop_excess_drop Let_def)

lemma sample_frame [simp]:
  "m_total_up (sample now m) = m_total_up m" "m_total_down (sample now m) = m_total_down m"
  "m_agg (sample now m) = m_agg m" "m_start (sample now m) = m_start m"
  "m_last (sample now m) = (m_total_up m, m_total_down m)"
  by (simp_all add: sample_def totals_def Let_def)

lemma add_up_frame [simp]:
  "m_total_up (add_up n m) = m_total_up m + n" "m_total_down (add_up n m) = m_total_down m"
  "m_agg (add_up n m) = m_agg m" "m_start (add_up n m) = m_start m"
  "m_last (add_up n m) = m_last m" "m_timeline (add_up n m) = m_timeline m"
  by (simp_all add: add_up_def)

lemma add_down_frame [simp]:
  "m_total_up (add_down n m) = m_total_up m" "m_total_down (add_down n m) = m_total_down m + n"
  "m_agg (add_down n m) = m_agg m" "m_start (add_down n m) = m_start m"
  "m_last (add_down n m) = m_last m" "m_timeline (add_down n m) = m_timeline m"
  by (simp_all add: add_down_def)

lemma fold_session_frame [simp]:
  "m_total_up (fold_session t n i md u d m) = m_total_up m"
  "m_total_down (fold_session t n i md u d m) = m_total_down m"
  "m_start (fold_session t n i md u d m) = m_start m"
  "m_last (fold_session t n i md u d m) = m_last m"
  "m_timeline (fold_session t n i md u d m) = m_timeline m"
  by (simp_all add: fold_session_def Let_def)

text \<open>What the ring promises: at most \<open>MAX_SAMPLES\<close> samples; while none was dropped and the totals did
  not wrap, the samples add up to the totals seen by the last one.\<close>

definition ring_ok :: "metrics \<Rightarrow> bool" where
  "ring_ok m \<longleftrightarrow> length (m_timeline m) \<le> MAX_SAMPLES \<and>
     fst (m_last m) \<le> m_total_up m \<and> snd (m_last m) \<le> m_total_down m \<and>
     (length (m_timeline m) < MAX_SAMPLES \<longrightarrow>
        sum_list (map ts_up (m_timeline m)) = fst (m_last m) \<and>
        sum_list (map ts_down (m_timeline m)) = snd (m_last m))"

lemma metrics_new_ring [simp]: "ring_ok (metrics_new now)"
  by (simp add: ring_ok_def metrics_new_def MAX_SAMPLES_def)

lemma sample_ring: "ring_ok m \<Longrightarrow> ring_ok (sample now m)"
  by (auto simp: ring_ok_def sample_timeline saturating_sub_def Let_def MAX_SAMPLES_def)

lemma add_up_ring:
  "ring_ok m \<Longrightarrow> m_total_up m \<le> m_total_up m + n \<Longrightarrow> ring_ok (add_up n m)"
  by (auto simp: ring_ok_def)

lemma add_down_ring:
  "ring_ok m \<Longrightarrow> m_total_down m \<le> m_total_down m + n \<Longrightarrow> ring_ok (add_down n m)"
  by (auto simp: ring_ok_def)

lemma fold_session_ring: "ring_ok m \<Longrightarrow> ring_ok (fold_session t n i md u d m)"
  by (simp add: ring_ok_def)

section \<open>Sums over association lists\<close>

lemma sum_update:
  fixes f :: "'v \<Rightarrow> 'b :: ab_group_add"
  shows "(\<Sum>x\<leftarrow>(AList.update k v al). f (snd x)) =
     (\<Sum>x\<leftarrow>al. f (snd x)) - (case map_of al k of Some w \<Rightarrow> f w | None \<Rightarrow> 0) + f v"
  by (induction al) (auto split: option.splits simp: algebra_simps)

definition agg_sum :: "(peer_agg \<Rightarrow> u64) \<Rightarrow> metrics \<Rightarrow> u64" where
  "agg_sum f m = (\<Sum>x\<leftarrow>(m_agg m). f (snd x))"

lemma agg_sum_fold_session:
  "agg_sum pa_up (fold_session t n i md u d m) = agg_sum pa_up m + u"
  "agg_sum pa_down (fold_session t n i md u d m) = agg_sum pa_down m + d"
  by (simp_all add: agg_sum_def fold_session_def Let_def sum_update split: option.splits)

lemma agg_sum_frame [simp]:
  "agg_sum f (add_up k m) = agg_sum f m" "agg_sum f (add_down k m) = agg_sum f m"
  "agg_sum f (sample now m) = agg_sum f m" "agg_sum f (metrics_new now) = 0"
  by (simp_all add: agg_sum_def metrics_new_def)

section \<open>The merged per-peer list\<close>

lemma fst_update_set: "set (map fst (AList.update k v al)) = insert k (set (map fst al))"
  by (auto simp: update_keys)

lemma fold_agg_sum:
  assumes "distinct (map fst es)" "set (map fst out) \<inter> set (map fst es) = {}"
  shows "(\<Sum>x\<leftarrow>(fold add_agg es out). f (snd x)) =
     (\<Sum>x\<leftarrow>out. f (snd x)) + (\<Sum>e\<leftarrow>es. (f (stat_of_agg (fst e) (snd e)) :: u64))"
  using assms
proof (induction es arbitrary: out)
  case (Cons e es)
  have "map_of out (fst e) = None"
    using Cons.prems by (force simp: map_of_eq_None_iff)
  moreover have "set (map fst (add_agg e out)) \<inter> set (map fst es) = {}"
    unfolding add_agg_def fst_update_set using Cons.prems by auto
  ultimately show ?case
    using Cons.IH [of "add_agg e out"] Cons.prems by (simp add: add_agg_def sum_update)
qed simp

lemma fold_live_sum:
  "(\<Sum>x\<leftarrow>(fold add_live ls out). ps_up (snd x)) =
     (\<Sum>x\<leftarrow>out. ps_up (snd x)) + sum_list (map le_up ls)"
  "(\<Sum>x\<leftarrow>(fold add_live ls out). ps_down (snd x)) =
     (\<Sum>x\<leftarrow>out. ps_down (snd x)) + sum_list (map le_down ls)"
  by (induction ls arbitrary: out)
    (auto simp: add_live_def Let_def sum_update algebra_simps split: option.splits)

text \<open>Every row carries the token it is filed under.\<close>

definition keyed :: "(string \<times> peer_stat) list \<Rightarrow> bool" where
  "keyed out \<longleftrightarrow> distinct (map fst out) \<and> (\<forall>(t, s) \<in> set out. ps_token s = t)"

lemma keyed_update: "keyed out \<Longrightarrow> ps_token s = t \<Longrightarrow> keyed (AList.update t s out)"
  unfolding keyed_def using table.put_entries [of out t s] by (auto simp: distinct_update)

lemma keyed_add_agg: "keyed out \<Longrightarrow> keyed (add_agg e out)"
  by (simp add: add_agg_def keyed_update stat_of_agg_def)

lemma keyed_add_live: "keyed out \<Longrightarrow> keyed (add_live l out)"
  unfolding add_live_def Let_def
  by (rule keyed_update) (auto simp: keyed_def split: option.splits dest: map_of_SomeD)

lemma keyed_fold: "(\<And>x out. keyed out \<Longrightarrow> keyed (g x out)) \<Longrightarrow> keyed out \<Longrightarrow> keyed (fold g xs out)"
  by (induction xs arbitrary: out) auto

lemma keyed_stats_table: "keyed (stats_table m live)"
  unfolding stats_table_def
  by (rule keyed_fold, rule keyed_add_live, assumption, rule keyed_fold, rule keyed_add_agg, assumption)
    (simp add: keyed_def)

lemma keyed_tokens: "keyed out \<Longrightarrow> map ps_token (map snd out) = map fst out"
  by (auto simp: keyed_def)

lemma stats_table_sum:
  assumes "distinct (map fst (m_agg m))"
  shows "(\<Sum>x\<leftarrow>(stats_table m live). ps_up (snd x)) = agg_sum pa_up m + sum_list (map le_up live)"
    and "(\<Sum>x\<leftarrow>(stats_table m live). ps_down (snd x)) = agg_sum pa_down m + sum_list (map le_down live)"
  using fold_agg_sum [OF assms, of "[]" ps_up] fold_agg_sum [OF assms, of "[]" ps_down]
  by (simp_all add: stats_table_def fold_live_sum agg_sum_def stat_of_agg_def comp_def)

lemma sum_list_mset_eq:
  "mset xs = mset ys \<Longrightarrow> sum_list (map f xs) = (sum_list (map f ys) :: 'b :: comm_monoid_add)"
  by (metis mset_map sum_mset_sum_list)

text \<open>The rows are one per token, ordered by decreasing traffic, and lose or double nothing: their
  byte sums are those of the finished sessions plus those of the live ones. \<open>into_values\<close> yields each
  value of the table once, in any order.\<close>

lemma peer_stats_mset:
  assumes "mset (into_values (stats_table m live)) = mset (map snd (stats_table m live))"
  shows "mset (peer_stats into_values m live) = mset (map snd (stats_table m live))"
  using assms by (simp add: peer_stats_def)

lemma peer_stats_sorted:
  "sorted_wrt (\<lambda>a b. ps_up b + ps_down b \<le> ps_up a + ps_down a) (peer_stats into_values m live)"
proof -
  let ?k = "\<lambda>s. - uint (ps_up s + ps_down s)"
  have "sorted_wrt (\<lambda>a b. ?k a \<le> ?k b) (sort_key ?k (into_values (stats_table m live)))"
    using sorted_sort_key [of ?k] by (simp add: sorted_map)
  then show ?thesis
    by (simp add: peer_stats_def word_le_def)
qed

lemma peer_stats_distinct:
  assumes "mset (into_values (stats_table m live)) = mset (map snd (stats_table m live))"
  shows "distinct (map ps_token (peer_stats into_values m live))"
proof -
  have "mset (map ps_token (peer_stats into_values m live)) = mset (map fst (stats_table m live))"
    using peer_stats_mset [where into_values = into_values and m = m and live = live, OF assms] keyed_tokens [OF keyed_stats_table [of m live]] by (metis mset_map)
  then show ?thesis
    using keyed_stats_table [of m live] mset_eq_imp_distinct_iff by (metis keyed_def)
qed

lemma peer_stats_sums:
  assumes "mset (into_values (stats_table m live)) = mset (map snd (stats_table m live))"
    and "distinct (map fst (m_agg m))"
  shows "sum_list (map ps_up (peer_stats into_values m live)) = agg_sum pa_up m + sum_list (map le_up live)"
    and "sum_list (map ps_down (peer_stats into_values m live)) = agg_sum pa_down m + sum_list (map le_down live)"
  using sum_list_mset_eq [OF peer_stats_mset [where into_values = into_values and m = m and live = live, OF assms(1)], of ps_up]
    sum_list_mset_eq [OF peer_stats_mset [where into_values = into_values and m = m and live = live, OF assms(1)], of ps_down] stats_table_sum [OF assms(2), of live]
  by (simp_all add: comp_def)

end
