(* ===== verification/Byte_Io.thy ===== *)
theory Byte_Io
  imports Wire_Types
begin

text \<open>
  The two halves of a byte stream as the transports use them. A reader holds the bytes that will
  arrive and the error its next read meets after them (\<open>UnexpectedEof\<close> for an orderly end). A
  writer holds the bytes accepted so far; \<open>w_fault\<close> says at which byte position, if any, a write
  fails, and \<open>w_flush\<close> at which position a flush fails. A \<open>pipe\<close> is a writer and the reader of
  the other end: what is written becomes readable, in order.
  The interface \<open>message_link\<close> states what every transport of \<open>core/core/src/transport\<close> promises
  (\<open>MessageSink::send\<close>, \<open>MessageStream::recv\<close>): a first-in first-out queue of messages.
\<close>

section \<open>Readers and writers\<close>

record reader =
  r_avail :: bytes
  r_end :: io_error

record writer =
  w_sent :: bytes
  w_fault :: "nat \<Rightarrow> io_error option"
  w_flush :: "nat \<Rightarrow> io_error option"

definition read_exact :: "nat \<Rightarrow> reader \<Rightarrow> (io_error + bytes) \<times> reader" where
  "read_exact n r =
     (if n \<le> length (r_avail r)
      then (Inr (take n (r_avail r)), r\<lparr>r_avail := drop n (r_avail r)\<rparr>)
      else (Inl (r_end r), r\<lparr>r_avail := []\<rparr>))"

definition read_u16 :: "reader \<Rightarrow> (io_error + u16) \<times> reader" where
  "read_u16 r = bind_st (read_exact 2 r) (\<lambda>bs r'. (Inr (un16 bs), r'))"

definition read_u32 :: "reader \<Rightarrow> (io_error + u32) \<times> reader" where
  "read_u32 r = bind_st (read_exact 4 r) (\<lambda>bs r'. (Inr (un32 bs), r'))"

fun write_all :: "bytes \<Rightarrow> writer \<Rightarrow> (io_error + unit) \<times> writer" where
  "write_all [] w = (Inr (), w)"
| "write_all (b # bs) w =
     (case w_fault w (length (w_sent w)) of
        Some e \<Rightarrow> (Inl e, w)
      | None \<Rightarrow> write_all bs (w\<lparr>w_sent := w_sent w @ [b]\<rparr>))"

definition flush :: "writer \<Rightarrow> (io_error + unit) \<times> writer" where
  "flush w = (case w_flush w (length (w_sent w)) of Some e \<Rightarrow> (Inl e, w) | None \<Rightarrow> (Inr (), w))"

definition write_u16 :: "u16 \<Rightarrow> writer \<Rightarrow> (io_error + unit) \<times> writer" where
  "write_u16 n w = write_all (be16 n) w"

definition write_u32 :: "u32 \<Rightarrow> writer \<Rightarrow> (io_error + unit) \<times> writer" where
  "write_u32 n w = write_all (be32 n) w"

text \<open>\<open>lift_io\<close> is the \<open>#[from] std::io::Error\<close> conversion of \<open>?\<close>.\<close>

definition lift_io :: "(io_error + 'a) \<times> 's \<Rightarrow> 'a res \<times> 's" where
  "lift_io p = (map_err Io (fst p), snd p)"

text \<open>The header read of every length-prefixed stream: \<open>UnexpectedEof\<close> is a closed channel.\<close>

definition header_err :: "io_error \<Rightarrow> error" where
  "header_err e = (if e = UnexpectedEof then Closed else Io e)"

section \<open>Facts on reads and writes\<close>

definition healthy :: "writer \<Rightarrow> bool" where
  "healthy w \<longleftrightarrow> w_fault w = (\<lambda>_. None) \<and> w_flush w = (\<lambda>_. None)"

lemma lift_io_simps [simp, res_simps]:
  "lift_io (Inl e, s) = (Inl (Io e), s)" "lift_io (Inr a, s) = (Inr a, s)"
  by (simp_all add: lift_io_def)

lemma write_all_healthy [simp]:
  "healthy w \<Longrightarrow> write_all bs w = (Inr (), w\<lparr>w_sent := w_sent w @ bs\<rparr>)"
proof (induction bs arbitrary: w)
  case Nil
  then show ?case by simp
next
  case (Cons b bs)
  then have "healthy (w\<lparr>w_sent := w_sent w @ [b]\<rparr>)" by (simp add: healthy_def)
  with Cons show ?case by (simp add: healthy_def)
qed

lemma flush_healthy [simp]: "healthy w \<Longrightarrow> flush w = (Inr (), w)"
  by (simp add: flush_def healthy_def)

lemma healthy_update [simp]: "healthy (w\<lparr>w_sent := bs\<rparr>) = healthy w"
  by (simp add: healthy_def)

lemma read_exact_prefix [simp]:
  "r_avail r = bs @ rest \<Longrightarrow> n = length bs \<Longrightarrow>
   read_exact n r = (Inr bs, r\<lparr>r_avail := rest\<rparr>)"
  by (simp add: read_exact_def)

lemma read_exact_short:
  "length (r_avail r) < n \<Longrightarrow> read_exact n r = (Inl (r_end r), r\<lparr>r_avail := []\<rparr>)"
  by (simp add: read_exact_def)

lemma read_u32_prefix [simp]:
  "r_avail r = be32 n @ rest \<Longrightarrow> read_u32 r = (Inr n, r\<lparr>r_avail := rest\<rparr>)"
  by (simp add: read_u32_def)

lemma read_u16_prefix [simp]:
  "r_avail r = be16 n @ rest \<Longrightarrow> read_u16 r = (Inr n, r\<lparr>r_avail := rest\<rparr>)"
  by (simp add: read_u16_def)

lemma read_u32_short:
  "length (r_avail r) < 4 \<Longrightarrow> read_u32 r = (Inl (r_end r), r\<lparr>r_avail := []\<rparr>)"
  by (simp add: read_u32_def read_exact_short)

lemma read_u16_short:
  "length (r_avail r) < 2 \<Longrightarrow> read_u16 r = (Inl (r_end r), r\<lparr>r_avail := []\<rparr>)"
  by (simp add: read_u16_def read_exact_short)

text \<open>Writes only ever append: no operation takes back or reorders bytes already sent.\<close>

lemma write_all_appends:
  "write_all bs w = (r, w') \<Longrightarrow>
   \<exists>k \<le> length bs. w_sent w' = w_sent w @ take k bs \<and> (r = Inr () \<longrightarrow> k = length bs)"
proof (induction bs arbitrary: w)
  case Nil
  then show ?case by auto
next
  case (Cons b bs)
  show ?case
  proof (cases "w_fault w (length (w_sent w))")
    case None
    with Cons.prems have "write_all bs (w\<lparr>w_sent := w_sent w @ [b]\<rparr>) = (r, w')"
      by simp
    from Cons.IH [OF this] obtain k where
      "k \<le> length bs" "w_sent w' = w_sent w @ b # take k bs" "r = Inr () \<longrightarrow> k = length bs"
      by auto
    then show ?thesis by (intro exI [of _ "Suc k"]) auto
  next
    case (Some e)
    with Cons.prems show ?thesis by (intro exI [of _ 0]) auto
  qed
qed

section \<open>Pipes\<close>

record pipe =
  p_out :: writer
  p_in :: reader

text \<open>Lift a sink operation and a stream operation to the two ends of one pipe.\<close>

definition pipe_write :: "(writer \<Rightarrow> 'a res \<times> writer) \<Rightarrow> pipe \<Rightarrow> 'a res \<times> pipe" where
  "pipe_write op p =
     (case op (p_out p) of (x, w') \<Rightarrow>
        (x, p\<lparr>p_out := w',
              p_in := (p_in p)\<lparr>r_avail := r_avail (p_in p) @ drop (length (w_sent (p_out p))) (w_sent w')\<rparr>\<rparr>))"

definition pipe_read :: "(reader \<Rightarrow> 'a res \<times> reader) \<Rightarrow> pipe \<Rightarrow> 'a res \<times> pipe" where
  "pipe_read op p = (case op (p_in p) of (x, r') \<Rightarrow> (x, p\<lparr>p_in := r'\<rparr>))"

definition pipe_up :: "pipe \<Rightarrow> bool" where
  "pipe_up p \<longleftrightarrow> healthy (p_out p)"

section \<open>The interface of a transport\<close>

locale message_link =
  fixes send :: "bytes \<Rightarrow> 'l \<Rightarrow> unit res \<times> 'l"
    and recv :: "'l \<Rightarrow> bytes res \<times> 'l"
    and fits :: "bytes \<Rightarrow> bool"
    and up :: "'l \<Rightarrow> bool"
    and carries :: "'l \<Rightarrow> bytes list \<Rightarrow> bool"
  assumes send_carries:
      "carries l ms \<Longrightarrow> up l \<Longrightarrow> fits m \<Longrightarrow>
       \<exists>l'. send m l = (Inr (), l') \<and> up l' \<and> carries l' (ms @ [m])"
    and recv_carries:
      "carries l (m # ms) \<Longrightarrow> up l \<Longrightarrow> \<exists>l'. recv l = (Inr m, l') \<and> up l' \<and> carries l' ms"
    and send_refuses: "\<not> fits m \<Longrightarrow> \<exists>e. send m l = (Inl e, l)"
begin

text \<open>Sending a list of messages, receiving a number of them.\<close>

fun send_all :: "bytes list \<Rightarrow> 'l \<Rightarrow> unit res \<times> 'l" where
  "send_all [] l = (Inr (), l)"
| "send_all (m # ms) l = bind_st (send m l) (\<lambda>_ l'. send_all ms l')"

fun recv_n :: "nat \<Rightarrow> 'l \<Rightarrow> bytes list res \<times> 'l" where
  "recv_n 0 l = (Inr [], l)"
| "recv_n (Suc n) l =
     bind_st (recv l) (\<lambda>m l'. bind_st (recv_n n l') (\<lambda>ms l''. (Inr (m # ms), l'')))"

lemma send_all_carries:
  assumes "carries l qs" and "up l" and "\<forall>m \<in> set ms. fits m"
  shows "\<exists>l'. send_all ms l = (Inr (), l') \<and> up l' \<and> carries l' (qs @ ms)"
  using assms
proof (induction ms arbitrary: l qs)
  case Nil
  then show ?case by auto
next
  case (Cons m ms)
  then obtain l1 where s: "send m l = (Inr (), l1)" and "up l1" "carries l1 (qs @ [m])"
    using send_carries [of l qs m] by auto
  with Cons.prems Cons.IH [of l1 "qs @ [m]"] obtain l' where
    "send_all ms l1 = (Inr (), l')" "up l'" "carries l' (qs @ m # ms)"
    by auto
  with s show ?case by auto
qed

lemma recv_n_carries:
  assumes "carries l (ms @ qs)" and "up l"
  shows "\<exists>l'. recv_n (length ms) l = (Inr ms, l') \<and> up l' \<and> carries l' qs"
  using assms
proof (induction ms arbitrary: l)
  case Nil
  then show ?case by auto
next
  case (Cons m ms)
  then obtain l1 where r: "recv l = (Inr m, l1)" and "up l1" "carries l1 (ms @ qs)"
    using recv_carries [of l m "ms @ qs"] by auto
  with Cons.IH [of l1] obtain l' where
    "recv_n (length ms) l1 = (Inr ms, l')" "up l'" "carries l' qs"
    by auto
  with r show ?case by auto
qed

text \<open>Any schedule of sends and receives behaves as a queue: an operation is \<open>Some m\<close> for a send
  and \<open>None\<close> for a receive.\<close>

fun link_run :: "bytes option list \<Rightarrow> 'l \<Rightarrow> bytes list res \<times> 'l" where
  "link_run [] l = (Inr [], l)"
| "link_run (Some m # ops) l = bind_st (send m l) (\<lambda>_ l'. link_run ops l')"
| "link_run (None # ops) l =
     bind_st (recv l) (\<lambda>m l'. bind_st (link_run ops l') (\<lambda>ms l''. (Inr (m # ms), l'')))"

fun queue_run :: "bytes option list \<Rightarrow> bytes list \<Rightarrow> (bytes list \<times> bytes list) option" where
  "queue_run [] q = Some ([], q)"
| "queue_run (Some m # ops) q = (if fits m then queue_run ops (q @ [m]) else None)"
| "queue_run (None # ops) q =
     (case q of [] \<Rightarrow> None
      | m # q' \<Rightarrow> map_option (\<lambda>(ms, q''). (m # ms, q'')) (queue_run ops q'))"

theorem link_refines_queue:
  assumes "carries l q" and "up l" and "queue_run ops q = Some (ms, q')"
  shows "\<exists>l'. link_run ops l = (Inr ms, l') \<and> up l' \<and> carries l' q'"
  using assms
proof (induction ops q arbitrary: l ms rule: queue_run.induct)
  case (1 q)
  then show ?case by auto
next
  case (2 m ops q)
  then have "fits m" by (simp split: if_splits)
  with 2 obtain l1 where "send m l = (Inr (), l1)" "up l1" "carries l1 (q @ [m])"
    using send_carries [of l q m] by auto
  with 2 \<open>fits m\<close> show ?case by auto
next
  case (3 ops q)
  then obtain m q1 ms1 where q: "q = m # q1" and ms: "ms = m # ms1"
    and run: "queue_run ops q1 = Some (ms1, q')"
    by (auto split: list.splits)
  with "3.prems" obtain l1 where r: "recv l = (Inr m, l1)" and "up l1" "carries l1 q1"
    using recv_carries [of l m q1] by auto
  with "3.IH" [OF q _ _ run] obtain l' where
    "link_run ops l1 = (Inr ms1, l')" "up l'" "carries l' q'"
    by auto
  with r ms show ?case by auto
qed

end

end
