(* ===== verification/Transports.thy ===== *)
theory Transports
  imports Byte_Io
begin

text \<open>
  The message channels of \<open>core/core/src/transport\<close>: \<open>LdSink\<close>/\<open>LdStream\<close> (\<open>framing.rs\<close>),
  \<open>QuicSink\<close>/\<open>QuicRecv\<close> (\<open>quic.rs\<close>), \<open>WsSink\<close>/\<open>WsRx\<close> (\<open>ws.rs\<close>) and \<open>NoiseSink\<close>/\<open>NoiseStream\<close>
  (\<open>tcp.rs\<close>), each shown to be a \<open>message_link\<close>. The AEAD of the Noise transport is the third-party
  crate \<open>snow\<close>: its \<open>write_message\<close> and \<open>read_message\<close> are arguments, and \<open>aead_laws\<close> states
  what the code relies on (a 16-byte tag, and decryption in step with encryption).
\<close>

section \<open>Length-delimited framing\<close>

definition ld_send :: "bytes \<Rightarrow> writer \<Rightarrow> unit res \<times> writer" where
  "ld_send msg w =
     (if length msg > MAX_MESSAGE_LEN
      then (Inl (Protocol (''message too large: '' @ show_nat (length msg))), w)
      else bind_st (lift_io (write_u32 (of_nat (length msg)) w)) (\<lambda>_ w1.
           bind_st (lift_io (write_all msg w1)) (\<lambda>_ w2.
           lift_io (flush w2))))"

definition ld_recv :: "reader \<Rightarrow> bytes res \<times> reader" where
  "ld_recv r =
     (case read_u32 r of
        (Inl e, r1) \<Rightarrow> (Inl (header_err e), r1)
      | (Inr l, r1) \<Rightarrow>
          (let len = unat l in
           if len > MAX_MESSAGE_LEN
           then (Inl (Protocol (''frame too large: '' @ show_nat len)), r1)
           else lift_io (read_exact len r1)))"

text \<open>\<open>close\<close> of the sink: an error of \<open>shutdown\<close> is reported.\<close>

definition ld_close :: "(writer \<Rightarrow> (io_error + unit) \<times> writer) \<Rightarrow> writer \<Rightarrow> unit res \<times> writer" where
  "ld_close shutdown w = lift_io (shutdown w)"

definition ld_wire :: "bytes \<Rightarrow> bytes" where
  "ld_wire m = be32 (of_nat (length m)) @ m"

definition ld_fits :: "bytes \<Rightarrow> bool" where
  "ld_fits m \<longleftrightarrow> length m \<le> MAX_MESSAGE_LEN"

definition ld_carries :: "pipe \<Rightarrow> bytes list \<Rightarrow> bool" where
  "ld_carries p ms \<longleftrightarrow> r_avail (p_in p) = concat (map ld_wire ms) \<and> (\<forall>m \<in> set ms. ld_fits m)"

lemma ld_send_healthy:
  "healthy w \<Longrightarrow> ld_fits m \<Longrightarrow> ld_send m w = (Inr (), w\<lparr>w_sent := w_sent w @ ld_wire m\<rparr>)"
  by (simp add: ld_send_def ld_fits_def ld_wire_def write_u32_def)

lemma unat_length_u32: "ld_fits m \<Longrightarrow> unat (of_nat (length m) :: u32) = length m"
  by (simp add: ld_fits_def MAX_MESSAGE_LEN_def unat_of_nat)

lemma ld_recv_wire:
  "ld_fits m \<Longrightarrow> r_avail r = ld_wire m @ rest \<Longrightarrow> ld_recv r = (Inr m, r\<lparr>r_avail := rest\<rparr>)"
  by (simp add: ld_recv_def ld_wire_def unat_length_u32 Let_def)
     (simp add: ld_fits_def)

lemma ld_send_refuses: "\<not> ld_fits m \<Longrightarrow> \<exists>e. ld_send m w = (Inl e, w)"
  by (simp add: ld_send_def ld_fits_def)

interpretation ld: message_link
  "\<lambda>m. pipe_write (ld_send m)" "pipe_read ld_recv" ld_fits pipe_up ld_carries
proof unfold_locales
  fix l ms m
  assume "ld_carries l ms" "pipe_up l" "ld_fits m"
  then show "\<exists>l'. pipe_write (ld_send m) l = (Inr (), l') \<and> pipe_up l' \<and> ld_carries l' (ms @ [m])"
    by (simp add: pipe_write_def pipe_up_def ld_carries_def ld_send_healthy)
next
  fix l m ms
  assume "ld_carries l (m # ms)" "pipe_up l"
  then show "\<exists>l'. pipe_read ld_recv l = (Inr m, l') \<and> pipe_up l' \<and> ld_carries l' ms"
    by (auto simp: pipe_read_def pipe_up_def ld_carries_def ld_recv_wire)
next
  fix m and l :: pipe
  assume "\<not> ld_fits m"
  then obtain e where "ld_send m (p_out l) = (Inl e, p_out l)"
    using ld_send_refuses by blast
  then show "\<exists>e. pipe_write (ld_send m) l = (Inl e, l)"
    by (simp add: pipe_write_def)
qed

section \<open>QUIC streams\<close>

text \<open>The same framing on a \<open>quinn\<close> stream: no flush, and the body's errors are transport errors.
  \<open>quic_io\<close> renders an I/O error as text.\<close>

definition quic_send :: "(io_error \<Rightarrow> string) \<Rightarrow> bytes \<Rightarrow> writer \<Rightarrow> unit res \<times> writer" where
  "quic_send quic_io msg w =
     (if length msg > MAX_MESSAGE_LEN
      then (Inl (Protocol (''message too large: '' @ show_nat (length msg))), w)
      else bind_st (lift_io (write_u32 (of_nat (length msg)) w)) (\<lambda>_ w1.
           (case write_all msg w1 of
              (Inl e, w2) \<Rightarrow> (Inl (Transport (''quic write: '' @ quic_io e)), w2)
            | (Inr u, w2) \<Rightarrow> (Inr (), w2))))"

definition quic_recv :: "(io_error \<Rightarrow> string) \<Rightarrow> reader \<Rightarrow> bytes res \<times> reader" where
  "quic_recv quic_io r =
     (case read_u32 r of
        (Inl e, r1) \<Rightarrow> (Inl (header_err e), r1)
      | (Inr l, r1) \<Rightarrow>
          (let len = unat l in
           if len > MAX_MESSAGE_LEN
           then (Inl (Protocol (''frame too large: '' @ show_nat len)), r1)
           else (case read_exact len r1 of
                   (Inl e, r2) \<Rightarrow> (Inl (Transport (''quic read: '' @ quic_io e)), r2)
                 | (Inr b, r2) \<Rightarrow> (Inr b, r2))))"

lemma quic_send_healthy:
  "healthy w \<Longrightarrow> ld_fits m \<Longrightarrow> quic_send qe m w = (Inr (), w\<lparr>w_sent := w_sent w @ ld_wire m\<rparr>)"
  by (simp add: quic_send_def ld_fits_def ld_wire_def write_u32_def)

lemma quic_recv_wire:
  "ld_fits m \<Longrightarrow> r_avail r = ld_wire m @ rest \<Longrightarrow> quic_recv qe r = (Inr m, r\<lparr>r_avail := rest\<rparr>)"
  by (simp add: quic_recv_def ld_wire_def unat_length_u32 Let_def)
     (simp add: ld_fits_def)

interpretation quic: message_link
  "\<lambda>m. pipe_write (quic_send qe m)" "pipe_read (quic_recv qe)" ld_fits pipe_up ld_carries
  for qe
proof unfold_locales
  fix l ms m
  assume "ld_carries l ms" "pipe_up l" "ld_fits m"
  then show "\<exists>l'. pipe_write (quic_send qe m) l = (Inr (), l') \<and> pipe_up l' \<and> ld_carries l' (ms @ [m])"
    by (simp add: pipe_write_def pipe_up_def ld_carries_def quic_send_healthy)
next
  fix l m ms
  assume "ld_carries l (m # ms)" "pipe_up l"
  then show "\<exists>l'. pipe_read (quic_recv qe) l = (Inr m, l') \<and> pipe_up l' \<and> ld_carries l' ms"
    by (auto simp: pipe_read_def pipe_up_def ld_carries_def quic_recv_wire)
next
  fix m and l :: pipe
  assume "\<not> ld_fits m"
  then show "\<exists>e. pipe_write (quic_send qe m) l = (Inl e, l)"
    by (simp add: pipe_write_def quic_send_def ld_fits_def)
qed

section \<open>WebSocket messages\<close>

datatype ws_message = Binary bytes | TextMsg string | WsPing bytes | WsPong bytes | WsClose

datatype ws_error = ConnectionClosed | AlreadyClosed | WsOther string

fun ws_err :: "ws_error \<Rightarrow> error" where
  "ws_err ConnectionClosed = Closed"
| "ws_err AlreadyClosed = Closed"
| "ws_err (WsOther e) = Transport (''ws: '' @ e)"

text \<open>The sink accepts messages until \<open>ws_fault\<close> says it fails; the stream yields items and ends.\<close>

record ws_link =
  ws_sent :: "ws_message list"
  ws_fault :: "nat \<Rightarrow> ws_error option"
  ws_in :: "(ws_error + ws_message) list"

definition ws_push :: "ws_message \<Rightarrow> ws_link \<Rightarrow> (ws_error + unit) \<times> ws_link" where
  "ws_push m l =
     (case ws_fault l (length (ws_sent l)) of
        Some e \<Rightarrow> (Inl e, l)
      | None \<Rightarrow> (Inr (), l\<lparr>ws_sent := ws_sent l @ [m], ws_in := ws_in l @ [Inr m]\<rparr>))"

definition ws_send :: "bytes \<Rightarrow> ws_link \<Rightarrow> unit res \<times> ws_link" where
  "ws_send msg l = (case ws_push (Binary msg) l of (r, l') \<Rightarrow> (map_err ws_err r, l'))"

definition ws_close :: "ws_link \<Rightarrow> unit res \<times> ws_link" where
  "ws_close l = (Inr (), snd (ws_push WsClose l))"

fun ws_next :: "(ws_error + ws_message) list \<Rightarrow> bytes res \<times> (ws_error + ws_message) list" where
  "ws_next [] = (Inl Closed, [])"
| "ws_next (Inr (Binary b) # r) = (Inr b, r)"
| "ws_next (Inr WsClose # r) = (Inl Closed, r)"
| "ws_next (Inr _ # r) = ws_next r"
| "ws_next (Inl e # r) = (Inl (ws_err e), r)"

definition ws_recv :: "ws_link \<Rightarrow> bytes res \<times> ws_link" where
  "ws_recv l = (case ws_next (ws_in l) of (x, r) \<Rightarrow> (x, l\<lparr>ws_in := r\<rparr>))"

fun binaries :: "(ws_error + ws_message) list \<Rightarrow> bytes list" where
  "binaries [] = []"
| "binaries (Inr (Binary b) # r) = b # binaries r"
| "binaries (_ # r) = binaries r"

fun ws_open_item :: "ws_error + ws_message \<Rightarrow> bool" where
  "ws_open_item (Inl _) = False"
| "ws_open_item (Inr WsClose) = False"
| "ws_open_item (Inr _) = True"

definition ws_carries :: "ws_link \<Rightarrow> bytes list \<Rightarrow> bool" where
  "ws_carries l ms \<longleftrightarrow> binaries (ws_in l) = ms \<and> list_all ws_open_item (ws_in l)"

definition ws_up :: "ws_link \<Rightarrow> bool" where
  "ws_up l \<longleftrightarrow> ws_fault l = (\<lambda>_. None)"

lemma binaries_append: "binaries (xs @ ys) = binaries xs @ binaries ys"
  by (induction xs rule: binaries.induct) auto

lemma ws_next_binary:
  "list_all ws_open_item xs \<Longrightarrow> binaries xs = m # ms \<Longrightarrow>
   \<exists>r. ws_next xs = (Inr m, r) \<and> list_all ws_open_item r \<and> binaries r = ms"
  by (induction xs rule: ws_next.induct) auto

interpretation ws: message_link ws_send ws_recv "\<lambda>_. True" ws_up ws_carries
proof unfold_locales
  fix l ms m
  assume "ws_carries l ms" "ws_up l"
  then show "\<exists>l'. ws_send m l = (Inr (), l') \<and> ws_up l' \<and> ws_carries l' (ms @ [m])"
    by (simp add: ws_send_def ws_push_def ws_up_def ws_carries_def binaries_append)
next
  fix l m ms
  assume c: "ws_carries l (m # ms)" and u: "ws_up l"
  then obtain r where "ws_next (ws_in l) = (Inr m, r)" "list_all ws_open_item r" "binaries r = ms"
    using ws_next_binary unfolding ws_carries_def by blast
  with u show "\<exists>l'. ws_recv l = (Inr m, l') \<and> ws_up l' \<and> ws_carries l' ms"
    by (simp add: ws_recv_def ws_up_def ws_carries_def)
qed simp

section \<open>Noise over raw TCP\<close>

definition NOISE_MAX_PLAINTEXT :: nat where
  "NOISE_MAX_PLAINTEXT = 65519"

type_synonym 'ts noise_fun = "'ts \<Rightarrow> bytes \<Rightarrow> string + bytes \<times> 'ts"

text \<open>A sink is a writer and the transport state; the state reached by \<open>write_message\<close> is kept even
  when the write after it fails, as the mutex-guarded state of the source is.\<close>

definition noise_send ::
  "'ts noise_fun \<Rightarrow> bytes \<Rightarrow> writer \<times> 'ts \<Rightarrow> unit res \<times> (writer \<times> 'ts)" where
  "noise_send write_message msg s =
     (case s of (w, ts) \<Rightarrow>
      if length msg > NOISE_MAX_PLAINTEXT
      then (Inl (Protocol (''noise message too large: '' @ show_nat (length msg)
              @ '' (max '' @ show_nat NOISE_MAX_PLAINTEXT @ '')'')), s)
      else (case write_message ts msg of
              Inl e \<Rightarrow> (Inl (Crypto (''noise encrypt: '' @ e)), s)
            | Inr (c, ts') \<Rightarrow>
                (case bind_st (lift_io (write_u16 (of_nat (length c)) w)) (\<lambda>_ w1.
                      bind_st (lift_io (write_all c w1)) (\<lambda>_ w2. lift_io (flush w2))) of
                   (r, w') \<Rightarrow> (r, (w', ts')))))"

definition noise_recv ::
  "'ts noise_fun \<Rightarrow> reader \<times> 'ts \<Rightarrow> bytes res \<times> (reader \<times> 'ts)" where
  "noise_recv read_message s =
     (case s of (r, ts) \<Rightarrow>
      (case read_u16 r of
         (Inl e, r1) \<Rightarrow> (Inl (header_err e), (r1, ts))
       | (Inr l, r1) \<Rightarrow>
           (case read_exact (unat l) r1 of
              (Inl e, r2) \<Rightarrow> (Inl (Io e), (r2, ts))
            | (Inr cipher, r2) \<Rightarrow>
                (case read_message ts cipher of
                   Inl e \<Rightarrow> (Inl (Crypto (''noise decrypt: '' @ e)), (r2, ts))
                 | Inr (out, ts') \<Rightarrow> (Inr out, (r2, ts'))))))"

text \<open>What the code relies on: states in step encrypt and decrypt alike, with a 16-byte tag.\<close>

definition aead_laws :: "'ts noise_fun \<Rightarrow> 'ts noise_fun \<Rightarrow> ('ts \<Rightarrow> 'ts \<Rightarrow> bool) \<Rightarrow> bool" where
  "aead_laws write_message read_message in_step \<longleftrightarrow>
     (\<forall>a b m. in_step a b \<longrightarrow> length m \<le> NOISE_MAX_PLAINTEXT \<longrightarrow>
        (\<exists>c a' b'. write_message a m = Inr (c, a') \<and> length c = length m + 16
           \<and> read_message b c = Inr (m, b') \<and> in_step a' b'))"

record 'ts noise_link =
  n_pipe :: pipe
  n_tx :: 'ts
  n_rx :: 'ts

definition noise_link_send :: "'ts noise_fun \<Rightarrow> bytes \<Rightarrow> 'ts noise_link \<Rightarrow> unit res \<times> 'ts noise_link" where
  "noise_link_send wm msg l =
     (case noise_send wm msg (p_out (n_pipe l), n_tx l) of (x, (w', ts')) \<Rightarrow>
        (x, l\<lparr>n_pipe := snd (pipe_write (\<lambda>_. (x, w')) (n_pipe l)), n_tx := ts'\<rparr>))"

definition noise_link_recv :: "'ts noise_fun \<Rightarrow> 'ts noise_link \<Rightarrow> bytes res \<times> 'ts noise_link" where
  "noise_link_recv rm l =
     (case noise_recv rm (p_in (n_pipe l), n_rx l) of (x, (r', ts')) \<Rightarrow>
        (x, l\<lparr>n_pipe := (n_pipe l)\<lparr>p_in := r'\<rparr>, n_rx := ts'\<rparr>))"

definition noise_fits :: "bytes \<Rightarrow> bool" where
  "noise_fits m \<longleftrightarrow> length m \<le> NOISE_MAX_PLAINTEXT"

definition noise_up :: "'ts noise_link \<Rightarrow> bool" where
  "noise_up l \<longleftrightarrow> healthy (p_out (n_pipe l))"

text \<open>Messages in flight: from a sender state in step with the receiver, the bytes of the wire are
  the successive ciphertexts and the sender has reached its present state.\<close>

fun in_flight :: "'ts noise_fun \<Rightarrow> 'ts \<Rightarrow> bytes list \<Rightarrow> bytes \<Rightarrow> 'ts \<Rightarrow> bool" where
  "in_flight wm a [] bs z \<longleftrightarrow> bs = [] \<and> a = z"
| "in_flight wm a (m # ms) bs z \<longleftrightarrow>
     noise_fits m \<and>
     (case wm a m of
        Inl e \<Rightarrow> False
      | Inr (c, a') \<Rightarrow>
          (let hd_len = 2 + length c in
           take hd_len bs = be16 (of_nat (length c)) @ c \<and> in_flight wm a' ms (drop hd_len bs) z))"

definition noise_carries ::
  "'ts noise_fun \<Rightarrow> ('ts \<Rightarrow> 'ts \<Rightarrow> bool) \<Rightarrow> 'ts noise_link \<Rightarrow> bytes list \<Rightarrow> bool" where
  "noise_carries wm in_step l ms \<longleftrightarrow>
     (\<exists>a. in_step a (n_rx l) \<and> in_flight wm a ms (r_avail (p_in (n_pipe l))) (n_tx l))"

lemma in_flight_snoc:
  assumes "in_flight wm a ms bs z" and "noise_fits m" and "wm z m = Inr (c, z')"
  shows "in_flight wm a (ms @ [m]) (bs @ be16 (of_nat (length c)) @ c) z'"
  using assms
proof (induction ms arbitrary: a bs)
  case Nil
  then show ?case by (simp add: Let_def)
next
  case (Cons m1 ms)
  then obtain c1 a1 where e: "wm a m1 = Inr (c1, a1)" "noise_fits m1"
    and hd: "take (2 + length c1) bs = be16 (of_nat (length c1)) @ c1"
    and tl: "in_flight wm a1 ms (drop (2 + length c1) bs) z"
    by (auto simp: Let_def split: sum.splits)
  from hd have "2 + length c1 \<le> length bs"
    by (metis add.commute length_append length_be16 length_take min.absorb_iff2 min.commute)
  with Cons.IH [OF tl Cons.prems(2,3)] e hd show ?case by (simp add: Let_def)
qed

lemma unat_length_u16: "n \<le> 65535 \<Longrightarrow> unat (of_nat n :: u16) = n"
  by (simp add: unat_of_nat)

lemma noise_send_healthy:
  assumes "healthy w" and "noise_fits m" and "wm ts m = Inr (c, ts')"
  shows "noise_send wm m (w, ts) =
           (Inr (), (w\<lparr>w_sent := w_sent w @ be16 (of_nat (length c)) @ c\<rparr>, ts'))"
  using assms by (simp add: noise_send_def noise_fits_def write_u16_def)

lemma noise_recv_wire:
  assumes "r_avail r = be16 (of_nat (length c)) @ c @ rest" and "length c \<le> 65535"
    and "rm ts c = Inr (m, ts')"
  shows "noise_recv rm (r, ts) = (Inr m, (r\<lparr>r_avail := rest\<rparr>, ts'))"
  using assms by (simp add: noise_recv_def unat_length_u16)

lemma in_flight_in_step:
  assumes "aead_laws wm rm in_step" and "in_step a b" and "in_flight wm a ms bs z"
  shows "\<exists>b'. in_step z b'"
  using assms(2,3)
proof (induction ms arbitrary: a b bs)
  case Nil
  then show ?case by auto
next
  case (Cons m ms)
  then have "length m \<le> NOISE_MAX_PLAINTEXT" by (simp add: noise_fits_def)
  with assms(1) Cons.prems(1) obtain c a' b' where "wm a m = Inr (c, a')" "in_step a' b'"
    unfolding aead_laws_def by blast
  with Cons show ?case by (auto simp: Let_def)
qed

text \<open>Under the laws of the AEAD the Noise channel is a message link.\<close>

lemma noise_message_link:
  assumes "aead_laws wm rm in_step"
  shows "message_link (noise_link_send wm) (noise_link_recv rm) noise_fits noise_up
           (noise_carries wm in_step)"
proof
  fix l ms m
  assume c: "noise_carries wm in_step l ms" and u: "noise_up l" and f: "noise_fits m"
  from c obtain a where st: "in_step a (n_rx l)"
    and fl: "in_flight wm a ms (r_avail (p_in (n_pipe l))) (n_tx l)"
    by (auto simp: noise_carries_def)
  from in_flight_in_step [OF assms st fl] f assms obtain cph z where
    enc: "wm (n_tx l) m = Inr (cph, z)"
    unfolding aead_laws_def noise_fits_def by blast
  have "in_flight wm a (ms @ [m]) (r_avail (p_in (n_pipe l)) @ be16 (of_nat (length cph)) @ cph) z"
    using in_flight_snoc [OF fl f enc] .
  moreover have "noise_send wm m (p_out (n_pipe l), n_tx l) = (Inr (),
      ((p_out (n_pipe l))\<lparr>w_sent := w_sent (p_out (n_pipe l)) @ be16 (of_nat (length cph)) @ cph\<rparr>, z))"
    using noise_send_healthy [of "p_out (n_pipe l)" m wm] u f enc by (simp add: noise_up_def)
  ultimately show "\<exists>l'. noise_link_send wm m l = (Inr (), l') \<and> noise_up l' \<and> noise_carries wm in_step l' (ms @ [m])"
    using st u by (auto simp: noise_link_send_def noise_up_def noise_carries_def pipe_write_def)
next
  fix l m ms
  assume c: "noise_carries wm in_step l (m # ms)" and u: "noise_up l"
  then obtain a where st: "in_step a (n_rx l)" and fl: "in_flight wm a (m # ms) (r_avail (p_in (n_pipe l))) (n_tx l)"
    by (auto simp: noise_carries_def)
  from fl have "length m \<le> NOISE_MAX_PLAINTEXT" by (simp add: noise_fits_def)
  with assms st obtain cph a' b' where enc: "wm a m = Inr (cph, a')" "length cph = length m + 16"
    and dec: "rm (n_rx l) cph = Inr (m, b')" and st': "in_step a' b'"
    unfolding aead_laws_def by blast
  let ?r = "p_in (n_pipe l)" and ?n = "2 + length cph"
  from fl enc have hd: "take ?n (r_avail ?r) = be16 (of_nat (length cph)) @ cph"
    and tl: "in_flight wm a' ms (drop ?n (r_avail ?r)) (n_tx l)"
    by (simp_all add: Let_def)
  from hd have "r_avail ?r = be16 (of_nat (length cph)) @ cph @ drop ?n (r_avail ?r)"
    by (metis append.assoc append_take_drop_id)
  moreover have "length cph \<le> 65535"
    using enc(2) \<open>length m \<le> NOISE_MAX_PLAINTEXT\<close> by (simp add: NOISE_MAX_PLAINTEXT_def)
  ultimately have "noise_recv rm (?r, n_rx l) = (Inr m, (?r\<lparr>r_avail := drop ?n (r_avail ?r)\<rparr>, b'))"
    using dec by (rule noise_recv_wire)
  with st' tl u show "\<exists>l'. noise_link_recv rm l = (Inr m, l') \<and> noise_up l' \<and> noise_carries wm in_step l' ms"
    by (auto simp: noise_link_recv_def noise_up_def noise_carries_def)
next
  fix m and l :: "'a noise_link"
  assume "\<not> noise_fits m"
  then show "\<exists>e. noise_link_send wm m l = (Inl e, l)"
    by (simp add: noise_link_send_def noise_send_def noise_fits_def pipe_write_def)
qed

end
