(* ===== verification/Frame_Channel.thy ===== *)
theory Frame_Channel
  imports Transports
begin

text \<open>
  \<open>FrameWriter\<close> and \<open>FrameReader\<close> of \<open>core/core/src/protocol/mod.rs\<close> over any transport. Frames
  are encoded by the third-party crate \<open>bincode\<close>: \<open>serialize\<close> and \<open>deserialize\<close> are arguments. A frame
  is transportable when it is encoded, decoded back, and fits the transport. The interface
  \<open>message_link\<close> gives the refinement: any schedule of frame sends and receives is a queue of frames.
\<close>

type_synonym serializer = "frame \<Rightarrow> string + bytes"
type_synonym deserializer = "bytes \<Rightarrow> string + frame"

definition frame_send ::
  "serializer \<Rightarrow> (bytes \<Rightarrow> 'l \<Rightarrow> unit res \<times> 'l) \<Rightarrow> frame \<Rightarrow> 'l \<Rightarrow> unit res \<times> 'l" where
  "frame_send serialize send f l =
     (case serialize f of Inl e \<Rightarrow> (Inl (Codec e), l) | Inr bs \<Rightarrow> send bs l)"

definition frame_recv ::
  "deserializer \<Rightarrow> ('l \<Rightarrow> bytes res \<times> 'l) \<Rightarrow> 'l \<Rightarrow> frame res \<times> 'l" where
  "frame_recv deserialize recv l =
     bind_st (recv l) (\<lambda>bs l'. (map_err Codec (deserialize bs), l'))"

text \<open>A schedule of sends (\<open>Some f\<close>) and receives (\<open>None\<close>); the abstract machine is a queue.\<close>

fun frame_run ::
  "(frame \<Rightarrow> 'l \<Rightarrow> unit res \<times> 'l) \<Rightarrow> ('l \<Rightarrow> frame res \<times> 'l) \<Rightarrow> frame option list \<Rightarrow> 'l \<Rightarrow>
   frame list res \<times> 'l" where
  "frame_run tx rx [] l = (Inr [], l)"
| "frame_run tx rx (Some f # ops) l = bind_st (tx f l) (\<lambda>_ l'. frame_run tx rx ops l')"
| "frame_run tx rx (None # ops) l =
     bind_st (rx l) (\<lambda>f l'. bind_st (frame_run tx rx ops l') (\<lambda>fs l''. (Inr (f # fs), l'')))"

fun frame_queue :: "frame option list \<Rightarrow> frame list \<Rightarrow> (frame list \<times> frame list) option" where
  "frame_queue [] q = Some ([], q)"
| "frame_queue (Some f # ops) q = frame_queue ops (q @ [f])"
| "frame_queue (None # ops) q =
     (case q of [] \<Rightarrow> None
      | f # q' \<Rightarrow> map_option (\<lambda>(fs, q''). (f # fs, q'')) (frame_queue ops q'))"

definition transportable ::
  "serializer \<Rightarrow> deserializer \<Rightarrow> (bytes \<Rightarrow> bool) \<Rightarrow> frame \<Rightarrow> bool" where
  "transportable serialize deserialize fits f \<longleftrightarrow>
     (case serialize f of Inl e \<Rightarrow> False | Inr bs \<Rightarrow> fits bs \<and> deserialize bs = Inr f)"

context message_link
begin

definition carries_frames :: "serializer \<Rightarrow> 'l \<Rightarrow> frame list \<Rightarrow> bool" where
  "carries_frames ser l fs \<longleftrightarrow> (\<exists>ms. map ser fs = map Inr ms \<and> carries l ms)"

lemma frame_send_carries:
  assumes "carries_frames ser l q" and "up l" and "transportable ser de fits f"
  shows "\<exists>l'. frame_send ser send f l = (Inr (), l') \<and> up l' \<and> carries_frames ser l' (q @ [f])"
proof -
  from assms(3) obtain bs where bs: "ser f = Inr bs" "fits bs"
    by (auto simp: transportable_def split: sum.splits)
  from assms(1) obtain ms where ms: "map ser q = map Inr ms" "carries l ms"
    by (auto simp: carries_frames_def)
  from send_carries [OF ms(2) assms(2) bs(2)] obtain l' where
    "send bs l = (Inr (), l')" "up l'" "carries l' (ms @ [bs])" by blast
  moreover have "map ser (q @ [f]) = map Inr (ms @ [bs])" using ms(1) bs(1) by simp
  ultimately show ?thesis
    using bs(1) unfolding carries_frames_def frame_send_def by (metis sum.case(2))
qed

lemma frame_recv_carries:
  assumes "carries_frames ser l (f # q)" and "up l" and "transportable ser de fits f"
  shows "\<exists>l'. frame_recv de recv l = (Inr f, l') \<and> up l' \<and> carries_frames ser l' q"
proof -
  from assms(1) obtain m ms where ms: "ser f = Inr m" "map ser q = map Inr ms" "carries l (m # ms)"
    by (auto simp: carries_frames_def Cons_eq_map_conv map_eq_Cons_conv)
  with assms(3) have "de m = Inr f" by (simp add: transportable_def)
  moreover from recv_carries [OF ms(3) assms(2)] obtain l' where
    "recv l = (Inr m, l')" "up l'" "carries l' ms" by blast
  ultimately show ?thesis
    using ms(2) unfolding carries_frames_def frame_recv_def by auto
qed

lemma frames_refine_queue:
  assumes "carries_frames ser l q" and "up l"
    and "\<forall>f \<in> set q \<union> {f. Some f \<in> set ops}. transportable ser de fits f"
    and "frame_queue ops q = Some (fs, q')"
  shows "\<exists>l'. frame_run (frame_send ser send) (frame_recv de recv) ops l = (Inr fs, l')
              \<and> up l' \<and> carries_frames ser l' q'"
  using assms
proof (induction ops q arbitrary: l fs rule: frame_queue.induct)
  case (1 q)
  then show ?case by auto
next
  case (2 f ops q)
  then obtain l1 where s: "frame_send ser send f l = (Inr (), l1)"
    and l1: "up l1" "carries_frames ser l1 (q @ [f])"
    using frame_send_carries [of ser l q de f] by auto
  have "\<forall>g \<in> set (q @ [f]) \<union> {g. Some g \<in> set ops}. transportable ser de fits g"
    using 2(4) by auto
  from "2.IH" [OF l1(2,1) this] 2(5) s show ?case by auto
next
  case (3 ops q)
  then obtain f q1 fs1 where q: "q = f # q1" and fs: "fs = f # fs1"
    and run: "frame_queue ops q1 = Some (fs1, q')"
    by (auto split: list.splits)
  with "3.prems" obtain l1 where r: "frame_recv de recv l = (Inr f, l1)"
    and l1: "up l1" "carries_frames ser l1 q1"
    using frame_recv_carries [of ser l f q1 de] by auto
  have "\<forall>g \<in> set q1 \<union> {g. Some g \<in> set ops}. transportable ser de fits g"
    using "3.prems"(3) q by auto
  from "3.IH" [OF q l1(2,1) this run] r fs show ?case by auto
qed

text \<open>A message too large for the transport, or a frame the codec refuses, leaves the link as it was.\<close>

lemma frame_send_error:
  assumes "\<forall>bs. ser f = Inr bs \<longrightarrow> \<not> fits bs"
  shows "\<exists>e. frame_send ser send f l = (Inl e, l)"
  using assms send_refuses by (auto simp: frame_send_def split: sum.splits)

end

section \<open>A link with nothing on it\<close>

text \<open>A link that carries nothing has nothing to receive. With it a received frame is the first of those sent, and a
  frame that was sent is the last.\<close>

definition codec_laws :: "serializer \<Rightarrow> deserializer \<Rightarrow> bool" where
  "codec_laws ser de \<longleftrightarrow> (\<forall>f bs. ser f = Inr bs \<longrightarrow> de bs = Inr f)"

locale exact_link = message_link +
  assumes recv_nothing: "carries l [] \<Longrightarrow> up l \<Longrightarrow> \<exists>e l'. recv l = (Inl e, l')"
begin

lemma sent_frame:
  assumes "codec_laws ser de" and "carries_frames ser l q" and "up l" and "frame_send ser send f l = (Inr x, l')"
  shows "up l' \<and> carries_frames ser l' (q @ [f])"
proof -
  from assms(4) obtain bs where bs: "ser f = Inr bs" "send bs l = (Inr x, l')"
    by (auto simp: frame_send_def split: sum.splits)
  have "fits bs"
  proof (rule ccontr)
    assume "\<not> fits bs"
    from send_refuses [OF this, of l] bs(2) show False by auto
  qed
  with assms(1) bs(1) have "transportable ser de fits f"
    by (simp add: transportable_def codec_laws_def)
  from frame_send_carries [OF assms(2,3) this] assms(4) show ?thesis by auto
qed

lemma received_frame:
  assumes "codec_laws ser de" and "carries_frames ser l q" and "up l" and "frame_recv de recv l = (Inr f, l')"
  shows "\<exists>q'. q = f # q' \<and> up l' \<and> carries_frames ser l' q'"
proof -
  from assms(2) obtain ms where ms: "map ser q = map Inr ms" "carries l ms"
    unfolding carries_frames_def by blast
  show ?thesis
  proof (cases ms)
    case Nil
    with recv_nothing [of l] ms(2) assms(3,4) show ?thesis by (auto simp: frame_recv_def)
  next
    case (Cons m ms')
    with ms(1) obtain g q' where q: "q = g # q'" "ser g = Inr m" "map ser q' = map Inr ms'" by auto
    from Cons ms(2) recv_carries [of l m ms'] assms(3) obtain l1 where
      l1: "recv l = (Inr m, l1)" "up l1" "carries l1 ms'" by blast
    from assms(1) q(2) have "de m = Inr g" unfolding codec_laws_def by blast
    with assms(4) l1 q show ?thesis unfolding carries_frames_def frame_recv_def by auto
  qed
qed

lemma receivable_frame:
  assumes "codec_laws ser de" and "carries_frames ser l (f # q)" and "up l"
  shows "\<exists>l'. frame_recv de recv l = (Inr f, l')"
proof -
  from assms(2) obtain m ms where ms: "ser f = Inr m" "carries l (m # ms)"
    unfolding carries_frames_def by (auto simp: Cons_eq_map_conv map_eq_Cons_conv)
  from assms(1) ms(1) have "de m = Inr f" unfolding codec_laws_def by blast
  with recv_carries [OF ms(2) assms(3)] show ?thesis by (auto simp: frame_recv_def)
qed

end

lemma ld_recv_nothing: "r_avail r = [] \<Longrightarrow> \<exists>e r'. ld_recv r = (Inl e, r')"
  by (simp add: ld_recv_def read_u32_def read_exact_def)

lemma quic_recv_nothing: "r_avail r = [] \<Longrightarrow> \<exists>e r'. quic_recv qe r = (Inl e, r')"
  by (simp add: quic_recv_def read_u32_def read_exact_def)

lemma ws_next_nothing: "list_all ws_open_item xs \<Longrightarrow> binaries xs = [] \<Longrightarrow> ws_next xs = (Inl Closed, [])"
  by (induction xs rule: ws_next.induct) auto

interpretation ld_exact: exact_link
  "\<lambda>m. pipe_write (ld_send m)" "pipe_read ld_recv" ld_fits pipe_up ld_carries
proof unfold_locales
  fix l :: pipe
  assume "ld_carries l []"
  then obtain e r' where "ld_recv (p_in l) = (Inl e, r')"
    using ld_recv_nothing [of "p_in l"] by (auto simp: ld_carries_def)
  then show "\<exists>e l'. pipe_read ld_recv l = (Inl e, l')" by (simp add: pipe_read_def)
qed

interpretation quic_exact: exact_link
  "\<lambda>m. pipe_write (quic_send qe m)" "pipe_read (quic_recv qe)" ld_fits pipe_up ld_carries
  for qe
proof unfold_locales
  fix l :: pipe
  assume "ld_carries l []"
  then obtain e r' where "quic_recv qe (p_in l) = (Inl e, r')"
    using quic_recv_nothing [of "p_in l" qe] by (auto simp: ld_carries_def)
  then show "\<exists>e l'. pipe_read (quic_recv qe) l = (Inl e, l')" by (simp add: pipe_read_def)
qed

interpretation ws_exact: exact_link ws_send ws_recv "\<lambda>_. True" ws_up ws_carries
  by unfold_locales (simp add: ws_recv_def ws_carries_def ws_next_nothing)

lemma noise_exact_link:
  assumes "aead_laws wm rm in_step"
  shows "exact_link (noise_link_send wm) (noise_link_recv rm) noise_fits noise_up (noise_carries wm in_step)"
proof (intro exact_link.intro noise_message_link [OF assms] exact_link_axioms.intro)
  fix l :: "'a noise_link"
  assume "noise_carries wm in_step l []"
  then have "r_avail (p_in (n_pipe l)) = []" by (auto simp: noise_carries_def)
  then show "\<exists>e l'. noise_link_recv rm l = (Inl e, l')"
    by (simp add: noise_link_recv_def noise_recv_def read_u16_def read_exact_def)
qed

section \<open>The transports carry frames in order\<close>

definition empty_pipe :: pipe where
  "empty_pipe = \<lparr>p_out = \<lparr>w_sent = [], w_fault = \<lambda>_. None, w_flush = \<lambda>_. None\<rparr>,
     p_in = \<lparr>r_avail = [], r_end = UnexpectedEof\<rparr>\<rparr>"

lemma empty_pipe_ld: "ld_carries empty_pipe [] \<and> pipe_up empty_pipe"
  by (simp add: empty_pipe_def ld_carries_def pipe_up_def healthy_def)

lemma carries_frames_Nil: "ld_carries l [] \<Longrightarrow> ld.carries_frames ser l []"
  by (simp add: ld.carries_frames_def)

lemma noise_carries_frames_Nil:
  assumes "aead_laws wm rm in_step" and "in_step a b"
  shows "message_link.carries_frames (noise_carries wm in_step) ser
           \<lparr>n_pipe = empty_pipe, n_tx = a, n_rx = b\<rparr> []"
  using assms
  by (simp add: message_link.carries_frames_def [OF noise_message_link [OF assms(1)]]
      noise_carries_def empty_pipe_def)

section \<open>A concrete codec and cipher\<close>

text \<open>Instances for the witnesses: a codec for keepalives and packets, and a cipher that appends a tag
  and counts messages.\<close>

fun tag_ser :: serializer where
  "tag_ser Ping = Inr [3]"
| "tag_ser Pong = Inr [4]"
| "tag_ser (Packet p) = Inr (5 # p)"
| "tag_ser _ = Inl ''unsupported''"

fun tag_de :: deserializer where
  "tag_de bs = (case bs of b # p \<Rightarrow> (if b = 3 \<and> p = [] then Inr Ping else if b = 4 \<and> p = [] then Inr Pong
     else if b = 5 then Inr (Packet p) else Inl ''bad tag'') | [] \<Rightarrow> Inl ''empty'')"

definition seal :: "nat noise_fun" where
  "seal n m = Inr (m @ replicate 16 0, Suc n)"

definition unseal :: "nat noise_fun" where
  "unseal n c = Inr (take (length c - 16) c, Suc n)"

lemma seal_laws: "aead_laws seal unseal (=)"
  by (simp add: aead_laws_def seal_def unseal_def)

end
