(* ===== verification/Session.thy ===== *)
theory Session
  imports Metrics Frame_Channel
begin

text \<open>
  The session handler of \<open>server/src/session.rs\<close>: the shared state, the derived IPv6 address, the TUN
  demultiplexer, the remote streams of proxy sessions, and \<open>handle_connection\<close> from the first frame to
  the close. The \<open>async\<close> tasks run interleaved, so each loop is given as the step it repeats; the server
  machine composes the steps. A frame sink is any type with a send function (the frame channels provide
  them). The TUN device keeps the packets handed to it; \<open>send(..).await\<close> on a channel is a \<open>try_send\<close>
  that waits until it is accepted.
\<close>

section \<open>State\<close>

text \<open>A spawned remote-stream task: its stream, its target, the session whose queue it answers on, the
  channel it is fed by, where it is, and the bytes it has written to the remote socket. \<open>Pumping b\<close> says
  whether the remote-to-client half still runs.\<close>

datatype remote_phase = Dialing | Pumping bool | Finished

record 'r remote =
  rm_stream :: u32
  rm_target :: target_addr
  rm_out :: nat
  rm_queue :: 'r
  rm_phase :: remote_phase
  rm_written :: bytes

record ('q, 'r) app_state =
  config :: server_config
  router_of :: router
  tun :: "bytes list option"
  metrics_of :: metrics
  ipv6_on :: bool
  queues :: "nat \<Rightarrow> 'q"
  counters_of :: "nat \<Rightarrow> counters"
  remotes :: "nat \<rightharpoonup> 'r remote"
  next_session :: nat
  next_remote :: nat

text \<open>What one handler keeps between frames: the number that stands for its queue and counters, the peer
  record it resolved, the mode and membership of the hello, the assigned IPv6 and the stream table.\<close>

record session =
  ss_id :: nat
  ss_peer :: peer_config
  ss_mode :: session_mode
  ss_member :: bool
  ss_ip6 :: "ipv6 option"
  ss_streams :: "(u32 \<times> nat) list"

section \<open>Addresses and the TUN demultiplexer\<close>

definition derive_ipv6 :: "ipv6 \<times> u8 \<Rightarrow> ipv4 \<Rightarrow> ipv6" where
  "derive_ipv6 subnet6 v4 = ipv6_of_octets (take 12 (octets6 (fst subnet6)) @ be32 v4)"

text \<open>One turn of \<open>run_tun_router\<close> for a packet read off the device: what is delivered to whom.\<close>

definition run_tun_router ::
  "('q, 'r) runtime \<Rightarrow> bytes \<Rightarrow> ('q, 'r) app_state \<Rightarrow> ('q, 'r) app_state" where
  "run_tun_router rt pkt st =
     (let n = length pkt in
      if n \<ge> 20 then
        (let v = drop_bit 4 (pkt ! 0) in
         if v = 4 then
           (let dst = ipv4_new (pkt ! 16) (pkt ! 17) (pkt ! 18) (pkt ! 19)
            in st\<lparr>queues := snd (deliver rt (router_of st) dst (Packet pkt) (queues st))\<rparr>)
         else if v = 6 \<and> n \<ge> 40 then
           (let dst = ipv6_of_octets (take 16 (drop 24 pkt))
            in st\<lparr>queues := snd (deliver6 rt (router_of st) dst (Packet pkt) (queues st))\<rparr>)
         else st)
      else st)"

section \<open>Remote streams\<close>

definition dial_addr :: "target_addr \<Rightarrow> string" where
  "dial_addr target = (case target of TargetDomain h p \<Rightarrow> h @ '':'' @ show_u16 p
                       | TargetIp sa \<Rightarrow> show_socket_addr sa)"

definition open_remote_stream ::
  "('q, 'r) runtime \<Rightarrow> u32 \<Rightarrow> target_addr \<Rightarrow> nat \<Rightarrow> ('q, 'r) app_state \<Rightarrow> nat \<times> ('q, 'r) app_state" where
  "open_remote_stream rt i target session_out st =
     (let r = next_remote st
      in (r, st\<lparr>next_remote := Suc r,
               remotes := (remotes st)(r \<mapsto> \<lparr>rm_stream = i, rm_target = target, rm_out = session_out,
                 rm_queue = channel_d rt 256, rm_phase = Dialing, rm_written = []\<rparr>)\<rparr>))"

text \<open>The task's own steps. \<open>send_out\<close> is \<open>session_out.send(f).await\<close>: \<open>None\<close> while the session queue is
  full, else whether it was accepted (not when the session's receiver is gone).\<close>

definition send_out ::
  "('q, 'r) runtime \<Rightarrow> nat \<Rightarrow> frame \<Rightarrow> ('q, 'r) app_state \<Rightarrow> (bool \<times> ('q, 'r) app_state) option" where
  "send_out rt tx f st =
     (if closed_f rt (queues st tx) then Some (False, st)
      else map_option (\<lambda>q. (True, st\<lparr>queues := (queues st)(tx := q)\<rparr>)) (try_send_f rt (queues st tx) f))"

definition set_remote :: "nat \<Rightarrow> 'r remote \<Rightarrow> ('q, 'r) app_state \<Rightarrow> ('q, 'r) app_state" where
  "set_remote r rm st = st\<lparr>remotes := (remotes st)(r \<mapsto> rm)\<rparr>"

text \<open>The end of the task drops the receiver of its channel.\<close>

definition finish_remote ::
  "('q, 'r) runtime \<Rightarrow> nat \<Rightarrow> 'r remote \<Rightarrow> ('q, 'r) app_state \<Rightarrow> ('q, 'r) app_state" where
  "finish_remote rt r rm st = set_remote r (rm\<lparr>rm_phase := Finished, rm_queue := drop_d rt (rm_queue rm)\<rparr>) st"

definition remote_dial ::
  "('q, 'r) runtime \<Rightarrow> nat \<Rightarrow> 'r remote \<Rightarrow> string + unit \<Rightarrow> ('q, 'r) app_state \<Rightarrow> ('q, 'r) app_state option" where
  "remote_dial rt r rm connected st =
     (case connected of
        Inl e \<Rightarrow> map_option (finish_remote rt r rm \<circ> snd)
                  (send_out rt (rm_out rm)
                    (StreamClose (rm_stream rm) (Some (''dial '' @ dial_addr (rm_target rm) @ '': '' @ e))) st)
      | Inr _ \<Rightarrow> Some (set_remote r (rm\<lparr>rm_phase := Pumping True\<rparr>) st))"

text \<open>A read of the remote socket: an error, end of file (no bytes) or up to 16384 bytes. After the
  loop the client is told that the stream is closed.\<close>

definition remote_eof ::
  "('q, 'r) runtime \<Rightarrow> nat \<Rightarrow> 'r remote \<Rightarrow> ('q, 'r) app_state \<Rightarrow> ('q, 'r) app_state option" where
  "remote_eof rt r rm st =
     map_option (set_remote r (rm\<lparr>rm_phase := Pumping False\<rparr>) \<circ> snd)
       (send_out rt (rm_out rm) (StreamClose (rm_stream rm) None) st)"

definition remote_read ::
  "('q, 'r) runtime \<Rightarrow> nat \<Rightarrow> 'r remote \<Rightarrow> io_error + bytes \<Rightarrow> ('q, 'r) app_state \<Rightarrow> ('q, 'r) app_state option" where
  "remote_read rt r rm got st =
     (case got of
        Inr (b # bs) \<Rightarrow>
          (case send_out rt (rm_out rm) (StreamData (rm_stream rm) (b # bs)) st of
             None \<Rightarrow> None
           | Some (True, st') \<Rightarrow> Some st'
           | Some (False, st') \<Rightarrow> remote_eof rt r rm st')
      | _ \<Rightarrow> remote_eof rt r rm st)"

text \<open>A turn of the client-to-remote loop: \<open>held\<close> says whether the session still holds the sender,
  \<open>written\<close> what \<open>write_all\<close> answers. The end of the loop aborts the other half.\<close>

definition remote_write ::
  "('q, 'r) runtime \<Rightarrow> nat \<Rightarrow> 'r remote \<Rightarrow> bool \<Rightarrow> io_error + unit \<Rightarrow> ('q, 'r) app_state \<Rightarrow>
   ('q, 'r) app_state option" where
  "remote_write rt r rm held written st =
     (case recv_d rt (rm_queue rm) of
        Some (data, q') \<Rightarrow>
          (case written of
             Inr _ \<Rightarrow> Some (set_remote r (rm\<lparr>rm_queue := q', rm_written := rm_written rm @ data\<rparr>) st)
           | Inl _ \<Rightarrow> Some (finish_remote rt r (rm\<lparr>rm_queue := q'\<rparr>) st))
      | None \<Rightarrow> if held then None else Some (finish_remote rt r rm st))"

section \<open>The handshake\<close>

text \<open>How a connection is turned away: without an answer, or with a reason.\<close>

datatype refusal = Drop | RejectWith string

definition version_text :: "u16 \<Rightarrow> string" where
  "version_text v = ''protocol version mismatch (server '' @ show_u16 PROTOCOL_VERSION @ '', client ''
     @ show_u16 v @ '')''"

definition check_hello :: "server_config \<Rightarrow> frame res \<Rightarrow> refusal + (hello_msg \<times> peer_config)" where
  "check_hello cfg first =
     (case first of
        Inr (Hello hello) \<Rightarrow>
          if h_version hello \<noteq> PROTOCOL_VERSION then Inl (RejectWith (version_text (h_version hello)))
          else (case find_peer cfg (h_token hello) of
                  Some peer \<Rightarrow>
                    if pc_enabled peer then
                      (if h_mode hello = GlobalProxy \<and> \<not> pc_allow_global peer
                       then Inl (RejectWith ''global proxy not allowed for this peer'')
                       else Inr (hello, peer))
                    else Inl (RejectWith ''peer is disabled'')
                | None \<Rightarrow> Inl (RejectWith ''unknown token''))
      | _ \<Rightarrow> Inl Drop)"

text \<open>The network parsers of \<open>ipnet\<close>, for the two subnets of the configuration.\<close>

record net_parsers =
  parse_net4 :: "string \<Rightarrow> string + ipv4 \<times> u8"
  parse_net6 :: "string \<Rightarrow> (ipv6 \<times> u8) option"

definition v6_params ::
  "net_parsers \<Rightarrow> server_config \<Rightarrow> bool \<Rightarrow> ipv4 \<Rightarrow> ipv6 option \<times> ipv6 option \<times> u8 \<times> ipv6 list" where
  "v6_params np cfg v6 assigned =
     (case (v6, subnet6_net (parse_net6 np) cfg) of
        (True, Some net6) \<Rightarrow> (Some (derive_ipv6 net6 assigned), nc_gateway6 (sc_network cfg), snd net6,
                              nc_dns6 (sc_network cfg))
      | _ \<Rightarrow> (None, None, 0, []))"

definition welcome_for ::
  "net_parsers \<Rightarrow> server_config \<Rightarrow> bool \<Rightarrow> 128 word \<Rightarrow> peer_config \<Rightarrow> welcome_msg" where
  "welcome_for np cfg v6 uuid peer =
     (case v6_params np cfg v6 (pc_ip peer) of (ip6, gw6, p6, d6) \<Rightarrow>
        \<lparr>w_session_id = uuid, w_assigned_ip = pc_ip peer,
         w_prefix_len = (case prefix_len (parse_net4 np) cfg of Inr n \<Rightarrow> n | Inl _ \<Rightarrow> 24),
         w_gateway = nc_gateway (sc_network cfg), w_mtu = nc_mtu (sc_network cfg),
         w_dns = nc_dns (sc_network cfg),
         w_assigned_ip6 = ip6, w_prefix6 = p6, w_gateway6 = gw6, w_dns6 = d6\<rparr>)"

definition vpn_member :: "hello_msg \<Rightarrow> bool" where
  "vpn_member hello \<longleftrightarrow> h_mode hello = Vpn \<or> h_join_vpn hello"

text \<open>The channel, the counters and the registration of a new session.\<close>

definition open_session ::
  "('q, 'r) runtime \<Rightarrow> u64 \<Rightarrow> string \<Rightarrow> hello_msg \<Rightarrow> peer_config \<Rightarrow> ipv6 option \<Rightarrow> ('q, 'r) app_state \<Rightarrow>
   session \<times> ('q, 'r) app_state" where
  "open_session rt now peer_addr hello peer ip6 st =
     (let k = next_session st;
          info = \<lparr>on_name = pc_name peer, on_mode = h_mode hello, on_addr = peer_addr,
                  on_vpn_member = vpn_member hello, on_ip6 = ip6\<rparr>
      in (\<lparr>ss_id = k, ss_peer = peer, ss_mode = h_mode hello, ss_member = vpn_member hello,
           ss_ip6 = ip6, ss_streams = []\<rparr>,
          st\<lparr>next_session := Suc k,
            queues := (queues st)(k := channel_f rt 1024),
            counters_of := (counters_of st)(k := \<lparr>c_up = 0, c_down = 0\<rparr>),
            router_of := register (router_of st) (pc_ip peer) ip6 k info (pc_token peer) k now\<rparr>))"

text \<open>From the first frame to the running session, or to the refusal. \<open>send\<close> writes a frame on the
  connection's sink.\<close>

definition accept_session ::
  "('q, 'r) runtime \<Rightarrow> net_parsers \<Rightarrow> u64 \<Rightarrow> 128 word \<Rightarrow> string \<Rightarrow> (frame \<Rightarrow> 'w \<Rightarrow> unit res \<times> 'w) \<Rightarrow>
   frame res \<Rightarrow> 'w \<Rightarrow> ('q, 'r) app_state \<Rightarrow> session option \<times> 'w \<times> ('q, 'r) app_state" where
  "accept_session rt np now uuid peer_addr send first w st =
     (case check_hello (config st) first of
        Inl Drop \<Rightarrow> (None, w, st)
      | Inl (RejectWith reason) \<Rightarrow> (None, snd (send (Reject reason) w), st)
      | Inr (hello, peer) \<Rightarrow>
          (let wm = welcome_for np (config st) (ipv6_on st) uuid peer;
               (s, st1) = open_session rt now peer_addr hello peer (w_assigned_ip6 wm) st
           in case send (Welcome wm) w of
                (Inr _, w') \<Rightarrow> (Some s, w', st1)
              | (Inl _, w') \<Rightarrow>
                  (None, w', st1\<lparr>router_of := unregister (router_of st1) (pc_ip peer) (w_assigned_ip6 wm)\<rparr>)))"

section \<open>The writer task and the frame loop\<close>

definition count_up :: "nat \<Rightarrow> nat \<Rightarrow> ('q, 'r) app_state \<Rightarrow> ('q, 'r) app_state" where
  "count_up k n st =
     st\<lparr>counters_of := (counters_of st)(k := (counters_of st k)\<lparr>c_up := c_up (counters_of st k) + of_nat n\<rparr>),
        metrics_of := add_up (of_nat n) (metrics_of st)\<rparr>"

definition count_down :: "nat \<Rightarrow> nat \<Rightarrow> ('q, 'r) app_state \<Rightarrow> ('q, 'r) app_state" where
  "count_down k n st =
     st\<lparr>counters_of := (counters_of st)(k := (counters_of st k)\<lparr>c_down := c_down (counters_of st k) + of_nat n\<rparr>),
        metrics_of := add_down (of_nat n) (metrics_of st)\<rparr>"

text \<open>One turn of the writer task: \<open>None\<close> while the queue is empty; the flag says whether the loop
  goes on. After a failed send it closes the sink and ends, which drops the receiver.\<close>

definition writer_task ::
  "('q, 'r) runtime \<Rightarrow> (frame \<Rightarrow> 'w \<Rightarrow> unit res \<times> 'w) \<Rightarrow> ('w \<Rightarrow> 'w) \<Rightarrow> nat \<Rightarrow> 'w \<Rightarrow> ('q, 'r) app_state \<Rightarrow>
   (bool \<times> 'w \<times> ('q, 'r) app_state) option" where
  "writer_task rt send close k w st =
     (case recv_f rt (queues st k) of
        None \<Rightarrow> None
      | Some (f, q') \<Rightarrow>
          (let st1 = st\<lparr>queues := (queues st)(k := q')\<rparr>; n = payload_len f
           in case send f w of
                (Inl _, w') \<Rightarrow> Some (False, close w', st1\<lparr>queues := (queues st1)(k := drop_f rt q')\<rparr>)
              | (Inr _, w') \<Rightarrow> Some (True, w', if n > 0 then count_down k n st1 else st1)))"

definition offer :: "('q, 'r) runtime \<Rightarrow> nat \<Rightarrow> frame \<Rightarrow> ('q, 'r) app_state \<Rightarrow> ('q, 'r) app_state" where
  "offer rt k f st = st\<lparr>queues := snd (push_frame rt k f (queues st))\<rparr>"

definition peer_list :: "ipv4 \<Rightarrow> router \<Rightarrow> peer_info list" where
  "peer_list assigned r =
     map (\<lambda>(ip, info). \<lparr>pi_ip = ip, pi_name = on_name info, pi_ip6 = on_ip6 info\<rparr>)
       (filter (\<lambda>(ip, info). ip \<noteq> assigned \<and> on_vpn_member info) (router_online r))"

text \<open>\<open>s.try_send(data)\<close> on the channel of a remote stream.\<close>

definition feed_remote :: "('q, 'r) runtime \<Rightarrow> nat \<Rightarrow> bytes \<Rightarrow> ('q, 'r) app_state \<Rightarrow> ('q, 'r) app_state" where
  "feed_remote rt r d st =
     (case remotes st r of
        Some rm \<Rightarrow> (case try_send_d rt (rm_queue rm) d of
                      Some q' \<Rightarrow> set_remote r (rm\<lparr>rm_queue := q'\<rparr>) st
                    | None \<Rightarrow> st)
      | None \<Rightarrow> st)"

text \<open>The body of the frame loop for a received frame.\<close>

fun session_frame ::
  "('q, 'r) runtime \<Rightarrow> session \<Rightarrow> frame \<Rightarrow> ('q, 'r) app_state \<Rightarrow> session \<times> ('q, 'r) app_state" where
  "session_frame rt s (Packet pkt) st =
     (let st1 = count_up (ss_id s) (length pkt) st
      in (s, if \<not> is_stream (ss_mode s) \<or> ss_member s
             then st1\<lparr>tun := map_option (\<lambda>sent. sent @ [pkt]) (tun st1)\<rparr> else st1))"
| "session_frame rt s Ping st = (s, offer rt (ss_id s) Pong st)"
| "session_frame rt s Pong st = (s, st)"
| "session_frame rt s GetPeers st =
     (s, offer rt (ss_id s) (PeerList (peer_list (pc_ip (ss_peer s)) (router_of st))) st)"
| "session_frame rt s (StreamOpen i target) st =
     (if pc_allow_http_proxy (ss_peer s)
      then (case open_remote_stream rt i target (ss_id s) st of
              (r, st1) \<Rightarrow> (s\<lparr>ss_streams := AList.update i r (ss_streams s)\<rparr>, st1))
      else (s, offer rt (ss_id s) (StreamClose i (Some ''http proxy not allowed for this peer'')) st))"
| "session_frame rt s (StreamData i d) st =
     (let st1 = count_up (ss_id s) (length d) st
      in (s, case map_of (ss_streams s) i of Some r \<Rightarrow> feed_remote rt r d st1 | None \<Rightarrow> st1))"
| "session_frame rt s (StreamClose i e) st = (s\<lparr>ss_streams := AList.delete i (ss_streams s)\<rparr>, st)"
| "session_frame rt s f st = (s, st)"

text \<open>After the loop: the router entry goes, the writer task is aborted and the counters are folded into the totals per token.\<close>

definition close_session :: "('q, 'r) runtime \<Rightarrow> session \<Rightarrow> ('q, 'r) app_state \<Rightarrow> ('q, 'r) app_state" where
  "close_session rt s st =
     st\<lparr>router_of := unregister (router_of st) (pc_ip (ss_peer s)) (ss_ip6 s),
        queues := (queues st)(ss_id s := drop_f rt (queues st (ss_id s))),
        metrics_of := fold_session (pc_token (ss_peer s)) (pc_name (ss_peer s)) (pc_ip (ss_peer s)) (ss_mode s)
          (c_up (counters_of st (ss_id s))) (c_down (counters_of st (ss_id s))) (metrics_of st)\<rparr>"

section \<open>Derived IPv6 addresses\<close>

lemma length_derive: "length (take 12 (octets6 n) @ be32 v4) = 16"
  by simp

lemma bit_derive_ipv6:
  "bit (derive_ipv6 net v4) i \<longleftrightarrow> (if i < 32 then bit v4 i else bit (fst net) i)"
proof -
  have be: "rev (be32 v4) ! j = ucast (drop_bit (8 * j) v4)" if "j < 4" for j
    using that by (auto simp: be32_def less_Suc_eq numeral_eq_Suc)
  have sum: "8 * (i div 8) + i mod 8 = i" by simp
  have lt: "i mod 8 < Suc (Suc (Suc (Suc (Suc (Suc (Suc (Suc 0)))))))" by presburger
  have hi: "i < 128" if "bit (fst net) i"
    using that bit_imp_le_length by force
  show ?thesis
  proof (cases "i < 32")
    case True
    then have "i div 8 < 4" by linarith
    then have "rev (take 12 (octets6 (fst net)) @ be32 v4) ! (i div 8) = ucast (drop_bit (8 * (i div 8)) v4)"
      by (simp add: nth_append be)
    with True show ?thesis
      using sum lt by (simp add: derive_ipv6_def bit_ipv6_of_octets bit_simps add.commute)
  next
    case False
    show ?thesis
    proof (cases "i < 128")
      case True
      with False have j: "4 \<le> i div 8" "i div 8 < 16" by linarith+
      then have "rev (take 12 (octets6 (fst net)) @ be32 v4) ! (i div 8) = octets6 (fst net) ! (15 - i div 8)"
        by (simp add: nth_append rev_nth)
      also have "\<dots> = ucast (drop_bit (8 * (i div 8)) (fst net))"
        using j by (simp add: octets6_nth)
      finally show ?thesis
        using sum lt False True by (simp add: derive_ipv6_def bit_ipv6_of_octets bit_simps add.commute)
    qed (use False hi in \<open>auto simp: derive_ipv6_def bit_ipv6_of_octets\<close>)
  qed
qed

lemma derive_ipv6_low: "ucast (derive_ipv6 net v4) = v4"
  by (rule bit_word_eqI) (auto simp: bit_simps bit_derive_ipv6 dest: bit_imp_le_length)

lemma derive_ipv6_high: "drop_bit 32 (derive_ipv6 net v4) = drop_bit 32 (fst net)"
  by (rule bit_word_eqI) (auto simp: bit_simps bit_derive_ipv6)

lemma derive_ipv6_inj: "derive_ipv6 net a = derive_ipv6 net b \<longleftrightarrow> a = b"
  by (metis derive_ipv6_low)

section \<open>Who gets in\<close>

lemma check_hello_Inr:
  "check_hello cfg first = Inr (hello, peer) \<longleftrightarrow>
     first = Inr (Hello hello) \<and> h_version hello = PROTOCOL_VERSION \<and>
     find_peer cfg (h_token hello) = Some peer \<and> pc_enabled peer \<and>
     (h_mode hello = GlobalProxy \<longrightarrow> pc_allow_global peer)"
  by (auto simp: check_hello_def split: sum.splits frame.splits if_splits option.splits)

lemma open_session_facts:
  assumes "open_session rt now addr hello peer ip6 st = (s, st')"
  shows "s = \<lparr>ss_id = next_session st, ss_peer = peer, ss_mode = h_mode hello, ss_member = vpn_member hello,
             ss_ip6 = ip6, ss_streams = []\<rparr>"
    and "config st' = config st" "tun st' = tun st" "metrics_of st' = metrics_of st" "remotes st' = remotes st"
    and "next_session st' = Suc (next_session st)" "next_remote st' = next_remote st"
    and "queues st' = (queues st)(next_session st := channel_f rt 1024)"
    and "counters_of st' = (counters_of st)(next_session st := \<lparr>c_up = 0, c_down = 0\<rparr>)"
    and "\<exists>info. router_of st' = register (router_of st) (pc_ip peer) ip6 (next_session st) info
           (pc_token peer) (next_session st) now
         \<and> on_vpn_member info = ss_member s \<and> on_name info = pc_name peer \<and> on_ip6 info = ip6"
  using assms by (auto simp: open_session_def Let_def)

lemma accept_session_Some:
  assumes "accept_session rt np now uuid addr send first w st = (Some s, w', st')"
  obtains hello peer wm where
    "check_hello (config st) first = Inr (hello, peer)"
    "wm = welcome_for np (config st) (ipv6_on st) uuid peer"
    "open_session rt now addr hello peer (w_assigned_ip6 wm) st = (s, st')"
    "send (Welcome wm) w = (Inr (), w')"
  using assms
  by (auto simp: accept_session_def Let_def split: sum.splits refusal.splits prod.splits)

lemma accept_session_None:
  assumes "accept_session rt np now uuid addr send first w st = (None, w', st')"
  shows "st' = st \<or> (\<exists>hello peer ip6 s st1. check_hello (config st) first = Inr (hello, peer) \<and>
           open_session rt now addr hello peer ip6 st = (s, st1) \<and>
           st' = st1\<lparr>router_of := unregister (router_of st1) (pc_ip peer) ip6\<rparr>)"
  using assms
  by (fastforce simp: accept_session_def Let_def split: sum.splits refusal.splits prod.splits)

section \<open>What a frame changes\<close>

lemma counts_frame [simp]:
  "config (count_up k n st) = config st" "config (count_down k n st) = config st"
  "router_of (count_up k n st) = router_of st" "router_of (count_down k n st) = router_of st"
  "tun (count_up k n st) = tun st" "tun (count_down k n st) = tun st"
  "queues (count_up k n st) = queues st" "queues (count_down k n st) = queues st"
  "remotes (count_up k n st) = remotes st" "remotes (count_down k n st) = remotes st"
  "next_session (count_up k n st) = next_session st" "next_session (count_down k n st) = next_session st"
  "next_remote (count_up k n st) = next_remote st" "next_remote (count_down k n st) = next_remote st"
  "ipv6_on (count_up k n st) = ipv6_on st" "ipv6_on (count_down k n st) = ipv6_on st"
  by (simp_all add: count_up_def count_down_def)

lemma counts_same_k [simp]:
  "c_up (counters_of (count_up k n st) j) = (if j = k then c_up (counters_of st j) + of_nat n else c_up (counters_of st j))"
  "c_down (counters_of (count_up k n st) j) = c_down (counters_of st j)"
  "c_down (counters_of (count_down k n st) j) = (if j = k then c_down (counters_of st j) + of_nat n else c_down (counters_of st j))"
  "c_up (counters_of (count_down k n st) j) = c_up (counters_of st j)"
  "metrics_of (count_up k n st) = add_up (of_nat n) (metrics_of st)"
  "metrics_of (count_down k n st) = add_down (of_nat n) (metrics_of st)"
  by (simp_all add: count_up_def count_down_def)

lemma offer_frame [simp]:
  "config (offer rt k f st) = config st" "router_of (offer rt k f st) = router_of st"
  "tun (offer rt k f st) = tun st" "metrics_of (offer rt k f st) = metrics_of st"
  "counters_of (offer rt k f st) = counters_of st" "remotes (offer rt k f st) = remotes st"
  "next_session (offer rt k f st) = next_session st" "next_remote (offer rt k f st) = next_remote st"
  "ipv6_on (offer rt k f st) = ipv6_on st"
  by (simp_all add: offer_def)

lemma set_remote_frame [simp]:
  "config (set_remote r rm st) = config st" "router_of (set_remote r rm st) = router_of st"
  "tun (set_remote r rm st) = tun st" "metrics_of (set_remote r rm st) = metrics_of st"
  "counters_of (set_remote r rm st) = counters_of st" "queues (set_remote r rm st) = queues st"
  "next_session (set_remote r rm st) = next_session st" "next_remote (set_remote r rm st) = next_remote st"
  "ipv6_on (set_remote r rm st) = ipv6_on st"
  "remotes (set_remote r rm st) = (remotes st)(r \<mapsto> rm)"
  by (simp_all add: set_remote_def)

lemma finish_remote_frame [simp]:
  "config (finish_remote rt r rm st) = config st" "router_of (finish_remote rt r rm st) = router_of st"
  "tun (finish_remote rt r rm st) = tun st" "metrics_of (finish_remote rt r rm st) = metrics_of st"
  "counters_of (finish_remote rt r rm st) = counters_of st" "queues (finish_remote rt r rm st) = queues st"
  "next_session (finish_remote rt r rm st) = next_session st"
  "next_remote (finish_remote rt r rm st) = next_remote st"
  "ipv6_on (finish_remote rt r rm st) = ipv6_on st"
  by (simp_all add: finish_remote_def)

text \<open>Everything a frame of one session leaves alone: the configuration, the router, the other sessions'
  queues and counters, and the identity of the session itself.\<close>

lemma session_frame_frame:
  assumes "session_frame rt s f st = (s', st')"
  shows "config st' = config st" and "router_of st' = router_of st" and "next_session st' = next_session st"
    and "ipv6_on st' = ipv6_on st"
    and "ss_id s' = ss_id s" and "ss_peer s' = ss_peer s" and "ss_mode s' = ss_mode s"
    and "ss_member s' = ss_member s" and "ss_ip6 s' = ss_ip6 s"
    and "\<And>j. j \<noteq> ss_id s \<Longrightarrow> queues st' j = queues st j"
  using assms
  by (cases f; force simp: Let_def feed_remote_def offer_def push_frame_def open_remote_stream_def
      split: if_splits option.splits)+

lemma session_frame_counters:
  assumes "session_frame rt s f st = (s', st')"
  shows "c_up (counters_of st' j) =
           (if j = ss_id s then c_up (counters_of st j) + of_nat (payload_len f) else c_up (counters_of st j))"
    and "c_down (counters_of st' j) = c_down (counters_of st j)"
    and "m_total_up (metrics_of st') = m_total_up (metrics_of st) + of_nat (payload_len f)"
    and "m_total_down (metrics_of st') = m_total_down (metrics_of st)"
    and "m_agg (metrics_of st') = m_agg (metrics_of st)"
  using assms
  by (cases f; force simp: Let_def feed_remote_def payload_len_def open_remote_stream_def
      split: if_splits option.splits)+

lemma session_frame_tun:
  assumes "session_frame rt s f st = (s', st')"
  shows "tun st' = (case f of Packet p \<Rightarrow>
            (if \<not> is_stream (ss_mode s) \<or> ss_member s then map_option (\<lambda>sent. sent @ [p]) (tun st) else tun st)
          | _ \<Rightarrow> tun st)"
  using assms
  by (cases f) (auto simp: Let_def feed_remote_def open_remote_stream_def split: if_splits option.splits)

lemma peer_list_iff:
  assumes "router_wf r"
  shows "p \<in> set (peer_list ip r) \<longleftrightarrow>
    (\<exists>j e. map_of (peers r) j = Some e \<and> j \<noteq> ip \<and> on_vpn_member (e_info e) \<and>
       p = \<lparr>pi_ip = j, pi_name = on_name (e_info e), pi_ip6 = on_ip6 (e_info e)\<rparr>)"
  using router_online_iff [OF assms] by (fastforce simp: peer_list_def)

section \<open>Packets off the TUN\<close>

text \<open>The destination the router reads from a packet.\<close>

definition dst_of :: "bytes \<Rightarrow> ip_addr option" where
  "dst_of pkt =
     (if length pkt \<ge> 20 \<and> drop_bit 4 (pkt ! 0) = 4
      then Some (V4 (un32 (take 4 (drop 16 pkt))))
      else if length pkt \<ge> 40 \<and> drop_bit 4 (pkt ! 0) = 6
      then Some (V6 (ipv6_of_octets (take 16 (drop 24 pkt)))) else None)"

definition owner :: "router \<Rightarrow> ip_addr \<Rightarrow> nat option" where
  "owner r dst = (case dst of V4 ip \<Rightarrow> map_option e_tx (map_of (peers r) ip) | V6 ip \<Rightarrow> map_of (peers6 r) ip)"

lemma take4_drop16: "20 \<le> length pkt \<Longrightarrow> take 4 (drop 16 pkt) = [pkt ! 16, pkt ! 17, pkt ! 18, pkt ! 19]"
  by (rule nth_equalityI) (auto simp: less_Suc_eq numeral_eq_Suc)

lemma run_tun_router_push:
  "run_tun_router rt pkt st =
     (case Option.bind (dst_of pkt) (owner (router_of st)) of
        Some k \<Rightarrow> st\<lparr>queues := snd (push_frame rt k (Packet pkt) (queues st))\<rparr>
      | None \<Rightarrow> st)"
  by (auto simp: run_tun_router_def dst_of_def owner_def deliver_def deliver6_def Let_def ipv4_new_def
      take4_drop16 split: option.splits)

end
