(* ===== verification/Web_Admin.thy ===== *)
theory Web_Admin
  imports Session
begin

text \<open>
  The admin API of \<open>server/src/web.rs\<close>: authorisation, the two read views, persistence, and the two
  operations that change the peer list. Routing and JSON are \<open>axum\<close>'s; a handler gets the query token
  (empty when absent) and the \<open>Authorization\<close> header. The interface \<open>guarded_api\<close> is what every handler
  that changes the state promises.
\<close>

section \<open>Requests and answers\<close>

datatype status_code = UNAUTHORIZED | CONFLICT | NOT_FOUND | INTERNAL_SERVER_ERROR | CREATED | NO_CONTENT

record auth =
  au_token :: string
  au_header :: "string option"

record listener_view =
  lv_transport :: string
  lv_bind :: string
  lv_tls :: bool

record peer_view =
  pv_name :: string
  pv_token :: string
  pv_ip :: string
  pv_enabled :: bool
  pv_allow_global :: bool
  pv_allow_http_proxy :: bool
  pv_online :: bool
  pv_mode :: "string option"
  pv_addr :: "string option"

record status_resp =
  sr_listeners :: "listener_view list"
  sr_subnet :: string
  sr_gateway :: string
  sr_mtu :: u16
  sr_noise_psk :: string
  sr_peers :: "peer_view list"

record stats_resp =
  st_uptime_secs :: u64
  st_total_up :: u64
  st_total_down :: u64
  st_online :: nat
  st_timeline :: "traffic_sample list"
  st_peers :: "peer_stat list"

section \<open>Operations\<close>

definition authorized :: "('q, 'r) app_state \<Rightarrow> auth \<Rightarrow> bool" where
  "authorized st a =
     (let expected = wc_admin_token (sc_web (config st))
      in if au_token a \<noteq> [] \<and> au_token a = expected then True
         else (case Option.bind (au_header a) (strip_prefix ''Bearer '') of
                 Some t \<Rightarrow> t = expected
               | None \<Rightarrow> False))"

definition view_of :: "(ipv4 \<times> online) list \<Rightarrow> peer_config \<Rightarrow> peer_view" where
  "view_of on p =
     (let o1 = map_of (rev on) (pc_ip p)
      in \<lparr>pv_name = pc_name p, pv_token = pc_token p, pv_ip = show_ipv4 (pc_ip p),
          pv_enabled = pc_enabled p, pv_allow_global = pc_allow_global p,
          pv_allow_http_proxy = pc_allow_http_proxy p, pv_online = (o1 \<noteq> None),
          pv_mode = map_option (\<lambda>x. show_mode (on_mode x)) o1, pv_addr = map_option on_addr o1\<rparr>)"

definition status :: "('q, 'r) app_state \<Rightarrow> auth \<Rightarrow> status_code + status_resp" where
  "status st a =
     (if \<not> authorized st a then Inl UNAUTHORIZED
      else (let on = router_online (router_of st); cfg = config st
            in Inr \<lparr>sr_listeners = map (\<lambda>l. \<lparr>lv_transport = show_transport (lc_transport l),
                       lv_bind = lc_bind l, lv_tls = lc_tls l\<rparr>) (sc_listeners cfg),
                    sr_subnet = nc_subnet (sc_network cfg),
                    sr_gateway = show_ipv4 (nc_gateway (sc_network cfg)),
                    sr_mtu = nc_mtu (sc_network cfg),
                    sr_noise_psk = sc_noise_psk (sc_security cfg),
                    sr_peers = map (view_of on) (sc_peers cfg)\<rparr>))"

definition stats ::
  "((string \<times> peer_stat) list \<Rightarrow> peer_stat list) \<Rightarrow> u64 \<Rightarrow> ('q, 'r) app_state \<Rightarrow> auth \<Rightarrow>
   status_code + stats_resp" where
  "stats into_values now st a =
     (if \<not> authorized st a then Inl UNAUTHORIZED
      else (let live = router_live (counters_of st) now (router_of st);
                (total_up, total_down) = totals (metrics_of st)
            in Inr \<lparr>st_uptime_secs = uptime_secs now (metrics_of st), st_total_up = total_up,
                    st_total_down = total_down, st_online = length live,
                    st_timeline = timeline (metrics_of st),
                    st_peers = peer_stats into_values (metrics_of st) live\<rparr>))"

text \<open>\<open>saver\<close> is \<open>save\<close> applied to the TOML printer, the file system and the path of the configuration.\<close>

definition persist :: "(server_config \<Rightarrow> unit res) \<Rightarrow> ('q, 'r) app_state \<Rightarrow> status_code + unit" where
  "persist saver st = map_err (\<lambda>_. INTERNAL_SERVER_ERROR) (saver (config st))"

definition add_peer ::
  "(server_config \<Rightarrow> unit res) \<Rightarrow> auth \<Rightarrow> peer_config \<Rightarrow> ('q, 'r) app_state \<Rightarrow>
   (status_code + status_code) \<times> ('q, 'r) app_state" where
  "add_peer saver a peer st =
     (if \<not> authorized st a then (Inl UNAUTHORIZED, st)
      else if list_ex (\<lambda>p. pc_token p = pc_token peer \<or> pc_ip p = pc_ip peer) (sc_peers (config st))
      then (Inl CONFLICT, st)
      else (let st1 = st\<lparr>config := (config st)\<lparr>sc_peers := sc_peers (config st) @ [peer]\<rparr>\<rparr>
            in (bind_res (persist saver st1) (\<lambda>_. Inr CREATED), st1)))"

definition del_peer ::
  "(server_config \<Rightarrow> unit res) \<Rightarrow> auth \<Rightarrow> string \<Rightarrow> ('q, 'r) app_state \<Rightarrow>
   (status_code + status_code) \<times> ('q, 'r) app_state" where
  "del_peer saver a token st =
     (if \<not> authorized st a then (Inl UNAUTHORIZED, st)
      else (let before = length (sc_peers (config st));
                st1 = st\<lparr>config := (config st)\<lparr>sc_peers :=
                        filter (\<lambda>p. pc_token p \<noteq> token) (sc_peers (config st))\<rparr>\<rparr>
            in if length (sc_peers (config st1)) = before then (Inl NOT_FOUND, st1)
               else (bind_res (persist saver st1) (\<lambda>_. Inr NO_CONTENT), st1)))"

section \<open>The changing handlers as an interface\<close>

text \<open>A handler that changes the peer list: without the admin token it changes nothing and says so; it
  touches only the configuration, and keeps the registry well formed.\<close>

locale guarded_api =
  fixes handler :: "auth \<Rightarrow> 'x \<Rightarrow> ('q, 'r) app_state \<Rightarrow> (status_code + status_code) \<times> ('q, 'r) app_state"
  assumes refused: "\<not> authorized st a \<Longrightarrow> handler a x st = (Inl UNAUTHORIZED, st)"
    and frame: "\<exists>ps. snd (handler a x st) = st\<lparr>config := (config st)\<lparr>sc_peers := ps\<rparr>\<rparr>"
    and keeps_wf: "wf_peers (sc_peers (config st)) \<Longrightarrow> wf_peers (sc_peers (config (snd (handler a x st))))"
begin

lemma same_admin_token: "authorized (snd (handler a x st)) b = authorized st b"
  using frame [of a x st] by (auto simp: authorized_def)

lemma requests_keep_wf:
  "wf_peers (sc_peers (config st)) \<Longrightarrow>
   wf_peers (sc_peers (config (fold (\<lambda>(a, x) s. snd (handler a x s)) reqs st)))"
  by (induction reqs arbitrary: st) (auto intro: keeps_wf)

lemma requests_unauthorized:
  "(\<forall>(a, x) \<in> set reqs. \<not> authorized st a) \<Longrightarrow> fold (\<lambda>(a, x) s. snd (handler a x s)) reqs st = st"
  by (induction reqs) (auto simp: refused)

end

interpretation add_api: guarded_api "add_peer saver"
proof
  fix st :: "('q, 'r) app_state" and a x
  show "\<not> authorized st a \<Longrightarrow> add_peer saver a x st = (Inl UNAUTHORIZED, st)"
    by (simp add: add_peer_def)
  show "\<exists>ps. snd (add_peer saver a x st) = st\<lparr>config := (config st)\<lparr>sc_peers := ps\<rparr>\<rparr>"
    by (rule exI [of _ "sc_peers (config (snd (add_peer saver a x st)))"])
      (simp add: add_peer_def Let_def)
  show "wf_peers (sc_peers (config st)) \<Longrightarrow> wf_peers (sc_peers (config (snd (add_peer saver a x st))))"
    by (auto simp: add_peer_def Let_def wf_peers_def list_ex_iff)
qed

interpretation del_api: guarded_api "del_peer saver"
proof
  fix st :: "('q, 'r) app_state" and a x
  show "\<not> authorized st a \<Longrightarrow> del_peer saver a x st = (Inl UNAUTHORIZED, st)"
    by (simp add: del_peer_def)
  show "\<exists>ps. snd (del_peer saver a x st) = st\<lparr>config := (config st)\<lparr>sc_peers := ps\<rparr>\<rparr>"
    by (rule exI [of _ "sc_peers (config (snd (del_peer saver a x st)))"])
      (simp add: del_peer_def Let_def)
  show "wf_peers (sc_peers (config st)) \<Longrightarrow> wf_peers (sc_peers (config (snd (del_peer saver a x st))))"
    by (auto simp: del_peer_def Let_def wf_peers_def distinct_map_filter)
qed

section \<open>Facts\<close>

lemma find_peer_added:
  assumes "authorized st a" and "find_peer (config st) (pc_token p) = None"
    and "\<forall>q \<in> set (sc_peers (config st)). pc_ip q \<noteq> pc_ip p"
  shows "find_peer (config (snd (add_peer saver a p st))) t =
           (if t = pc_token p then Some p else find_peer (config st) t)"
proof -
  have fresh: "\<forall>q \<in> set (sc_peers (config st)). pc_token q \<noteq> pc_token p"
    using assms(2) by (auto simp: find_peer_def find_None_iff)
  then have ps: "sc_peers (config (snd (add_peer saver a p st))) = sc_peers (config st) @ [p]"
    using assms by (auto simp: add_peer_def Let_def list_ex_iff)
  have app: "find P (xs @ [y]) = (case find P xs of Some z \<Rightarrow> Some z | None \<Rightarrow> if P y then Some y else None)"
    for P xs and y :: peer_config
    by (induction xs) auto
  show ?thesis
    using assms(2) by (auto simp: find_peer_def ps app split: option.splits)
qed

lemma find_peer_deleted:
  assumes "authorized st a"
  shows "find_peer (config (snd (del_peer saver a t st))) t' = (if t' = t then None else find_peer (config st) t')"
proof -
  have "sc_peers (config (snd (del_peer saver a t st))) = filter (\<lambda>p. pc_token p \<noteq> t) (sc_peers (config st))"
    using assms by (simp add: del_peer_def Let_def)
  moreover have "find (\<lambda>p. pc_token p = t') (filter (\<lambda>p. pc_token p \<noteq> t) ps)
      = (if t' = t then None else find (\<lambda>p. pc_token p = t') ps)" for ps :: "peer_config list"
    by (induction ps) auto
  ultimately show ?thesis
    by (simp add: find_peer_def)
qed

lemma del_peer_not_found:
  assumes "authorized st a"
  shows "del_peer saver a t st = (Inl NOT_FOUND, st) \<longleftrightarrow> find_peer (config st) t = None"
proof
  assume "del_peer saver a t st = (Inl NOT_FOUND, st)"
  with assms find_peer_deleted [OF assms, of saver t t] show "find_peer (config st) t = None"
    by simp
next
  assume "find_peer (config st) t = None"
  then have "filter (\<lambda>p. pc_token p \<noteq> t) (sc_peers (config st)) = sc_peers (config st)"
    by (auto simp: find_peer_def find_None_iff intro: filter_True)
  with assms show "del_peer saver a t st = (Inl NOT_FOUND, st)"
    by (simp add: del_peer_def Let_def)
qed

end
