(* ===== verification/State_Machine.thy ===== *)
theory State_Machine
  imports Main
begin

text \<open>
  Reachable states of a step relation, and the interface by which the machines of the development state
  what every reachable state satisfies: an \<open>invariant\<close>, and a \<open>relative_invariant\<close> that may use another
  one that already holds.
\<close>

inductive reach :: "('s \<Rightarrow> bool) \<Rightarrow> ('s \<Rightarrow> 's \<Rightarrow> bool) \<Rightarrow> 's \<Rightarrow> bool" for init step where
  reach_init: "init s \<Longrightarrow> reach init step s"
| reach_step: "reach init step s \<Longrightarrow> step s s' \<Longrightarrow> reach init step s'"

locale invariant =
  fixes init :: "'s \<Rightarrow> bool" and step :: "'s \<Rightarrow> 's \<Rightarrow> bool" and I :: "'s \<Rightarrow> bool"
  assumes init_ok: "init s \<Longrightarrow> I s"
    and step_ok: "I s \<Longrightarrow> step s s' \<Longrightarrow> I s'"
begin

lemma reach_ok: "reach init step s \<Longrightarrow> I s"
  by (induction rule: reach.induct) (auto intro: init_ok step_ok)

lemma steps_ok: "step\<^sup>*\<^sup>* s s' \<Longrightarrow> I s \<Longrightarrow> I s'"
  by (induction rule: rtranclp_induct) (auto intro: step_ok)

end

locale relative_invariant = invariant +
  fixes J :: "'a \<Rightarrow> bool"
  assumes init_rel: "init s \<Longrightarrow> J s"
    and step_rel: "I s \<Longrightarrow> J s \<Longrightarrow> step s s' \<Longrightarrow> J s'"

sublocale relative_invariant \<subseteq> both: invariant init step "\<lambda>s. I s \<and> J s"
  by unfold_locales (auto intro: init_ok step_ok init_rel step_rel)

context relative_invariant
begin

lemma reach_rel: "reach init step s \<Longrightarrow> J s"
  using both.reach_ok by blast

end

end
