(* ===== verification/Server_Machine.thy ===== *)
theory Server_Machine
  imports Web_Admin State_Machine
begin

text \<open>
  The server as a machine: any number of connections, their reader loops and writer tasks, the remote
  streams, the TUN demultiplexer, the sampler and the admin API, interleaved. A step is one turn of one
  task. \<open>active\<close> holds the handlers in their frame loop, \<open>writers\<close> the writer tasks that still run,
  \<open>sinks\<close> the connections' frame sinks. The invariants say what holds in every reachable state.
\<close>

section \<open>The machine\<close>

record ('q, 'r, 'w) world =
  app :: "('q, 'r) app_state"
  active :: "nat \<rightharpoonup> session"
  writers :: "nat set"
  sinks :: "nat \<Rightarrow> 'w"

definition server_init :: "('q, 'r, 'w) world \<Rightarrow> bool" where
  "server_init W \<longleftrightarrow>
     wf_peers (sc_peers (config (app W))) \<and> router_of (app W) = router_new \<and>
     (\<exists>now. metrics_of (app W) = metrics_new now) \<and> remotes (app W) = Map.empty \<and>
     active W = Map.empty \<and> writers W = {}"

definition stream_held :: "('q, 'r, 'w) world \<Rightarrow> nat \<Rightarrow> bool" where
  "stream_held W r \<longleftrightarrow> (\<exists>k s. active W k = Some s \<and> r \<in> snd ` set (ss_streams s))"

inductive server_step ::
  "('q, 'r) runtime \<Rightarrow> net_parsers \<Rightarrow> (frame \<Rightarrow> 'w \<Rightarrow> unit res \<times> 'w) \<Rightarrow> ('w \<Rightarrow> 'w) \<Rightarrow>
   (server_config \<Rightarrow> unit res) \<Rightarrow> ('q, 'r, 'w) world \<Rightarrow> ('q, 'r, 'w) world \<Rightarrow> bool"
  for rt np send close saver where
  accepted:
    "accept_session rt np now uuid addr send first w (app W) = (Some s, w', st') \<Longrightarrow>
     server_step rt np send close saver W
       (W\<lparr>app := st', active := (active W)(ss_id s \<mapsto> s), writers := insert (ss_id s) (writers W),
         sinks := (sinks W)(ss_id s := w')\<rparr>)"
| turned_away:
    "accept_session rt np now uuid addr send first w (app W) = (None, w', st') \<Longrightarrow>
     server_step rt np send close saver W (W\<lparr>app := st'\<rparr>)"
| got_frame:
    "active W k = Some s \<Longrightarrow> session_frame rt s f (app W) = (s', st') \<Longrightarrow>
     server_step rt np send close saver W (W\<lparr>app := st', active := (active W)(k \<mapsto> s')\<rparr>)"
| wrote_frame:
    "k \<in> writers W \<Longrightarrow> writer_task rt send close k (sinks W k) (app W) = Some (go, w', st') \<Longrightarrow>
     server_step rt np send close saver W
       (W\<lparr>app := st', writers := (if go then writers W else writers W - {k}), sinks := (sinks W)(k := w')\<rparr>)"
| closed:
    "active W k = Some s \<Longrightarrow>
     server_step rt np send close saver W
       (W\<lparr>app := close_session rt s (app W), active := (active W)(k := None), writers := writers W - {k}\<rparr>)"
| from_tun: "server_step rt np send close saver W (W\<lparr>app := run_tun_router rt pkt (app W)\<rparr>)"
| sampled:
    "server_step rt np send close saver W
       (W\<lparr>app := (app W)\<lparr>metrics_of := sample now (metrics_of (app W))\<rparr>\<rparr>)"
| peer_added: "server_step rt np send close saver W (W\<lparr>app := snd (add_peer saver a p (app W))\<rparr>)"
| peer_deleted: "server_step rt np send close saver W (W\<lparr>app := snd (del_peer saver a t (app W))\<rparr>)"
| dialed:
    "remotes (app W) r = Some rm \<Longrightarrow> rm_phase rm = Dialing \<Longrightarrow>
     remote_dial rt r rm connected (app W) = Some st' \<Longrightarrow> server_step rt np send close saver W (W\<lparr>app := st'\<rparr>)"
| remote_sent:
    "remotes (app W) r = Some rm \<Longrightarrow> rm_phase rm = Pumping True \<Longrightarrow>
     remote_read rt r rm got (app W) = Some st' \<Longrightarrow> server_step rt np send close saver W (W\<lparr>app := st'\<rparr>)"
| remote_fed:
    "remotes (app W) r = Some rm \<Longrightarrow> rm_phase rm = Pumping b \<Longrightarrow>
     remote_write rt r rm (stream_held W r) written (app W) = Some st' \<Longrightarrow>
     server_step rt np send close saver W (W\<lparr>app := st'\<rparr>)"

section \<open>What the tasks leave alone\<close>

lemma writer_task_cases:
  assumes "writer_task rt send close k w st = Some (go, w', st')"
  obtains f q' q'' st1 where "recv_f rt (queues st k) = Some (f, q')"
    "st1 = st\<lparr>queues := (queues st)(k := q'')\<rparr>"
    "st' = st1 \<and> (\<not> go \<or> payload_len f = 0) \<or> st' = count_down k (payload_len f) st1 \<and> go"
  using assms
  by (auto simp: writer_task_def Let_def split: option.splits prod.splits sum.splits if_splits)

text \<open>A step of a remote task changes queues and its own entry, which keeps its session.\<close>

definition remote_only ::
  "nat \<Rightarrow> nat \<Rightarrow> ('q, 'r) app_state \<Rightarrow> ('q, 'r) app_state \<Rightarrow> bool" where
  "remote_only r k st st' \<longleftrightarrow>
     (\<exists>qs m. st' = st\<lparr>queues := qs, remotes := m\<rparr> \<and>
        (m = remotes st \<or> (\<exists>rm'. m = (remotes st)(r \<mapsto> rm') \<and> rm_out rm' = k)))"

lemma queues_only: "remote_only r k st (st\<lparr>queues := qs\<rparr>)"
  unfolding remote_only_def by (rule exI [of _ qs], rule exI [of _ "remotes st"]) simp

lemma send_out_only: "send_out rt tx f st = Some (b, st') \<Longrightarrow> \<exists>qs. st' = st\<lparr>queues := qs\<rparr>"
  by (cases st) (auto simp: send_out_def split: if_splits)

lemma set_remote_only:
  "rm_out rm = k \<Longrightarrow> remote_only r k st (set_remote r rm (st\<lparr>queues := qs\<rparr>))"
  by (auto simp: remote_only_def set_remote_def)

lemma set_remote_only': "rm_out rm = k \<Longrightarrow> remote_only r k st (set_remote r rm st)"
  using set_remote_only [of rm k r st "queues st"] by (simp)

lemma remote_eof_only:
  assumes "remote_eof rt r rm (st\<lparr>queues := qs\<rparr>) = Some st'"
  shows "remote_only r (rm_out rm) st st'"
  using assms by (auto simp: remote_eof_def set_remote_only dest!: send_out_only)

lemma remote_dial_only:
  assumes "remote_dial rt r rm c st = Some st'"
  shows "remote_only r (rm_out rm) st st'"
  using assms
  by (auto simp: remote_dial_def finish_remote_def set_remote_only set_remote_only'
      split: sum.splits dest!: send_out_only)

lemma remote_read_only:
  assumes "remote_read rt r rm got st = Some st'"
  shows "remote_only r (rm_out rm) st st'"
proof -
  have eof: "remote_eof rt r rm st = Some st' \<Longrightarrow> ?thesis"
    using remote_eof_only [where st = st and qs = "queues st"] by simp
  show ?thesis
  proof (cases got)
    case (Inl e)
    with assms eof show ?thesis by (simp add: remote_read_def)
  next
    case (Inr bs)
    show ?thesis
    proof (cases bs)
      case Nil
      with Inr assms eof show ?thesis by (simp add: remote_read_def)
    next
      case (Cons b bs')
      with Inr assms obtain d st1 where o1: "send_out rt (rm_out rm) (StreamData (rm_stream rm) (b # bs')) st = Some (d, st1)"
        and r1: "if d then st' = st1 else remote_eof rt r rm st1 = Some st'"
        by (auto simp: remote_read_def split: option.splits bool.splits)
      from send_out_only [OF o1] obtain qs where "st1 = st\<lparr>queues := qs\<rparr>" by blast
      with r1 show ?thesis
        by (auto simp: queues_only split: if_splits dest: remote_eof_only)
    qed
  qed
qed

lemma remote_write_only:
  assumes "remote_write rt r rm h wr st = Some st'"
  shows "remote_only r (rm_out rm) st st'"
  using assms
  by (auto simp: remote_write_def finish_remote_def set_remote_only'
      split: option.splits sum.splits if_splits)

lemma remote_only_frame:
  assumes "remote_only r k st st'"
  shows "config st' = config st" and "router_of st' = router_of st" and "tun st' = tun st"
    and "metrics_of st' = metrics_of st" and "counters_of st' = counters_of st"
    and "next_session st' = next_session st" and "next_remote st' = next_remote st"
    and "remotes st' = remotes st \<or> (\<exists>rm'. remotes st' = (remotes st)(r \<mapsto> rm') \<and> rm_out rm' = k)"
  using assms by (auto simp: remote_only_def)

lemma run_tun_router_frame [simp]:
  "config (run_tun_router rt p st) = config st" "router_of (run_tun_router rt p st) = router_of st"
  "tun (run_tun_router rt p st) = tun st" "metrics_of (run_tun_router rt p st) = metrics_of st"
  "counters_of (run_tun_router rt p st) = counters_of st" "remotes (run_tun_router rt p st) = remotes st"
  "next_session (run_tun_router rt p st) = next_session st"
  "next_remote (run_tun_router rt p st) = next_remote st"
  by (simp_all add: run_tun_router_push split: option.splits)

lemma close_session_frame [simp]:
  "config (close_session rt s st) = config st" "tun (close_session rt s st) = tun st"
  "counters_of (close_session rt s st) = counters_of st" "remotes (close_session rt s st) = remotes st"
  "next_session (close_session rt s st) = next_session st"
  "next_remote (close_session rt s st) = next_remote st"
  "router_of (close_session rt s st) = unregister (router_of st) (pc_ip (ss_peer s)) (ss_ip6 s)"
  by (simp_all add: close_session_def)

lemma admin_frame [simp]:
  "router_of (snd (add_peer saver a p st)) = router_of st" "router_of (snd (del_peer saver a t st)) = router_of st"
  "metrics_of (snd (add_peer saver a p st)) = metrics_of st" "metrics_of (snd (del_peer saver a t st)) = metrics_of st"
  "counters_of (snd (add_peer saver a p st)) = counters_of st" "counters_of (snd (del_peer saver a t st)) = counters_of st"
  "remotes (snd (add_peer saver a p st)) = remotes st" "remotes (snd (del_peer saver a t st)) = remotes st"
  "next_session (snd (add_peer saver a p st)) = next_session st"
  "next_session (snd (del_peer saver a t st)) = next_session st"
  "next_remote (snd (add_peer saver a p st)) = next_remote st"
  "next_remote (snd (del_peer saver a t st)) = next_remote st"
  by (simp_all add: add_peer_def del_peer_def Let_def)

lemmas remote_task_frames =
  remote_only_frame [OF remote_dial_only] remote_only_frame [OF remote_read_only]
  remote_only_frame [OF remote_write_only]

section \<open>Session numbers\<close>

definition ids_ok :: "('q, 'r, 'w) world \<Rightarrow> bool" where
  "ids_ok W \<longleftrightarrow> finite (dom (active W)) \<and> writers W \<subseteq> dom (active W) \<and>
     (\<forall>k s. active W k = Some s \<longrightarrow> ss_id s = k \<and> k < next_session (app W))"

lemma accept_next:
  assumes "accept_session rt np now uuid addr send first w st = (r, w', st')"
  shows "next_session st \<le> next_session st'"
proof (cases r)
  case None
  with accept_session_None [of rt np now uuid addr send first w st w' st'] assms
  show ?thesis by (auto dest: open_session_facts(6))
next
  case (Some s)
  with assms show ?thesis
    by (auto elim!: accept_session_Some dest: open_session_facts(6))
qed

lemma accept_session_new:
  assumes "accept_session rt np now uuid addr send first w st = (Some s, w', st')"
  shows "ss_id s = next_session st" and "next_session st' = Suc (next_session st)"
  using assms by (auto elim!: accept_session_Some dest: open_session_facts(1,6))

lemma writer_task_frame:
  assumes "writer_task rt send close k w st = Some (go, w', st')"
  shows "config st' = config st" and "router_of st' = router_of st" and "tun st' = tun st"
    and "remotes st' = remotes st"
    and "next_session st' = next_session st" and "next_remote st' = next_remote st"
  using assms by (auto elim!: writer_task_cases)

lemma ids_step:
  assumes "ids_ok W" and "server_step rt np send close saver W W'"
  shows "ids_ok W'"
  using assms(2)
proof cases
  case (accepted now uuid addr first w s w' st')
  with assms(1) show ?thesis
    using accept_session_new [OF accepted(2)] by (fastforce simp: ids_ok_def)
next
  case (turned_away now uuid addr first w w' st')
  with assms(1) show ?thesis
    using accept_next [OF turned_away(2)] by (fastforce simp: ids_ok_def)
next
  case (got_frame k s f s' st')
  with assms(1) show ?thesis
    using session_frame_frame [OF got_frame(3)] by (fastforce simp: ids_ok_def)
next
  case (wrote_frame k go w' st')
  with assms(1) show ?thesis
    using writer_task_frame [OF wrote_frame(3)] by (auto simp: ids_ok_def)
qed (use assms(1) in \<open>auto simp: ids_ok_def remote_task_frames\<close>)

interpretation ids: invariant server_init "server_step rt np send close saver" ids_ok
  by unfold_locales (simp add: server_init_def ids_ok_def, blast intro: ids_step)

section \<open>The router names live sessions\<close>

definition router_ok :: "('q, 'r, 'w) world \<Rightarrow> bool" where
  "router_ok W \<longleftrightarrow> router_wf (router_of (app W)) \<and>
     (\<forall>ip e. map_of (peers (router_of (app W))) ip = Some e \<longrightarrow> e_counters e = e_tx e \<and>
        (\<exists>s. active W (e_tx e) = Some s \<and> pc_ip (ss_peer s) = ip \<and> e_token e = pc_token (ss_peer s)
           \<and> on_vpn_member (e_info e) = ss_member s)) \<and>
     (\<forall>ip6 k. map_of (peers6 (router_of (app W))) ip6 = Some k \<longrightarrow>
        (\<exists>s. active W k = Some s \<and> ss_ip6 s = Some ip6))"

lemma router_ok_v4:
  "router_ok W \<Longrightarrow> map_of (peers (router_of (app W))) ip = Some e \<Longrightarrow> e_counters e = e_tx e \<and>
     (\<exists>s. active W (e_tx e) = Some s \<and> pc_ip (ss_peer s) = ip \<and> e_token e = pc_token (ss_peer s)
        \<and> on_vpn_member (e_info e) = ss_member s)"
  unfolding router_ok_def by blast

lemma router_ok_v6:
  "router_ok W \<Longrightarrow> map_of (peers6 (router_of (app W))) ip6 = Some k \<Longrightarrow>
   \<exists>s. active W k = Some s \<and> ss_ip6 s = Some ip6"
  unfolding router_ok_def by blast

lemmas router_lookups = router_tables update_conv' delete_conv'

text \<open>A session record may change as long as these four fields do not.\<close>

definition same_session :: "session \<Rightarrow> session \<Rightarrow> bool" where
  "same_session s s' \<longleftrightarrow> ss_id s' = ss_id s \<and> ss_peer s' = ss_peer s \<and> ss_mode s' = ss_mode s \<and>
     ss_member s' = ss_member s \<and> ss_ip6 s' = ss_ip6 s"

lemma session_frame_same: "session_frame rt s f st = (s', st') \<Longrightarrow> same_session s s'"
  by (simp add: same_session_def session_frame_frame)

lemma router_ok_mono:
  assumes "router_ok W" and "router_of (app W') = router_of (app W)"
    and "\<And>k s. active W k = Some s \<Longrightarrow> \<exists>s'. active W' k = Some s' \<and> same_session s s'"
  shows "router_ok W'"
  unfolding router_ok_def assms(2)
proof (intro conjI allI impI)
  show "router_wf (router_of (app W))"
    using assms(1) by (simp add: router_ok_def)
next
  fix ip e
  assume "map_of (peers (router_of (app W))) ip = Some e"
  with router_ok_v4 [OF assms(1)] obtain s where "e_counters e = e_tx e" "active W (e_tx e) = Some s" "pc_ip (ss_peer s) = ip"
    "e_token e = pc_token (ss_peer s)" "on_vpn_member (e_info e) = ss_member s"
    by blast
  with assms(3) [of "e_tx e" s] show "e_counters e = e_tx e"
    and "\<exists>s. active W' (e_tx e) = Some s \<and> pc_ip (ss_peer s) = ip \<and> e_token e = pc_token (ss_peer s)
           \<and> on_vpn_member (e_info e) = ss_member s"
    by (auto simp: same_session_def)
next
  fix ip6 k
  assume "map_of (peers6 (router_of (app W))) ip6 = Some k"
  with router_ok_v6 [OF assms(1)] obtain s where "active W k = Some s" "ss_ip6 s = Some ip6"
    by blast
  with assms(3) [of k s] show "\<exists>s. active W' k = Some s \<and> ss_ip6 s = Some ip6"
    by (auto simp: same_session_def)
qed

lemma same_session_refl [simp]: "same_session s s"
  by (simp add: same_session_def)

lemma router_ok_accept:
  assumes "ids_ok W" "router_ok W"
    and "accept_session rt np now uuid addr send first w (app W) = (Some s, w', st')"
  shows "router_ok (W\<lparr>app := st', active := (active W)(ss_id s \<mapsto> s), writers := ws, sinks := sk\<rparr>)"
proof -
  from assms(3) obtain hello peer ip6 where
    op: "open_session rt now addr hello peer ip6 (app W) = (s, st')"
    by (rule accept_session_Some) blast
  note facts = open_session_facts [OF op]
  from facts(10) obtain info where
    r: "router_of st' = register (router_of (app W)) (pc_ip peer) ip6 (next_session (app W)) info
          (pc_token peer) (next_session (app W)) now" and i: "on_vpn_member info = ss_member s"
    by blast
  have fresh: "active W (next_session (app W)) = None"
    using assms(1) by (cases "active W (next_session (app W))") (auto simp: ids_ok_def)
  show ?thesis
    using assms(2) fresh i
    by (auto simp: router_ok_def r facts(1) router_lookups register_wf split: option.splits if_splits)
      (metis option.distinct(1))+
qed

lemma router_ok_unregister:
  assumes "router_ok W" and "router_of st' = unregister r' ip ip6" and "router_wf r'"
    and "\<And>j. j \<noteq> ip \<Longrightarrow> map_of (peers r') j = map_of (peers (router_of (app W))) j"
    and "\<And>j. Some j \<noteq> ip6 \<Longrightarrow> map_of (peers6 r') j = map_of (peers6 (router_of (app W))) j"
    and "\<And>k s. active W k = Some s \<Longrightarrow> active' k \<noteq> Some s \<Longrightarrow> pc_ip (ss_peer s) = ip \<and> ss_ip6 s = ip6"
  shows "router_ok (W\<lparr>app := st', active := active', writers := ws\<rparr>)"
proof -
  let ?W = "W\<lparr>app := st', active := active', writers := ws\<rparr>"
  have rt: "router_of (app ?W) = unregister r' ip ip6"
    using assms(2) by simp
  have wf: "router_wf (unregister r' ip ip6)"
    using assms(3) by blast
  have p: "map_of (peers (unregister r' ip ip6)) j = (if j = ip then None else map_of (peers (router_of (app W))) j)" for j
    by (simp add: router_lookups assms(4))
  have p6: "map_of (peers6 (unregister r' ip ip6)) j = (if Some j = ip6 then None else map_of (peers6 (router_of (app W))) j)" for j
    using assms(5) [of j] by (auto simp: router_lookups split: option.splits)
  show ?thesis
    unfolding router_ok_def rt
  proof (intro conjI allI impI)
    show "router_wf (unregister r' ip ip6)" by (rule wf)
  next
    fix j e
    assume "map_of (peers (unregister r' ip ip6)) j = Some e"
    then have j: "j \<noteq> ip \<and> map_of (peers (router_of (app W))) j = Some e"
      by (simp add: p split: if_splits)
    with router_ok_v4 [OF assms(1)] obtain s where s: "e_counters e = e_tx e" "active W (e_tx e) = Some s" "pc_ip (ss_peer s) = j"
      "e_token e = pc_token (ss_peer s)" "on_vpn_member (e_info e) = ss_member s"
      by blast
    with j assms(6) [of "e_tx e" s] show "e_counters e = e_tx e"
      and "\<exists>s. active ?W (e_tx e) = Some s \<and> pc_ip (ss_peer s) = j \<and> e_token e = pc_token (ss_peer s)
             \<and> on_vpn_member (e_info e) = ss_member s"
      by auto
  next
    fix j k
    assume "map_of (peers6 (unregister r' ip ip6)) j = Some k"
    then have j: "Some j \<noteq> ip6 \<and> map_of (peers6 (router_of (app W))) j = Some k"
      by (simp add: p6 split: if_splits)
    with router_ok_v6 [OF assms(1)] obtain s where "active W k = Some s" "ss_ip6 s = Some j"
      by blast
    with j assms(6) [of k s] show "\<exists>s. active ?W k = Some s \<and> ss_ip6 s = Some j"
      by auto
  qed
qed

lemma router_ok_turned_away:
  assumes "router_ok W"
    and "accept_session rt np now uuid addr send first w (app W) = (None, w', st')"
  shows "router_ok (W\<lparr>app := st'\<rparr>)"
  using accept_session_None [OF assms(2)]
proof
  assume "st' = app W"
  with assms(1) show ?thesis by simp
next
  assume "\<exists>hello peer ip6 s st1. check_hello (config (app W)) first = Inr (hello, peer) \<and>
    open_session rt now addr hello peer ip6 (app W) = (s, st1) \<and>
    st' = st1\<lparr>router_of := unregister (router_of st1) (pc_ip peer) ip6\<rparr>"
  then obtain hello peer ip6 s st1 where op: "open_session rt now addr hello peer ip6 (app W) = (s, st1)"
    and st': "st' = st1\<lparr>router_of := unregister (router_of st1) (pc_ip peer) ip6\<rparr>" by blast
  from open_session_facts(10) [OF op] obtain info where
    r: "router_of st1 = register (router_of (app W)) (pc_ip peer) ip6 (next_session (app W)) info
          (pc_token peer) (next_session (app W)) now" by blast
  have "router_ok (W\<lparr>app := st', active := active W, writers := writers W\<rparr>)"
    by (rule router_ok_unregister [OF assms(1), where r' = "router_of st1" and ip = "pc_ip peer" and ?ip6.0 = ip6])
      (use assms(1) in \<open>auto simp: st' r router_lookups router_ok_def register_wf split: option.splits\<close>)
  then show ?thesis by simp
qed

lemma router_step:
  assumes "ids_ok W" "router_ok W" and "server_step rt np send close saver W W'"
  shows "router_ok W'"
  using assms(3)
proof cases
  case (accepted now uuid addr first w s w' st')
  with router_ok_accept [OF assms(1,2) accepted(2)] show ?thesis by simp
next
  case (turned_away now uuid addr first w w' st')
  with router_ok_turned_away [OF assms(2) turned_away(2)] show ?thesis by simp
next
  case (got_frame k s f s' st')
  with assms(2) show ?thesis
    using session_frame_frame(2) [OF got_frame(3)] session_frame_same [OF got_frame(3)]
    by (auto intro!: router_ok_mono [OF assms(2)])
next
  case (wrote_frame k go w' st')
  then show ?thesis
    using writer_task_frame(2) [OF wrote_frame(3)] by (auto intro!: router_ok_mono [OF assms(2)])
next
  case (closed k s)
  with assms(1) show ?thesis
    unfolding closed(1)
    by (intro router_ok_unregister [OF assms(2)]) (use assms(2) in \<open>auto simp: router_ok_def ids_ok_def split: if_splits\<close>)
qed (use assms(2) in \<open>auto intro!: router_ok_mono [OF assms(2)] simp: remote_task_frames\<close>)

interpretation routing: relative_invariant server_init "server_step rt np send close saver" ids_ok router_ok
  by unfold_locales (simp add: server_init_def router_ok_def router_new_def router_wf_def, blast intro: router_step)

section \<open>No byte is lost or counted twice\<close>

definition live_sum :: "(counters \<Rightarrow> u64) \<Rightarrow> ('q, 'r, 'w) world \<Rightarrow> u64" where
  "live_sum f W = (\<Sum>k \<in> dom (active W). f (counters_of (app W) k))"

definition traffic_ok :: "('q, 'r, 'w) world \<Rightarrow> bool" where
  "traffic_ok W \<longleftrightarrow>
     m_total_up (metrics_of (app W)) = agg_sum pa_up (metrics_of (app W)) + live_sum c_up W \<and>
     m_total_down (metrics_of (app W)) = agg_sum pa_down (metrics_of (app W)) + live_sum c_down W"

lemma sum_bump:
  fixes f g :: "nat \<Rightarrow> u64"
  assumes "finite A" "k \<in> A" "g k = f k + n" "\<And>j. j \<noteq> k \<Longrightarrow> g j = f j"
  shows "sum g A = sum f A + n"
proof -
  have "sum g (A - {k}) = sum f (A - {k})"
    by (rule sum.cong) (auto simp: assms(4))
  then show ?thesis
    using sum.remove [OF assms(1,2), of g] sum.remove [OF assms(1,2), of f] assms(3) by simp
qed

lemma live_sum_cong:
  assumes "dom (active W') = dom (active W)"
    and "\<And>k. k \<in> dom (active W) \<Longrightarrow> f (counters_of (app W') k) = f (counters_of (app W) k)"
  shows "live_sum f W' = live_sum f W"
  unfolding live_sum_def assms(1) by (rule sum.cong) (auto simp: assms(2))

lemma live_sum_bump:
  assumes "finite (dom (active W))" "k \<in> dom (active W)" "dom (active W') = dom (active W)"
    and "f (counters_of (app W') k) = f (counters_of (app W) k) + n"
    and "\<And>j. j \<noteq> k \<Longrightarrow> f (counters_of (app W') j) = f (counters_of (app W) j)"
  shows "live_sum f W' = live_sum f W + n"
  unfolding live_sum_def assms(3) by (rule sum_bump [OF assms(1,2)]) (fact assms(4), rule assms(5))

lemma live_sum_remove:
  assumes "finite (dom (active W))" "active W k = Some s"
    and "active W' = (active W)(k := None)" "counters_of (app W') = counters_of (app W)"
  shows "live_sum f W = f (counters_of (app W) k) + live_sum f W'"
proof -
  have "dom (active W') = dom (active W) - {k}"
    using assms(3) by auto
  then show ?thesis
    using sum.remove [OF assms(1), of k] assms(2,4) by (auto simp: live_sum_def)
qed

lemma live_sum_insert:
  assumes "finite (dom (active W))" "k \<notin> dom (active W)" "active W' = (active W)(k \<mapsto> s)"
    and "f (counters_of (app W') k) = 0"
    and "\<And>j. j \<noteq> k \<Longrightarrow> counters_of (app W') j = counters_of (app W) j"
  shows "live_sum f W' = live_sum f W"
proof -
  have "(\<Sum>j \<in> dom (active W). f (counters_of (app W') j)) = (\<Sum>j \<in> dom (active W). f (counters_of (app W) j))"
    using assms(2,5) by (intro sum.cong refl) metis
  then show ?thesis
    using assms(1-4) by (simp add: live_sum_def)
qed

lemma fresh_session: "ids_ok W \<Longrightarrow> next_session (app W) \<notin> dom (active W)"
  by (auto simp: ids_ok_def)

lemma accept_session_counters:
  assumes "accept_session rt np now uuid addr send first w st = (r, w', st')"
  shows "metrics_of st' = metrics_of st" and "\<And>j. j \<noteq> next_session st \<Longrightarrow> counters_of st' j = counters_of st j"
    and "r \<noteq> None \<Longrightarrow> counters_of st' (next_session st) = \<lparr>c_up = 0, c_down = 0\<rparr>"
    and "remotes st' = remotes st" and "next_remote st' = next_remote st" and "config st' = config st"
proof -
  have "st' = st \<and> r = None \<or> (\<exists>hello peer ip6 s st1 rr. open_session rt now addr hello peer ip6 st = (s, st1) \<and>
          st' = st1\<lparr>router_of := rr\<rparr>)"
  proof (cases r)
    case None
    with accept_session_None [of rt np now uuid addr send first w st w' st'] assms show ?thesis by blast
  next
    case (Some s)
    with assms obtain hello peer ip6 where "open_session rt now addr hello peer ip6 st = (s, st')"
      by (auto elim!: accept_session_Some)
    moreover have "st' = st'\<lparr>router_of := router_of st'\<rparr>" by simp
    ultimately show ?thesis by blast
  qed
  then show "metrics_of st' = metrics_of st" and "\<And>j. j \<noteq> next_session st \<Longrightarrow> counters_of st' j = counters_of st j"
    and "r \<noteq> None \<Longrightarrow> counters_of st' (next_session st) = \<lparr>c_up = 0, c_down = 0\<rparr>"
    and "remotes st' = remotes st" and "next_remote st' = next_remote st" and "config st' = config st"
    by (auto simp: open_session_facts)
qed

lemma writer_task_counters:
  assumes "writer_task rt send close k w st = Some (go, w', st')"
  shows "\<exists>n. c_down (counters_of st' k) = c_down (counters_of st k) + n \<and>
    m_total_down (metrics_of st') = m_total_down (metrics_of st) + n \<and>
    (\<forall>j. j \<noteq> k \<longrightarrow> counters_of st' j = counters_of st j) \<and>
    (\<forall>j. c_up (counters_of st' j) = c_up (counters_of st j)) \<and>
    m_total_up (metrics_of st') = m_total_up (metrics_of st) \<and>
    m_agg (metrics_of st') = m_agg (metrics_of st) \<and> m_timeline (metrics_of st') = m_timeline (metrics_of st)"
proof -
  from assms obtain f q'' st1 where st1: "st1 = st\<lparr>queues := (queues st)(k := q'')\<rparr>"
    "st' = st1 \<or> st' = count_down k (payload_len f) st1"
    by (auto elim!: writer_task_cases)
  then show ?thesis
    by (intro exI [of _ "if st' = st1 then 0 else of_nat (payload_len f)"])
      (auto simp: count_down_def add_down_def)
qed

lemma traffic_step:
  assumes "ids_ok W" "traffic_ok W" and "server_step rt np send close saver W W'"
  shows "traffic_ok W'"
  using assms(3)
proof cases
  case (accepted now uuid addr first w s w' st')
  note c = accept_session_counters [OF accepted(2)]
  have "live_sum f W' = live_sum f W" if "f \<lparr>c_up = 0, c_down = 0\<rparr> = 0" for f
    by (rule live_sum_insert [where k = "ss_id s" and s = s])
      (use assms(1) that c accept_session_new [OF accepted(2)] fresh_session [OF assms(1)]
       in \<open>auto simp: accepted(1) ids_ok_def\<close>)
  with assms(2) show ?thesis by (simp add: traffic_ok_def accepted(1) c(1))
next
  case (turned_away now uuid addr first w w' st')
  note c = accept_session_counters [OF turned_away(2)]
  have "live_sum f W' = live_sum f W" for f
    by (rule live_sum_cong) (simp add: turned_away(1), metis turned_away(1) c(2) fresh_session [OF assms(1)] world.select_convs(1) world.surjective world.update_convs(1))
  with assms(2) show ?thesis by (simp add: traffic_ok_def turned_away(1) c(1))
next
  case (got_frame k s f s' st')
  note c = session_frame_counters [OF got_frame(3)]
  have k: "ss_id s = k" "finite (dom (active W))" "k \<in> dom (active W)"
    using assms(1) got_frame(2) by (auto simp: ids_ok_def)
  have "live_sum c_up W' = live_sum c_up W + of_nat (payload_len f)"
    by (rule live_sum_bump [OF k(2,3)]) (use got_frame k c in auto)
  moreover have "live_sum c_down W' = live_sum c_down W"
    by (rule live_sum_cong) (use got_frame c in auto)
  ultimately show ?thesis
    using assms(2) c by (simp add: traffic_ok_def got_frame(1) agg_sum_def)
next
  case (wrote_frame k go w' st')
  have k: "finite (dom (active W))" "k \<in> dom (active W)"
    using assms(1) wrote_frame(2) by (auto simp: ids_ok_def)
  from writer_task_counters [OF wrote_frame(3)] obtain n where
    n: "c_down (counters_of st' k) = c_down (counters_of (app W) k) + n"
    "m_total_down (metrics_of st') = m_total_down (metrics_of (app W)) + n"
    "\<forall>j. j \<noteq> k \<longrightarrow> counters_of st' j = counters_of (app W) j"
    "\<forall>j. c_up (counters_of st' j) = c_up (counters_of (app W) j)"
    "m_total_up (metrics_of st') = m_total_up (metrics_of (app W))"
    "m_agg (metrics_of st') = m_agg (metrics_of (app W))"
    by blast
  have "live_sum c_down W' = live_sum c_down W + n"
    by (rule live_sum_bump [OF k]) (use wrote_frame(1) n in auto)
  moreover have "live_sum c_up W' = live_sum c_up W"
    by (rule live_sum_cong) (use wrote_frame(1) n in auto)
  ultimately show ?thesis
    using assms(2) n by (simp add: traffic_ok_def wrote_frame(1) agg_sum_def)
next
  case (closed k s)
  have k: "ss_id s = k" "finite (dom (active W))"
    using assms(1) closed(2) by (auto simp: ids_ok_def)
  have "live_sum f W = f (counters_of (app W) k) + live_sum f W'" for f
    by (rule live_sum_remove [OF k(2) closed(2)]) (simp_all add: closed(1))
  from this [of c_up] this [of c_down] show ?thesis
    using assms(2) k(1) by (simp add: traffic_ok_def closed(1) close_session_def agg_sum_fold_session)
qed (use assms(2) in \<open>auto simp: traffic_ok_def live_sum_def remote_task_frames\<close>)

lemma traffic_init: "server_init W \<Longrightarrow> traffic_ok W"
  by (auto simp: server_init_def traffic_ok_def live_sum_def metrics_new_def agg_sum_def)

interpretation traffic: relative_invariant server_init "server_step rt np send close saver" ids_ok traffic_ok
  by unfold_locales (fact traffic_init, rule traffic_step)

section \<open>Who is in, and what they may do\<close>

definition admitted :: "session \<Rightarrow> bool" where
  "admitted s \<longleftrightarrow> pc_enabled (ss_peer s) \<and> (ss_mode s = GlobalProxy \<longrightarrow> pc_allow_global (ss_peer s))"

definition auth_ok :: "('q, 'r, 'w) world \<Rightarrow> bool" where
  "auth_ok W \<longleftrightarrow> (\<forall>k s. active W k = Some s \<longrightarrow> admitted s)"

lemma accept_admitted:
  assumes "accept_session rt np now uuid addr send first w st = (Some s, w', st')"
  shows "admitted s" and "ss_streams s = []"
  using assms by (auto elim!: accept_session_Some simp: check_hello_Inr admitted_def open_session_def Let_def)

lemma auth_step:
  assumes "auth_ok W" and "server_step rt np send close saver W W'"
  shows "auth_ok W'"
  using assms(2)
proof cases
  case (accepted now uuid addr first w s w' st')
  with assms(1) accept_admitted(1) [OF accepted(2)] show ?thesis by (auto simp: auth_ok_def)
next
  case (got_frame k s f s' st')
  with assms(1) session_frame_same [OF got_frame(3)] show ?thesis
    by (auto simp: auth_ok_def admitted_def same_session_def)
qed (use assms(1) in \<open>auto simp: auth_ok_def\<close>)

interpretation auth: invariant server_init "server_step rt np send close saver" auth_ok
  by unfold_locales (simp add: server_init_def auth_ok_def, rule auth_step)

text \<open>Every remote task answers to a session that existed, only peers that may use the HTTP proxy own
  one, and the stream table of a session holds tasks of its own.\<close>

definition streams_ok :: "('q, 'r, 'w) world \<Rightarrow> bool" where
  "streams_ok W \<longleftrightarrow>
     (\<forall>r rm. remotes (app W) r = Some rm \<longrightarrow> r < next_remote (app W) \<and> rm_out rm < next_session (app W) \<and>
        (\<forall>s. active W (rm_out rm) = Some s \<longrightarrow> pc_allow_http_proxy (ss_peer s))) \<and>
     (\<forall>k s i r. active W k = Some s \<longrightarrow> (i, r) \<in> set (ss_streams s) \<longrightarrow>
        (\<exists>rm. remotes (app W) r = Some rm \<and> rm_out rm = k))"

lemma streams_ok_remote:
  "streams_ok W \<Longrightarrow> remotes (app W) r = Some rm \<Longrightarrow> r < next_remote (app W) \<and> rm_out rm < next_session (app W) \<and>
     (\<forall>s. active W (rm_out rm) = Some s \<longrightarrow> pc_allow_http_proxy (ss_peer s))"
  unfolding streams_ok_def by blast

lemma streams_ok_table:
  "streams_ok W \<Longrightarrow> active W k = Some s \<Longrightarrow> (i, r) \<in> set (ss_streams s) \<Longrightarrow>
   \<exists>rm. remotes (app W) r = Some rm \<and> rm_out rm = k"
  unfolding streams_ok_def by blast

text \<open>Steps that keep the owner of every remote task.\<close>

definition same_owners :: "(nat \<rightharpoonup> 'r remote) \<Rightarrow> (nat \<rightharpoonup> 'r remote) \<Rightarrow> bool" where
  "same_owners m m' \<longleftrightarrow> (\<forall>r. map_option rm_out (m' r) = map_option rm_out (m r))"

lemma same_owners_refl [simp]: "same_owners m m"
  by (simp add: same_owners_def)

lemma same_owners_upd: "m r = Some rm \<Longrightarrow> rm_out rm' = rm_out rm \<Longrightarrow> same_owners m (m(r \<mapsto> rm'))"
  by (simp add: same_owners_def)

lemma remote_only_owners:
  "remotes st r = Some rm \<Longrightarrow> remote_only r (rm_out rm) st st' \<Longrightarrow> same_owners (remotes st) (remotes st')"
  by (auto simp: remote_only_def intro: same_owners_upd)

lemma same_ownersD:
  "same_owners m m' \<Longrightarrow> m' r = Some rm' \<Longrightarrow> \<exists>rm. m r = Some rm \<and> rm_out rm = rm_out rm'"
  "same_owners m m' \<Longrightarrow> m r = Some rm \<Longrightarrow> \<exists>rm'. m' r = Some rm' \<and> rm_out rm' = rm_out rm"
  unfolding same_owners_def by (metis map_option_eq_Some)+

lemma streams_ok_mono:
  assumes "streams_ok W" and "same_owners (remotes (app W)) (remotes (app W'))"
    and "next_remote (app W') = next_remote (app W)" "next_session (app W) \<le> next_session (app W')"
    and "\<And>k s'. active W' k = Some s' \<Longrightarrow> ss_streams s' = [] \<and> next_session (app W) \<le> k \<or>
           (\<exists>s. active W k = Some s \<and> ss_peer s = ss_peer s' \<and> set (ss_streams s') \<subseteq> set (ss_streams s))"
  shows "streams_ok W'"
  unfolding streams_ok_def
proof (intro conjI allI impI)
  fix r rm'
  assume "remotes (app W') r = Some rm'"
  then obtain rm where rm: "remotes (app W) r = Some rm" "rm_out rm = rm_out rm'"
    using same_ownersD(1) [OF assms(2)] by blast
  note ok = streams_ok_remote [OF assms(1) rm(1)]
  from ok assms(3) show "r < next_remote (app W')" by simp
  from ok rm(2) assms(4) show "rm_out rm' < next_session (app W')" by simp
  fix s'
  assume "active W' (rm_out rm') = Some s'"
  with assms(5) [of "rm_out rm'" s'] ok rm(2) show "pc_allow_http_proxy (ss_peer s')" by auto
next
  fix k s' i r
  assume "active W' k = Some s'" "(i, r) \<in> set (ss_streams s')"
  with assms(5) obtain s where "active W k = Some s" "(i, r) \<in> set (ss_streams s)" by fastforce
  then obtain rm where "remotes (app W) r = Some rm" "rm_out rm = k"
    using streams_ok_table [OF assms(1)] by blast
  with same_ownersD(2) [OF assms(2)] show "\<exists>rm. remotes (app W') r = Some rm \<and> rm_out rm = k" by blast
qed

lemma set_update_subset: "set (AList.update k v al) \<subseteq> insert (k, v) (set al)"
  by (induction al) auto

lemma streams_ok_frame:
  assumes "ids_ok W" "streams_ok W" and "active W k = Some s" and "session_frame rt s f (app W) = (s', st')"
  shows "streams_ok (W\<lparr>app := st', active := (active W)(k \<mapsto> s')\<rparr>)"
proof (cases "\<exists>i t. f = StreamOpen i t \<and> pc_allow_http_proxy (ss_peer s)")
  case False
  have "same_owners (remotes (app W)) (remotes st')" "next_remote st' = next_remote (app W)"
    "ss_peer s' = ss_peer s" "set (ss_streams s') \<subseteq> set (ss_streams s)"
    using False assms(4)
    by (cases f; force simp: Let_def feed_remote_def same_owners_def AList.delete_eq split: if_splits option.splits)+
  with assms(3) session_frame_frame(3) [OF assms(4)] show ?thesis
    by (intro streams_ok_mono [OF assms(2)]) (auto split: if_splits)
next
  case True
  then obtain i t where f: "f = StreamOpen i t" and allow: "pc_allow_http_proxy (ss_peer s)" by blast
  have id: "ss_id s = k" "k < next_session (app W)"
    using assms(1,3) by (auto simp: ids_ok_def)
  let ?r = "next_remote (app W)"
  have s': "s' = s\<lparr>ss_streams := AList.update i ?r (ss_streams s)\<rparr>"
    and rem: "remotes st' = (remotes (app W))(?r \<mapsto> \<lparr>rm_stream = i, rm_target = t, rm_out = k,
          rm_queue = channel_d rt 256, rm_phase = Dialing, rm_written = []\<rparr>)"
    and nxt: "next_remote st' = Suc ?r" "next_session st' = next_session (app W)"
    using assms(4) f allow id by (auto simp: open_remote_stream_def Let_def)
  have new: "remotes (app W) ?r = None"
    using streams_ok_remote [OF assms(2), of ?r] by (cases "remotes (app W) ?r") auto
  have sub: "set (AList.update i ?r (ss_streams s)) \<subseteq> insert (i, ?r) (set (ss_streams s))"
    by (rule set_update_subset)
  show ?thesis
    unfolding streams_ok_def
  proof (intro conjI allI impI)
    fix r rm
    assume "remotes (app (W\<lparr>app := st', active := (active W)(k \<mapsto> s')\<rparr>)) r = Some rm"
    then show "r < next_remote (app (W\<lparr>app := st', active := (active W)(k \<mapsto> s')\<rparr>))"
      "rm_out rm < next_session (app (W\<lparr>app := st', active := (active W)(k \<mapsto> s')\<rparr>))"
      using streams_ok_remote [OF assms(2), of r rm] id nxt by (auto simp: rem split: if_splits)
    fix s1
    assume "active (W\<lparr>app := st', active := (active W)(k \<mapsto> s')\<rparr>) (rm_out rm) = Some s1"
    then show "pc_allow_http_proxy (ss_peer s1)"
      using \<open>remotes (app _) r = Some rm\<close> streams_ok_remote [OF assms(2), of r rm] allow
      by (auto simp: rem s' split: if_splits)
  next
    fix j s1 i1 r
    assume "active (W\<lparr>app := st', active := (active W)(k \<mapsto> s')\<rparr>) j = Some s1" "(i1, r) \<in> set (ss_streams s1)"
    then show "\<exists>rm. remotes (app (W\<lparr>app := st', active := (active W)(k \<mapsto> s')\<rparr>)) r = Some rm \<and> rm_out rm = j"
      using streams_ok_table [OF assms(2), of j _ i1 r] assms(3) sub new
      by (force simp: rem s' split: if_splits)
  qed
qed

lemma streams_step:
  assumes "ids_ok W" "streams_ok W" and "server_step rt np send close saver W W'"
  shows "streams_ok W'"
  using assms(3)
proof cases
  case (accepted now uuid addr first w s w' st')
  with accept_session_counters [OF accepted(2)] accept_session_new [OF accepted(2)] accept_admitted(2) [OF accepted(2)]
  show ?thesis
    by (intro streams_ok_mono [OF assms(2)]) (auto split: if_splits)
next
  case (turned_away now uuid addr first w w' st')
  with accept_session_counters [OF turned_away(2)] accept_next [OF turned_away(2)] show ?thesis
    by (intro streams_ok_mono [OF assms(2)]) auto
next
  case (got_frame k s f s' st')
  with streams_ok_frame [OF assms(1,2) got_frame(2,3)] show ?thesis by simp
next
  case (wrote_frame k go w' st')
  with writer_task_frame [OF wrote_frame(3)] show ?thesis
    by (intro streams_ok_mono [OF assms(2)]) auto
next
  case (dialed r rm connected st')
  with remote_only_owners [OF dialed(2) remote_dial_only [OF dialed(4)]] show ?thesis
    by (intro streams_ok_mono [OF assms(2)]) (auto simp: remote_task_frames)
next
  case (remote_sent r rm got st')
  with remote_only_owners [OF remote_sent(2) remote_read_only [OF remote_sent(4)]] show ?thesis
    by (intro streams_ok_mono [OF assms(2)]) (auto simp: remote_task_frames)
next
  case (remote_fed r rm b written st')
  with remote_only_owners [OF remote_fed(2) remote_write_only [OF remote_fed(4)]] show ?thesis
    by (intro streams_ok_mono [OF assms(2)]) (auto simp: remote_task_frames)
qed (auto intro!: streams_ok_mono [OF assms(2)] split: if_splits)

interpretation streams: relative_invariant server_init "server_step rt np send close saver" ids_ok streams_ok
  by unfold_locales (simp add: server_init_def streams_ok_def, rule streams_step)

section \<open>Tables and the sample ring\<close>

definition tables_ok :: "('q, 'r, 'w) world \<Rightarrow> bool" where
  "tables_ok W \<longleftrightarrow> wf_peers (sc_peers (config (app W))) \<and> distinct (map fst (m_agg (metrics_of (app W)))) \<and>
     length (m_timeline (metrics_of (app W))) \<le> MAX_SAMPLES"

lemma fold_session_distinct:
  "distinct (map fst (m_agg m)) \<Longrightarrow> distinct (map fst (m_agg (fold_session t n i md u d m)))"
  by (simp add: fold_session_def Let_def distinct_update)

lemma session_frame_timeline:
  assumes "session_frame rt s f st = (s', st')"
  shows "m_timeline (metrics_of st') = m_timeline (metrics_of st)"
  using assms
  by (cases f) (auto simp: Let_def feed_remote_def open_remote_stream_def split: if_splits option.splits)

lemma tables_step:
  assumes "tables_ok W" and "server_step rt np send close saver W W'"
  shows "tables_ok W'"
  using assms(2)
proof cases
  case (accepted now uuid addr first w s w' st')
  with assms(1) accept_session_counters [OF accepted(2)] show ?thesis by (simp add: tables_ok_def)
next
  case (turned_away now uuid addr first w w' st')
  with assms(1) accept_session_counters [OF turned_away(2)] show ?thesis by (simp add: tables_ok_def)
next
  case (got_frame k s f s' st')
  with assms(1) session_frame_timeline [OF got_frame(3)] session_frame_frame(1) [OF got_frame(3)]
    session_frame_counters(5) [OF got_frame(3)]
  show ?thesis by (simp add: tables_ok_def)
next
  case (wrote_frame k go w' st')
  with assms(1) writer_task_frame(1) [OF wrote_frame(3)] writer_task_counters [OF wrote_frame(3)]
  show ?thesis by (auto simp: tables_ok_def)
next
  case (closed k s)
  with assms(1) show ?thesis by (simp add: tables_ok_def close_session_def fold_session_distinct)
next
  case (sampled now)
  with assms(1) show ?thesis by (simp add: tables_ok_def sample_timeline Let_def)
next
  case (peer_added a p)
  with assms(1) show ?thesis by (simp add: tables_ok_def add_api.keeps_wf)
next
  case (peer_deleted a t)
  with assms(1) show ?thesis by (simp add: tables_ok_def del_api.keeps_wf)
qed (use assms(1) in \<open>auto simp: tables_ok_def remote_task_frames\<close>)

lemma tables_init: "server_init W \<Longrightarrow> tables_ok W"
  by (auto simp: server_init_def tables_ok_def metrics_new_def)

interpretation tables: invariant server_init "server_step rt np send close saver" tables_ok
  by unfold_locales (fact tables_init, rule tables_step)

section \<open>Bytes to the remote host arrive in order\<close>

text \<open>What a remote task has written, followed by what waits in its channel.\<close>

definition fed_bytes :: "('r \<Rightarrow> bytes list) \<Rightarrow> 'r remote \<Rightarrow> bytes" where
  "fed_bytes pending rm = rm_written rm @ concat (pending (rm_queue rm))"

lemma feed_remote_bytes:
  assumes "data_laws rt pending" and "remotes st r = Some rm"
  shows "\<exists>rm'. remotes (feed_remote rt r d st) r = Some rm' \<and> rm_written rm' = rm_written rm \<and>
    (fed_bytes pending rm' = fed_bytes pending rm @ d \<or> rm' = rm)"
  using assms
  by (auto simp: feed_remote_def fed_bytes_def data_laws_def channel_laws_def split: option.splits)

lemma remote_write_bytes:
  assumes "data_laws rt pending" and "remote_write rt r rm held (Inr ()) st = Some st'"
  shows "\<exists>rm'. remotes st' r = Some rm' \<and> (rm_phase rm' = Finished \<or> fed_bytes pending rm' = fed_bytes pending rm) \<and>
    (\<exists>d. rm_written rm' = rm_written rm @ d)"
  using assms
  by (auto simp: remote_write_def fed_bytes_def data_laws_def channel_laws_def finish_remote_def
      split: option.splits if_splits)

section \<open>A concrete run\<close>

text \<open>The starter configuration on bounded queues, and a server on which one VPN client with
  the example token connects and sends a packet. It is the instance the witnesses use.\<close>

definition run_cfg :: server_config where
  "run_cfg = template ''psk'' ''adm'' ''tok''"

definition run_np :: net_parsers where
  "run_np = \<lparr>parse_net4 = (\<lambda>_. Inr (ipv4_new 10 66 0 0, 24)), parse_net6 = (\<lambda>_. Some (push_bit 112 0xfd66, 64))\<rparr>"

definition run_send :: "frame \<Rightarrow> frame list \<Rightarrow> unit res \<times> frame list" where
  "run_send f w = (Inr (), w @ [f])"

definition run_hello :: hello_msg where
  "run_hello = \<lparr>h_version = 2, h_token = ''tok'', h_mode = Vpn, h_requested_ip = None, h_client_name = None,
     h_join_vpn = False\<rparr>"

definition run_w0 :: "(frame queue, bytes queue, frame list) world" where
  "run_w0 = \<lparr>app = \<lparr>config = run_cfg, router_of = router_new, tun = Some [], metrics_of = metrics_new 0,
       ipv6_on = True, queues = (\<lambda>_. q_channel 0), counters_of = (\<lambda>_. \<lparr>c_up = 0, c_down = 0\<rparr>),
       remotes = Map.empty, next_session = 0, next_remote = 0\<rparr>,
     active = Map.empty, writers = {}, sinks = (\<lambda>_. [])\<rparr>"

definition run_accepted :: "session option \<times> frame list \<times> (frame queue, bytes queue) app_state" where
  "run_accepted = accept_session bounded_rt run_np 5 7 ''1.2.3.4:5'' run_send (Inr (Hello run_hello)) [] (app run_w0)"

definition demo_session :: session where
  "demo_session = the (fst run_accepted)"

definition run_w1 :: "(frame queue, bytes queue, frame list) world" where
  "run_w1 = run_w0\<lparr>app := snd (snd run_accepted), active := (active run_w0)(ss_id demo_session \<mapsto> demo_session),
     writers := insert (ss_id demo_session) (writers run_w0),
     sinks := (sinks run_w0)(ss_id demo_session := fst (snd run_accepted))\<rparr>"

definition run_w2 :: "(frame queue, bytes queue, frame list) world" where
  "run_w2 = run_w1\<lparr>app := snd (session_frame bounded_rt demo_session (Packet [69, 0, 0]) (app run_w1)),
     active := (active run_w1)(0 \<mapsto> demo_session)\<rparr>"

abbreviation run_step :: "(frame queue, bytes queue, frame list) world \<Rightarrow> (frame queue, bytes queue, frame list) world \<Rightarrow> bool"
  where "run_step \<equiv> server_step bounded_rt run_np run_send (\<lambda>w. w) (\<lambda>_. Inr ())"

lemmas run_defs = run_cfg_def run_np_def run_send_def run_hello_def run_w0_def template_def

lemma run_init: "server_init run_w0"
  by (auto simp: server_init_def run_defs wf_peers_def)

lemma run_check: "check_hello run_cfg (Inr (Hello run_hello)) = Inr (run_hello, hd (sc_peers run_cfg))"
  by (simp add: check_hello_def run_cfg_def run_hello_def template_def PROTOCOL_VERSION_def find_peer_def)

lemma run_hello_mode: "h_mode run_hello = Vpn"
  by (simp add: run_hello_def)

lemma run_accepted_Some: "fst run_accepted = Some demo_session" and demo_session_id: "ss_id demo_session = 0"
  and demo_session_mode: "ss_mode demo_session = Vpn" and demo_session_peer: "ss_peer demo_session = hd (sc_peers run_cfg)"
  by (simp_all add: demo_session_def run_accepted_def accept_session_def run_w0_def run_check open_session_def
      run_send_def run_hello_mode Let_def)

lemma run_reach1: "reach server_init run_step run_w1"
proof (rule reach_step)
  show "reach server_init run_step run_w0"
    using run_init by (rule reach_init)
  have "accept_session bounded_rt run_np 5 7 ''1.2.3.4:5'' run_send (Inr (Hello run_hello)) [] (app run_w0)
      = (Some demo_session, fst (snd run_accepted), snd (snd run_accepted))"
    using run_accepted_Some unfolding run_accepted_def [symmetric] by (metis prod.collapse)
  then show "run_step run_w0 run_w1"
    unfolding run_w1_def by (rule accepted)
qed

lemma run_reach2: "reach server_init run_step run_w2"
proof (rule reach_step)
  show "reach server_init run_step run_w1" by (rule run_reach1)
  have "active run_w1 0 = Some demo_session"
    by (simp add: run_w1_def demo_session_id)
  moreover have "session_frame bounded_rt demo_session (Packet [69, 0, 0]) (app run_w1) =
      (demo_session, snd (session_frame bounded_rt demo_session (Packet [69, 0, 0]) (app run_w1)))"
    by (simp add: Let_def)
  ultimately show "run_step run_w1 run_w2"
    unfolding run_w2_def by (rule got_frame)
qed

end
