(* ===== verification/Client_Config.thy ===== *)
theory Client_Config
  imports Wire_Types
begin

text \<open>
  \<open>core/client-core/src/config.rs\<close>: the client profile, its server list and the choice of the active
  server, the composition of a profile with the device's settings, portable links and TOML import.
  TOML, JSON and base64 are third-party: their printers and parsers are arguments. The interface
  \<open>server_choice\<close> is what both configuration types promise about the active server.
\<close>

section \<open>Records\<close>

record server_entry =
  se_name :: string
  se_host :: string
  se_port :: u16
  se_transport :: transport_kind
  se_token :: string
  se_noise_psk :: string
  se_tls_skip_verify :: bool
  se_server_name :: "string option"

record route_rule =
  rr_target :: string
  rr_via :: string
  rr_gateway :: "ipv4 option"

datatype split_mode = Blacklist | Whitelist

record client_config =
  cl_name :: string
  cl_selected_server :: "string option"
  cl_mode :: session_mode
  cl_requested_ip :: "ipv4 option"
  cl_client_name :: "string option"
  cl_tun_name :: string
  cl_http_listen :: string
  cl_join_vpn :: bool
  cl_server_host :: string
  cl_server_port :: u16
  cl_transport :: transport_kind
  cl_token :: string
  cl_noise_psk :: string
  cl_tls_skip_verify :: bool
  cl_server_name :: "string option"
  cl_servers :: "server_entry list"
  cl_routes :: "route_rule list"
  cl_split_mode :: split_mode
  cl_chain :: "string list"
  cl_ipv6_killswitch :: bool

record profile =
  pr_name :: string
  pr_selected_server :: "string option"
  pr_servers :: "server_entry list"

record connection_settings =
  cs_mode :: session_mode
  cs_requested_ip :: "ipv4 option"
  cs_client_name :: "string option"
  cs_tun_name :: string
  cs_http_listen :: string
  cs_join_vpn :: bool
  cs_routes :: "route_rule list"
  cs_split_mode :: split_mode
  cs_chain :: "string list"
  cs_ipv6_killswitch :: bool

section \<open>Operations\<close>

definition default_tun_name :: string where
  "default_tun_name = ''et0''"

definition default_http_listen :: string where
  "default_http_listen = ''127.0.0.1:7890''"

definition default_transport :: transport_kind where
  "default_transport = Tcp"

definition sni :: "server_entry \<Rightarrow> string" where
  "sni s = (case se_server_name s of Some n \<Rightarrow> n | None \<Rightarrow> se_host s)"

definition client_load ::
  "(string \<Rightarrow> io_error + string) \<Rightarrow> (string \<Rightarrow> string + client_config) \<Rightarrow> string \<Rightarrow> client_config res" where
  "client_load read_file from_str path =
     bind_res (map_err Io (read_file path)) (\<lambda>text.
       map_err (\<lambda>e. Config (''parse '' @ path @ '': '' @ e)) (from_str text))"

definition client_to_toml :: "(client_config \<Rightarrow> string + string) \<Rightarrow> client_config \<Rightarrow> string res" where
  "client_to_toml to_string_pretty c = map_err (\<lambda>e. Config (''serialize: '' @ e)) (to_string_pretty c)"

definition client_save ::
  "(client_config \<Rightarrow> string + string) \<Rightarrow> (string \<Rightarrow> string \<Rightarrow> io_error + unit) \<Rightarrow> client_config \<Rightarrow> string \<Rightarrow> unit res" where
  "client_save to_string_pretty write_file c path =
     bind_res (client_to_toml to_string_pretty c) (\<lambda>text. map_err Io (write_file path text))"

definition active_server :: "client_config \<Rightarrow> server_entry res" where
  "active_server c =
     (case cl_servers c of
        s0 # rest \<Rightarrow>
          Inr (case cl_selected_server c of
                 Some name \<Rightarrow> (case find (\<lambda>s. se_name s = name) (cl_servers c) of Some s \<Rightarrow> s | None \<Rightarrow> s0)
               | None \<Rightarrow> s0)
      | [] \<Rightarrow>
          if cl_server_host c = [] then Inl (Config ''no servers configured'')
          else Inr \<lparr>se_name = ''default'', se_host = cl_server_host c, se_port = cl_server_port c,
                 se_transport = cl_transport c, se_token = cl_token c, se_noise_psk = cl_noise_psk c,
                 se_tls_skip_verify = cl_tls_skip_verify c, se_server_name = cl_server_name c\<rparr>)"

definition server_names :: "client_config \<Rightarrow> string list" where
  "server_names c = (if cl_servers c = [] then [''default''] else map se_name (cl_servers c))"

definition compose :: "profile \<Rightarrow> connection_settings \<Rightarrow> client_config" where
  "compose p s =
     \<lparr>cl_name = pr_name p, cl_selected_server = pr_selected_server p, cl_mode = cs_mode s,
      cl_requested_ip = cs_requested_ip s, cl_client_name = cs_client_name s, cl_tun_name = cs_tun_name s,
      cl_http_listen = cs_http_listen s, cl_join_vpn = cs_join_vpn s,
      cl_server_host = [], cl_server_port = 0, cl_transport = default_transport, cl_token = [],
      cl_noise_psk = [], cl_tls_skip_verify = False, cl_server_name = None,
      cl_servers = pr_servers p, cl_routes = cs_routes s, cl_split_mode = cs_split_mode s,
      cl_chain = cs_chain s, cl_ipv6_killswitch = cs_ipv6_killswitch s\<rparr>"

definition profile_active_server :: "profile \<Rightarrow> server_entry res" where
  "profile_active_server p =
     (case pr_servers p of
        [] \<Rightarrow> Inl (Config ''profile has no servers'')
      | s0 # rest \<Rightarrow>
          Inr (case pr_selected_server p of
                 Some name \<Rightarrow> (case find (\<lambda>s. se_name s = name) (pr_servers p) of Some s \<Rightarrow> s | None \<Rightarrow> s0)
               | None \<Rightarrow> s0))"

definition profile_server_names :: "profile \<Rightarrow> string list" where
  "profile_server_names p = map se_name (pr_servers p)"

definition LINK_SCHEME :: string where
  "LINK_SCHEME = ''entro://''"

text \<open>The three base64 engines of \<open>decode_link\<close> and the JSON codec of a profile.\<close>

record link_codec =
  lk_to_json :: "profile \<Rightarrow> bytes option"
  lk_from_json :: "bytes \<Rightarrow> string + profile"
  lk_encode :: "bytes \<Rightarrow> string"
  lk_standard :: "string \<Rightarrow> string + bytes"
  lk_url_safe :: "string \<Rightarrow> string + bytes"
  lk_url_safe_no_pad :: "string \<Rightarrow> string + bytes"

definition encode_link :: "link_codec \<Rightarrow> profile \<Rightarrow> string" where
  "encode_link k p = LINK_SCHEME @ lk_encode k (case lk_to_json k p of Some j \<Rightarrow> j | None \<Rightarrow> [])"

definition or_else :: "'e + 'a \<Rightarrow> 'e + 'a \<Rightarrow> 'e + 'a" where
  "or_else r s = (case r of Inr a \<Rightarrow> Inr a | Inl _ \<Rightarrow> s)"

definition decode_link :: "link_codec \<Rightarrow> string \<Rightarrow> profile res" where
  "decode_link k s =
     (let t = trim s;
          body = trim (case strip_prefix LINK_SCHEME t of Some b \<Rightarrow> b | None \<Rightarrow> t)
      in bind_res
           (map_err (\<lambda>e. Config (''invalid config link (base64): '' @ e))
             (or_else (or_else (lk_standard k body) (lk_url_safe k body)) (lk_url_safe_no_pad k body)))
           (\<lambda>bs. map_err (\<lambda>e. Config (''invalid config link (json): '' @ e)) (lk_from_json k bs)))"

definition default_settings :: connection_settings where
  "default_settings =
     \<lparr>cs_mode = GlobalProxy, cs_requested_ip = None, cs_client_name = None, cs_tun_name = default_tun_name,
      cs_http_listen = default_http_listen, cs_join_vpn = False, cs_routes = [], cs_split_mode = Blacklist,
      cs_chain = [], cs_ipv6_killswitch = True\<rparr>"

definition bundle_to_toml :: "(profile list \<Rightarrow> string + string) \<Rightarrow> profile list \<Rightarrow> string res" where
  "bundle_to_toml to_string_pretty ps = map_err (\<lambda>e. Config (''serialize: '' @ e)) (to_string_pretty ps)"

definition bundle_from_toml :: "(string \<Rightarrow> string + profile list) \<Rightarrow> string \<Rightarrow> profile list res" where
  "bundle_from_toml from_str text = map_err (\<lambda>e. Config (''parse profiles TOML: '' @ e)) (from_str text)"

text \<open>\<open>parse_bundle\<close> and \<open>parse_client\<close> are \<open>toml::from_str\<close> at the two types.\<close>

definition profiles_from_toml ::
  "(string \<Rightarrow> string + profile list) \<Rightarrow> (string \<Rightarrow> string + client_config) \<Rightarrow> string \<Rightarrow> profile list res" where
  "profiles_from_toml parse_bundle parse_client text =
     (case parse_bundle text of
        Inr (p # ps) \<Rightarrow> Inr (p # ps)
      | _ \<Rightarrow>
          bind_res (map_err (\<lambda>e. Config (''not a profile bundle or client.toml: '' @ e)) (parse_client text)) (\<lambda>cfg.
            if cl_servers cfg = [] then Inl (Config ''TOML has no profiles and no [[servers]] to import'')
            else Inr [\<lparr>pr_name = (if cl_name cfg = [] then ''imported'' else cl_name cfg),
                       pr_selected_server = cl_selected_server cfg, pr_servers = cl_servers cfg\<rparr>]))"

section \<open>The active server as an interface\<close>

locale server_choice =
  fixes active :: "'c \<Rightarrow> server_entry res"
    and servers :: "'c \<Rightarrow> server_entry list"
    and selected :: "'c \<Rightarrow> string option"
  assumes by_name: "servers c = s0 # rest \<Longrightarrow> selected c = Some n \<Longrightarrow>
      active c = Inr (case find (\<lambda>s. se_name s = n) (servers c) of Some s \<Rightarrow> s | None \<Rightarrow> s0)"
    and first: "servers c = s0 # rest \<Longrightarrow> selected c = None \<Longrightarrow> active c = Inr s0"
begin

lemma active_member:
  assumes "servers c \<noteq> []"
  obtains e where "active c = Inr e" "e \<in> set (servers c)"
proof -
  obtain s0 rest where s: "servers c = s0 # rest"
    using assms by (cases "servers c") auto
  show thesis
  proof (cases "selected c")
    case None
    with first [OF s] s that show thesis by simp
  next
    case (Some n)
    note a = by_name [OF s Some]
    show thesis
    proof (cases "find (\<lambda>s. se_name s = n) (servers c)")
      case None
      with a s that show thesis by simp
    next
      case (Some e)
      then have "e \<in> set (servers c)" by (auto simp: find_Some_iff)
      with a Some that show thesis by simp
    qed
  qed
qed

lemma active_selected:
  assumes "selected c = Some n" "\<exists>s \<in> set (servers c). se_name s = n"
  obtains e where "active c = Inr e" "e \<in> set (servers c)" "se_name e = n"
proof -
  obtain s0 rest where s: "servers c = s0 # rest"
    using assms(2) by (cases "servers c") auto
  obtain e where e: "find (\<lambda>s. se_name s = n) (servers c) = Some e"
    using assms(2) by (cases "find (\<lambda>s. se_name s = n) (servers c)") (auto simp: find_None_iff)
  with by_name [OF s assms(1)] that show thesis by (auto simp: find_Some_iff)
qed

end

interpretation config_choice: server_choice active_server cl_servers cl_selected_server
  by unfold_locales (simp_all add: active_server_def)

interpretation profile_choice: server_choice profile_active_server pr_servers pr_selected_server
  by unfold_locales (simp_all add: profile_active_server_def)

section \<open>Facts\<close>

lemma compose_active:
  "pr_servers p \<noteq> [] \<Longrightarrow> active_server (compose p s) = profile_active_server p"
  by (cases "pr_servers p"; cases "pr_selected_server p")
    (simp_all add: active_server_def profile_active_server_def compose_def)

lemma compose_no_servers:
  "pr_servers p = [] \<Longrightarrow> active_server (compose p s) = Inl (Config ''no servers configured'')"
  by (simp add: active_server_def compose_def)

text \<open>Import of what the single-profile export wrote: the profile comes back, the settings do not.\<close>

lemma profiles_from_toml_compose:
  assumes "parse_client (the_toml) = Inr (compose p s)" and "parse_bundle the_toml = Inr []"
    and "pr_servers p \<noteq> []" and "pr_name p \<noteq> []"
  shows "profiles_from_toml parse_bundle parse_client the_toml = Inr [p]"
  using assms by (simp add: profiles_from_toml_def compose_def)

lemma profiles_from_toml_nonempty:
  "profiles_from_toml pb pc text = Inr ps \<Longrightarrow> ps \<noteq> []"
  by (auto simp: profiles_from_toml_def bind_res_Inr_iff split: sum.splits list.splits if_splits)

text \<open>What a link of a profile relies on: JSON gives the profile back, base64 any bytes, and base64 text has no
  blank in it.\<close>

definition link_laws :: "link_codec \<Rightarrow> profile \<Rightarrow> bool" where
  "link_laws k p \<longleftrightarrow>
     (\<exists>j. lk_to_json k p = Some j \<and> lk_from_json k j = Inr p) \<and>
     (\<forall>bs. lk_standard k (lk_encode k bs) = Inr bs) \<and>
     (\<forall>bs. \<forall>c \<in> set (lk_encode k bs). \<not> is_ws c)"

lemma decode_encode_link:
  assumes "link_laws k p"
  shows "decode_link k (encode_link k p) = Inr p"
proof -
  obtain j where j: "lk_to_json k p = Some j" "lk_from_json k j = Inr p"
    using assms unfolding link_laws_def by blast
  have ws: "list_all (\<lambda>c. \<not> is_ws c) (lk_encode k j)"
    using assms by (simp add: link_laws_def list_all_iff)
  then have "list_all (\<lambda>c. \<not> is_ws c) (LINK_SCHEME @ lk_encode k j)"
    by (simp add: LINK_SCHEME_def is_ws_def)
  then have "trim (encode_link k p) = LINK_SCHEME @ lk_encode k j"
    by (simp add: encode_link_def j trim_id)
  with assms j ws show ?thesis
    by (simp add: decode_link_def Let_def trim_id or_else_def link_laws_def)
qed

section \<open>A codec for examples\<close>

text \<open>A codec for one profile: its JSON is one byte, and bytes are written as two letters each.\<close>

definition one_profile :: profile where
  "one_profile = \<lparr>pr_name = ''home'', pr_selected_server = Some ''main'', pr_servers =
     [\<lparr>se_name = ''main'', se_host = ''192.0.2.1'', se_port = 8443, se_transport = Tcp, se_token = ''t'', se_noise_psk = [],
       se_tls_skip_verify = False, se_server_name = None\<rparr>]\<rparr>"

definition letters_of :: "bytes \<Rightarrow> string" where
  "letters_of bs = concat (map (\<lambda>b. [char_of (65 + unat b div 16), char_of (65 + unat b mod 16)]) bs)"

fun bytes_of_letters :: "string \<Rightarrow> bytes" where
  "bytes_of_letters (a # b # cs) = of_nat ((of_char a - 65) * 16 + (of_char b - 65)) # bytes_of_letters cs"
| "bytes_of_letters _ = []"

definition letter_codec :: link_codec where
  "letter_codec = \<lparr>lk_to_json = (\<lambda>_. Some [123]), lk_from_json = (\<lambda>_. Inr one_profile), lk_encode = letters_of,
     lk_standard = (\<lambda>s. Inr (bytes_of_letters s)), lk_url_safe = (\<lambda>s. Inl ''alphabet''), lk_url_safe_no_pad = (\<lambda>s. Inl ''alphabet'')\<rparr>"

lemma letter_byte: "n < 16 \<Longrightarrow> (of_char (char_of (65 + n :: nat)) :: nat) = 65 + n"
  by (simp add: of_char_of)

lemma nibbles: "unat (b :: u8) div 16 < 16" "unat b mod 16 < 16"
  using unsigned_less [where ?'a = nat, of b] by simp_all

lemma letters_Cons: "letters_of (b # bs) = char_of (65 + unat b div 16) # char_of (65 + unat b mod 16) # letters_of bs"
  by (simp add: letters_of_def)

lemma letters_round: "bytes_of_letters (letters_of bs) = bs"
proof (induction bs)
  case Nil
  then show ?case by (simp add: letters_of_def)
next
  case (Cons b bs)
  have "of_nat (unat b div 16 * 16 + unat b mod 16) = b"
    by (simp only: div_mult_mod_eq) simp
  with Cons show ?case
    unfolding letters_Cons bytes_of_letters.simps letter_byte [OF nibbles(1)] letter_byte [OF nibbles(2)]
    by (simp only: diff_add_inverse)
qed

lemma letter_not_blank: "n < 16 \<Longrightarrow> \<not> is_ws (char_of (65 + n :: nat))"
  unfolding is_ws_def letter_byte by simp

lemma letters_no_blank: "\<forall>c \<in> set (letters_of bs). \<not> is_ws c"
proof (induction bs)
  case Nil
  then show ?case by (simp add: letters_of_def)
next
  case (Cons b bs)
  with letter_not_blank [OF nibbles(1), of b] letter_not_blank [OF nibbles(2), of b] show ?case
    unfolding letters_Cons by simp
qed

lemma letter_codec_laws: "link_laws letter_codec one_profile"
  by (simp add: link_laws_def letter_codec_def letters_round letters_no_blank)

text \<open>A file system of named texts.\<close>

definition put_file :: "string \<Rightarrow> string \<Rightarrow> (string \<rightharpoonup> string) \<Rightarrow> (io_error + unit) \<times> (string \<rightharpoonup> string)" where
  "put_file path body st = (Inr (), st(path \<mapsto> body))"

definition get_file :: "(string \<rightharpoonup> string) \<Rightarrow> string \<Rightarrow> io_error + string" where
  "get_file st path = (case st path of Some body \<Rightarrow> Inr body | None \<Rightarrow> Inl (OtherIo ''no such file''))"

end
