(* ===== verification/Connect.thy ===== *)
theory Connect
  imports Transports Client_Config
begin

text \<open>
  How a link is set up: the Noise handshake of \<open>core/core/src/crypto/noise.rs\<close> on a byte stream, and the
  choice of the transport in \<open>core/core/src/transport/mod.rs\<close> (\<open>connect\<close>, \<open>connect_over\<close>, \<open>Listener\<close>).
  The Noise state machine is the third-party crate \<open>snow\<close>, TLS and WebSocket upgrades are \<open>rustls\<close> and
  \<open>tungstenite\<close>: they are arguments. The cargo features of a build are a record.
\<close>

section \<open>The Noise handshake\<close>

record duplex =
  dx_in :: reader
  dx_out :: writer

definition on_out :: "(writer \<Rightarrow> 'a res \<times> writer) \<Rightarrow> duplex \<Rightarrow> 'a res \<times> duplex" where
  "on_out f d = (case f (dx_out d) of (r, w) \<Rightarrow> (r, d\<lparr>dx_out := w\<rparr>))"

definition on_in :: "(reader \<Rightarrow> 'a res \<times> reader) \<Rightarrow> duplex \<Rightarrow> 'a res \<times> duplex" where
  "on_in f d = (case f (dx_in d) of (r, i) \<Rightarrow> (r, d\<lparr>dx_in := i\<rparr>))"

record ('p, 'hs, 'ts) snow =
  sn_params :: "string \<Rightarrow> string + 'p"
  sn_initiator :: "'p \<Rightarrow> bytes \<Rightarrow> string + 'hs"
  sn_responder :: "'p \<Rightarrow> bytes \<Rightarrow> string + 'hs"
  sn_write :: "'hs \<Rightarrow> bytes \<Rightarrow> string + bytes \<times> 'hs"
  sn_read :: "'hs \<Rightarrow> bytes \<Rightarrow> string + bytes \<times> 'hs"
  sn_transport :: "'hs \<Rightarrow> string + 'ts"

definition noise_err :: "string \<Rightarrow> error" where
  "noise_err e = Crypto (''noise: '' @ e)"

definition write_hs :: "bytes \<Rightarrow> writer \<Rightarrow> unit res \<times> writer" where
  "write_hs data w =
     bind_st (lift_io (write_u16 (of_nat (length data)) w)) (\<lambda>_ w1.
     bind_st (lift_io (write_all data w1)) (\<lambda>_ w2. lift_io (flush w2)))"

definition read_hs :: "reader \<Rightarrow> bytes res \<times> reader" where
  "read_hs r = bind_st (lift_io (read_u16 r)) (\<lambda>len r1. lift_io (read_exact (unat len) r1))"

text \<open>A step of the Noise state machine inside the computation on the stream.\<close>

definition pure_st :: "string + 'a \<Rightarrow> 's \<Rightarrow> 'a res \<times> 's" where
  "pure_st r s = (map_err noise_err r, s)"

definition initiator_handshake :: "('p, 'hs, 'ts) snow \<Rightarrow> bytes \<Rightarrow> duplex \<Rightarrow> 'ts res \<times> duplex" where
  "initiator_handshake sn psk d =
     bind_st (map_err (\<lambda>e. Crypto (''noise params: '' @ e)) (sn_params sn NOISE_PATTERN), d) (\<lambda>params d.
     bind_st (pure_st (sn_initiator sn params psk) d) (\<lambda>hs d.
     bind_st (pure_st (sn_write sn hs []) d) (\<lambda>(buf, hs) d.
     bind_st (on_out (write_hs buf) d) (\<lambda>_ d.
     bind_st (on_in read_hs d) (\<lambda>msg d.
     bind_st (pure_st (sn_read sn hs msg) d) (\<lambda>(scratch, hs) d.
     pure_st (sn_transport sn hs) d))))))"

definition responder_handshake :: "('p, 'hs, 'ts) snow \<Rightarrow> bytes \<Rightarrow> duplex \<Rightarrow> 'ts res \<times> duplex" where
  "responder_handshake sn psk d =
     bind_st (map_err (\<lambda>e. Crypto (''noise params: '' @ e)) (sn_params sn NOISE_PATTERN), d) (\<lambda>params d.
     bind_st (pure_st (sn_responder sn params psk) d) (\<lambda>hs d.
     bind_st (on_in read_hs d) (\<lambda>msg d.
     bind_st (pure_st (sn_read sn hs msg) d) (\<lambda>(scratch, hs) d.
     bind_st (pure_st (sn_write sn hs []) d) (\<lambda>(buf, hs) d.
     bind_st (on_out (write_hs buf) d) (\<lambda>_ d.
     pure_st (sn_transport sn hs) d))))))"

text \<open>What the code relies on: with one key on both sides the two messages of the pattern are accepted and
  the transport states are in step.\<close>

definition snow_laws :: "('p, 'hs, 'ts) snow \<Rightarrow> ('ts \<Rightarrow> 'ts \<Rightarrow> bool) \<Rightarrow> bool" where
  "snow_laws sn in_step \<longleftrightarrow>
     (\<exists>p. sn_params sn NOISE_PATTERN = Inr p \<and>
        (\<forall>psk. \<exists>i0 r0 m1 i1 s1 r1 m2 r2 s2 i2 ti tr.
           sn_initiator sn p psk = Inr i0 \<and> sn_responder sn p psk = Inr r0 \<and>
           sn_write sn i0 [] = Inr (m1, i1) \<and> length m1 < 65536 \<and> sn_read sn r0 m1 = Inr (s1, r1) \<and>
           sn_write sn r1 [] = Inr (m2, r2) \<and> length m2 < 65536 \<and> sn_read sn i1 m2 = Inr (s2, i2) \<and>
           sn_transport sn i2 = Inr ti \<and> sn_transport sn r2 = Inr tr \<and> in_step ti tr))"

lemma pure_st_simps [simp, res_simps]: "pure_st (Inr a) s = (Inr a, s)" "pure_st (Inl e) s = (Inl (noise_err e), s)"
  by (simp_all add: pure_st_def)

definition hs_wire :: "bytes \<Rightarrow> bytes" where
  "hs_wire m = be16 (of_nat (length m)) @ m"

lemma write_hs_healthy:
  "healthy w \<Longrightarrow> write_hs m w = (Inr (), w\<lparr>w_sent := w_sent w @ hs_wire m\<rparr>)"
  by (simp add: write_hs_def write_u16_def hs_wire_def)

lemma read_hs_wire:
  "length m < 65536 \<Longrightarrow> r_avail r = hs_wire m @ rest \<Longrightarrow> read_hs r = (Inr m, r\<lparr>r_avail := rest\<rparr>)"
  by (simp add: read_hs_def hs_wire_def unat_length_u16)

lemma handshake_agrees:
  assumes "snow_laws sn in_step"
  shows "\<exists>b1 b2 ti tr. in_step ti tr \<and>
    (\<forall>w rest. healthy w \<longrightarrow>
       initiator_handshake sn psk \<lparr>dx_in = \<lparr>r_avail = b2 @ rest, r_end = e1\<rparr>, dx_out = w\<rparr> =
         (Inr ti, \<lparr>dx_in = \<lparr>r_avail = rest, r_end = e1\<rparr>, dx_out = w\<lparr>w_sent := w_sent w @ b1\<rparr>\<rparr>)) \<and>
    (\<forall>w rest. healthy w \<longrightarrow>
       responder_handshake sn psk \<lparr>dx_in = \<lparr>r_avail = b1 @ rest, r_end = e2\<rparr>, dx_out = w\<rparr> =
         (Inr tr, \<lparr>dx_in = \<lparr>r_avail = rest, r_end = e2\<rparr>, dx_out = w\<lparr>w_sent := w_sent w @ b2\<rparr>\<rparr>))"
proof -
  from assms obtain p i0 r0 m1 i1 s1 r1 m2 r2 s2 i2 ti tr where
    p: "sn_params sn NOISE_PATTERN = Inr p" and
    h: "sn_initiator sn p psk = Inr i0" "sn_responder sn p psk = Inr r0"
       "sn_write sn i0 [] = Inr (m1, i1)" "sn_read sn r0 m1 = Inr (s1, r1)"
       "sn_write sn r1 [] = Inr (m2, r2)" "sn_read sn i1 m2 = Inr (s2, i2)"
       "sn_transport sn i2 = Inr ti" "sn_transport sn r2 = Inr tr" and
    l: "length m1 < 65536" "length m2 < 65536" and st: "in_step ti tr"
    unfolding snow_laws_def by blast
  have "initiator_handshake sn psk \<lparr>dx_in = \<lparr>r_avail = hs_wire m2 @ rest, r_end = e1\<rparr>, dx_out = w\<rparr> =
      (Inr ti, \<lparr>dx_in = \<lparr>r_avail = rest, r_end = e1\<rparr>, dx_out = w\<lparr>w_sent := w_sent w @ hs_wire m1\<rparr>\<rparr>)"
    if "healthy w" for w rest
    by (simp add: initiator_handshake_def p h on_out_def on_in_def write_hs_healthy [OF that]
        read_hs_wire [OF l(2)])
  moreover have "responder_handshake sn psk \<lparr>dx_in = \<lparr>r_avail = hs_wire m1 @ rest, r_end = e2\<rparr>, dx_out = w\<rparr> =
      (Inr tr, \<lparr>dx_in = \<lparr>r_avail = rest, r_end = e2\<rparr>, dx_out = w\<lparr>w_sent := w_sent w @ hs_wire m2\<rparr>\<rparr>)"
    if "healthy w" for w rest
    by (simp add: responder_handshake_def p h on_out_def on_in_def write_hs_healthy [OF that]
        read_hs_wire [OF l(1)])
  ultimately show ?thesis using st by blast
qed

section \<open>Choosing the transport\<close>

record endpoint =
  ep_host :: string
  ep_port :: u16
  ep_kind :: transport_kind
  ep_ws_path :: string
  ep_server_name :: string

record client_security =
  sec_noise_psk :: bytes
  sec_tls_skip_verify :: bool
  sec_tls_pinned_cert_pem :: "string option"

record server_security =
  svs_noise_psk :: bytes
  svs_tls_cert_pem :: string
  svs_tls_key_pem :: string

record features =
  ft_tcp :: bool
  ft_ws :: bool
  ft_quic :: bool

text \<open>The dialling functions of the three transport modules, and those over a carrier stream.\<close>

record 'l dialers =
  d_tcp :: "endpoint \<Rightarrow> client_security \<Rightarrow> 'l res"
  d_ws :: "endpoint \<Rightarrow> client_security \<Rightarrow> 'l res"
  d_quic :: "endpoint \<Rightarrow> client_security \<Rightarrow> 'l res"

record ('s, 'l) over_dialers =
  o_tcp :: "'s \<Rightarrow> client_security \<Rightarrow> 'l res"
  o_ws :: "'s \<Rightarrow> endpoint \<Rightarrow> client_security \<Rightarrow> 'l res"

definition connect :: "features \<Rightarrow> 'l dialers \<Rightarrow> endpoint \<Rightarrow> client_security \<Rightarrow> 'l res" where
  "connect ft d ep sec =
     (case ep_kind ep of
        Tcp \<Rightarrow> if ft_tcp ft then d_tcp d ep sec else Inl (NotImplemented ''tcp feature disabled in this build'')
      | Ws \<Rightarrow> if ft_ws ft then d_ws d ep sec else Inl (NotImplemented ''ws feature disabled in this build'')
      | Quic \<Rightarrow> if ft_quic ft then d_quic d ep sec else Inl (NotImplemented ''quic feature disabled in this build''))"

definition connect_over ::
  "features \<Rightarrow> ('s, 'l) over_dialers \<Rightarrow> 's \<Rightarrow> endpoint \<Rightarrow> client_security \<Rightarrow> 'l res" where
  "connect_over ft d stream ep sec =
     (case ep_kind ep of
        Tcp \<Rightarrow> if ft_tcp ft then o_tcp d stream sec else Inl (NotImplemented ''tcp feature disabled in this build'')
      | Ws \<Rightarrow> if ft_ws ft then o_ws d stream ep sec else Inl (NotImplemented ''ws feature disabled in this build'')
      | Quic \<Rightarrow> Inl (NotImplemented
          ''QUIC can only be the first hop of a proxy chain (UDP can't tunnel over a relayed stream)''))"

text \<open>The server side: what \<open>bind\<close> and \<open>accept\<close> wrap.\<close>

datatype ('t, 'w, 'q) by_kind = OfTcp 't | OfWs 'w | OfQuic 'q

definition listener_bind ::
  "features \<Rightarrow> 't res \<Rightarrow> (bool \<Rightarrow> 'w res) \<Rightarrow> 'q res \<Rightarrow> transport_kind \<Rightarrow> bool \<Rightarrow> ('t, 'w, 'q) by_kind res" where
  "listener_bind ft bind_tcp bind_ws bind_quic kind ws_tls =
     (case kind of
        Tcp \<Rightarrow> if ft_tcp ft then bind_res bind_tcp (\<lambda>l. Inr (OfTcp l)) else Inl (NotImplemented ''tcp feature disabled'')
      | Ws \<Rightarrow> if ft_ws ft then bind_res (bind_ws ws_tls) (\<lambda>l. Inr (OfWs l)) else Inl (NotImplemented ''ws feature disabled'')
      | Quic \<Rightarrow> if ft_quic ft then bind_res bind_quic (\<lambda>l. Inr (OfQuic l)) else Inl (NotImplemented ''quic feature disabled''))"

definition listener_accept ::
  "('t \<Rightarrow> 'a res) \<Rightarrow> ('w \<Rightarrow> 'b res) \<Rightarrow> ('q \<Rightarrow> 'c res) \<Rightarrow> ('t, 'w, 'q) by_kind \<Rightarrow> ('a, 'b, 'c) by_kind res" where
  "listener_accept acc_tcp acc_ws acc_quic l =
     (case l of
        OfTcp t \<Rightarrow> bind_res (acc_tcp t) (\<lambda>i. Inr (OfTcp i))
      | OfWs w \<Rightarrow> bind_res (acc_ws w) (\<lambda>i. Inr (OfWs i))
      | OfQuic q \<Rightarrow> bind_res (acc_quic q) (\<lambda>i. Inr (OfQuic i)))"

definition incoming_finish ::
  "('a \<Rightarrow> 'l res) \<Rightarrow> ('b \<Rightarrow> 'l res) \<Rightarrow> ('c \<Rightarrow> 'l res) \<Rightarrow> ('a, 'b, 'c) by_kind \<Rightarrow> 'l res" where
  "incoming_finish fin_tcp fin_ws fin_quic i =
     (case i of OfTcp t \<Rightarrow> fin_tcp t | OfWs w \<Rightarrow> fin_ws w | OfQuic q \<Rightarrow> fin_quic q)"

lemma connect_over_quic: "ep_kind ep = Quic \<Longrightarrow> \<exists>e. connect_over ft d stream ep sec = Inl e"
  by (simp add: connect_over_def)

end
