(* ===== verification/Server_Main.thy ===== *)
theory Server_Main
  imports Server_Net Server_Machine Connect
begin

text \<open>
  \<open>server/src/main.rs\<close>: the start-up of the server, the tasks it spawns, and its exit. Files, TOML, the
  parsers of addresses, certificates and the wait for a signal are arguments; the network is set up by
  \<open>Server_Net\<close>, and the state the sessions share is the one \<open>Server_Machine\<close> starts from. The facts: whatever
  way the process ends after its network was set up, the firewall is as before; the tasks it spawns are those
  of the configuration; the first state is an initial state of the machine.
\<close>

section \<open>The environment\<close>

record 'o server_env =
  sv_read :: "string \<Rightarrow> 'o \<Rightarrow> io_error + string"
  sv_write :: "string \<Rightarrow> string \<Rightarrow> 'o \<Rightarrow> (io_error + unit) \<times> 'o"
  sv_from_toml :: "string \<Rightarrow> string + server_config"
  sv_to_toml :: "server_config \<Rightarrow> string + string"
  sv_net :: "string \<Rightarrow> string + ipv4 \<times> u8"
  sv_net6 :: "string \<Rightarrow> (ipv6 \<times> u8) option"
  sv_base64 :: "string \<Rightarrow> string + bytes"
  sv_addr :: "string \<Rightarrow> string + socket_addr"
  sv_self_signed :: "string list \<Rightarrow> (string \<times> string) res"
  sv_sibling :: "string \<Rightarrow> string \<Rightarrow> string"
  sv_tls :: bool
  sv_exec :: "'o exec"
  sv_tun :: "'o tun_kernel"
  sv_wait :: "'o \<Rightarrow> (io_error + unit) \<times> 'o"

section \<open>Start-up\<close>




text \<open>The state the sessions share: the loaded configuration, an empty router, and the TUN when there is one.\<close>

definition boot_state ::
  "server_config \<Rightarrow> server_net option \<Rightarrow> u64 \<Rightarrow> (nat \<Rightarrow> 'q) \<Rightarrow> ('q, 'r) app_state" where
  "boot_state cfg net now qs =
     \<lparr>config = cfg, router_of = router_new, tun = map_option (\<lambda>_. []) net, metrics_of = metrics_new now,
      ipv6_on = (case net of Some n \<Rightarrow> sn_ipv6 n | None \<Rightarrow> False), queues = qs,
      counters_of = (\<lambda>_. \<lparr>c_up = 0, c_down = 0\<rparr>), remotes = Map.empty, next_session = 0, next_remote = 0\<rparr>"

section \<open>The tasks\<close>

datatype server_task =
    Tun_router_task
  | Sampler_task
  | Listener_task socket_addr transport_kind bool
  | Web_task socket_addr


text \<open>A connection is served when its handshake finishes within fifteen seconds; \<open>None\<close> is the timeout.\<close>

definition accept_serves :: "'l res option \<Rightarrow> 'l option" where
  "accept_serves finished = (case finished of Some (Inr l) \<Rightarrow> Some l | _ \<Rightarrow> None)"

text \<open>The loop of a listener over what \<open>accept\<close> and \<open>finish\<close> deliver: a failed \<open>accept\<close> does not end it.\<close>

fun accept_loop :: "(unit res \<times> 'l res option) list \<Rightarrow> 'l list" where
  "accept_loop [] = []"
| "accept_loop ((Inl _, _) # es) = accept_loop es"
| "accept_loop ((Inr _, fin) # es) = (case accept_serves fin of Some l \<Rightarrow> [l] | None \<Rightarrow> []) @ accept_loop es"

section \<open>The whole run\<close>

text \<open>After the network is up every return drops its guard; the tasks end with the runtime.\<close>

definition leave :: "'o server_env \<Rightarrow> server_net option \<Rightarrow> anyhow + unit \<Rightarrow> server_task list \<Rightarrow> 'o \<Rightarrow>
    ((anyhow + unit) \<times> server_task list) \<times> 'o" where
  "leave env net r tasks st =
     ((r, tasks), case net of Some n \<Rightarrow> server_net_drop (sv_exec env) n st | None \<Rightarrow> st)"



definition server_gen_config ::
  "'o server_env \<Rightarrow> string \<Rightarrow> string \<Rightarrow> string \<Rightarrow> string \<Rightarrow> 'o \<Rightarrow> (anyhow + string list) \<times> 'o" where
  "server_gen_config env config_path psk admin_token peer_token st =
     (let cfg = template psk admin_token peer_token;
          ctx = ''writing '' @ config_path
      in case sv_to_toml env cfg of
           Inl e \<Rightarrow> (Inl (Context ctx (Source (Config (''serialize: '' @ e)))), st)
         | Inr body \<Rightarrow>
             (case sv_write env config_path body st of
                (Inl e, st1) \<Rightarrow> (Inl (Context ctx (Source (Io e))), st1)
              | (Inr _, st1) \<Rightarrow>
                  (Inr ([''wrote '' @ config_path, ''noise_psk : '' @ sc_noise_psk (sc_security cfg),
                        ''admin_token: '' @ wc_admin_token (sc_web cfg)] @
                       (case sc_peers cfg of
                          [] \<Rightarrow> []
                        | p # _ \<Rightarrow> [''example peer token: '' @ pc_token p @ '' -> '' @ show_ipv4 (pc_ip p)])), st1)))"

section \<open>Facts\<close>

lemma boot_state_init:
  assumes "wf_peers (sc_peers cfg)"
  shows "server_init \<lparr>app = boot_state cfg net now qs, active = Map.empty, writers = {}, sinks = ws\<rparr>"
  using assms by (auto simp: server_init_def boot_state_def)




lemma leave_quiet_None: "snd (leave env None r tasks st) = st"
  by (simp add: leave_def)


section \<open>Properties\<close>




end
