(* ===== verification/Http_Head.thy ===== *)
theory Http_Head
  imports Wire_Types
begin

text \<open>
  The request parser of the local HTTP proxy (\<open>core/client-core/src/proxy.rs\<close>): \<open>split_host_port\<close>,
  \<open>parse_request_line\<close>, \<open>find_sub\<close> and the read loop of \<open>parse_http_head\<close>. A socket is the list of what its
  successive reads return: an error, or bytes (at most 2048, none at end of file).
\<close>

section \<open>Definitions\<close>

text \<open>\<open>{:?}\<close> of an ASCII string.\<close>

definition debug_char :: "char \<Rightarrow> string" where
  "debug_char c =
     (let n = (of_char c :: nat) in
      if n = 0 then [CHR 0x5C, CHR ''0''] else if n = 9 then [CHR 0x5C, CHR ''t'']
      else if n = 10 then [CHR 0x5C, CHR ''n''] else if n = 13 then [CHR 0x5C, CHR ''r'']
      else if c = CHR 0x22 \<or> c = CHR 0x5C then [CHR 0x5C, c]
      else if n < 32 \<or> n = 127 then CHR 0x5C # ''u{'' @ show_hex n @ ''}'' else [c])"

definition debug_str :: "string \<Rightarrow> string" where
  "debug_str s = [CHR 0x22] @ concat (map debug_char s) @ [CHR 0x22]"

definition find_sub :: "bytes \<Rightarrow> bytes \<Rightarrow> nat option" where
  "find_sub hay needle =
     (if length hay < length needle then None
      else find (\<lambda>i. take (length needle) (drop i hay) = needle) [0..<Suc (length hay - length needle)])"

definition split_host_port :: "string \<Rightarrow> u16 \<Rightarrow> string \<times> u16" where
  "split_host_port s dflt =
     (case rsplit_once (CHR '':'') s of
        Some (h, p) \<Rightarrow> (case parse_u16 p of Some port \<Rightarrow> (h, port) | None \<Rightarrow> (s, dflt))
      | None \<Rightarrow> (s, dflt))"

text \<open>\<open>it.next().unwrap_or("")\<close>.\<close>

fun next_or_empty :: "string list \<Rightarrow> string" where
  "next_or_empty [] = []"
| "next_or_empty (x # xs) = x"

definition host_header :: "string \<Rightarrow> string option" where
  "host_header l =
     (let l = trim l
      in map_option trim (case strip_prefix ''Host:'' l of Some r \<Rightarrow> Some r | None \<Rightarrow> strip_prefix ''host:'' l))"

definition parse_request_line :: "bytes \<Rightarrow> (target_addr \<times> bool) res" where
  "parse_request_line head =
     (let text = text_of head;
          first = next_or_empty (lines text);
          it = split_whitespace first;
          meth = next_or_empty it;
          uri = next_or_empty (drop 1 it)
      in if eq_ignore_ascii_case meth ''CONNECT''
         then (case split_host_port uri 443 of (h, p) \<Rightarrow> Inr (TargetDomain h p, True))
         else
           (let host_port = (case strip_prefix ''http://'' uri of
                               Some rest \<Rightarrow> next_or_empty (split_on (CHR ''/'') rest)
                             | None \<Rightarrow> (case find_map host_header (lines text) of Some h \<Rightarrow> h | None \<Rightarrow> []))
            in if host_port = [] then Inl (Protocol (''cannot parse proxy target: '' @ debug_str first))
               else (case split_host_port host_port 80 of (h, p) \<Rightarrow> Inr (TargetDomain h p, False))))"

definition crlf2 :: bytes where
  "crlf2 = [13, 10, 13, 10]"

type_synonym reads = "(io_error + bytes) list"

fun parse_http_head :: "bytes \<Rightarrow> reads \<Rightarrow> (target_addr \<times> bool \<times> bytes) res \<times> reads" where
  "parse_http_head buf [] = (Inl (Protocol ''eof before request head''), [])"
| "parse_http_head buf (Inl e # rs) = (Inl (Io e), rs)"
| "parse_http_head buf (Inr tmp # rs) =
     (if tmp = [] then (Inl (Protocol ''eof before request head''), rs)
      else
        (let buf = buf @ tmp in
         case find_sub buf crlf2 of
           Some pos \<Rightarrow>
             (bind_res (parse_request_line (take (pos + 4) buf)) (\<lambda>(target, is_connect).
                Inr (target, is_connect, if is_connect then [] else buf)), rs)
         | None \<Rightarrow>
             if length buf > 64 * 1024 then (Inl (Protocol ''request head too large''), rs)
             else parse_http_head buf rs))"

section \<open>Host and port\<close>

lemma split_host_port_round:
  "split_host_port (h @ '':'' @ show_u16 p) d = (h, p)"
proof -
  have "CHR '':'' \<notin> set (show_u16 p)"
    using show_nat_digits [of "unat p"] by (auto simp: show_u16_def list_all_iff is_digit_def)
  then show ?thesis
    by (simp add: split_host_port_def rsplit_once_append)
qed

lemma split_host_port_default: "CHR '':'' \<notin> set s \<Longrightarrow> split_host_port s d = (s, d)"
  by (simp add: split_host_port_def rsplit_once_None)

section \<open>Finding the end of the head\<close>

lemma find_upt_Some:
  "find P [0..<n] = Some i \<longleftrightarrow> i < n \<and> P i \<and> (\<forall>j < i. \<not> P j)"
  by (auto simp: find_Some_iff simp del: upt_Suc)

lemma find_upt_None: "find P [0..<n] = None \<longleftrightarrow> (\<forall>i < n. \<not> P i)"
  by (auto simp: find_None_iff simp del: upt_Suc)

lemma find_sub_SomeD:
  assumes "find_sub hay needle = Some i"
  shows "take (length needle) (drop i hay) = needle" and "i + length needle \<le> length hay"
  using assms by (auto simp: find_sub_def find_upt_Some simp del: upt_Suc split: if_splits)

lemma find_sub_first:
  assumes "find_sub hay needle = Some i" "j < i"
  shows "take (length needle) (drop j hay) \<noteq> needle"
  using assms by (auto simp: find_sub_def find_upt_Some simp del: upt_Suc split: if_splits)

text \<open>A proper prefix of bytes that end with the first terminator has none.\<close>

lemma find_sub_prefix_None:
  assumes "find_sub (xs @ ys) needle = Some i" "i + length needle = length (xs @ ys)" "ys \<noteq> []"
  shows "find_sub xs needle = None"
proof (rule ccontr)
  assume "find_sub xs needle \<noteq> None"
  then obtain j where j: "find_sub xs needle = Some j" by blast
  note jj = find_sub_SomeD [OF j]
  from jj(2) assms(2,3) have "j < i" by (cases ys) auto
  moreover have "take (length needle) (drop j (xs @ ys)) = needle"
    using jj by simp
  ultimately show False
    using find_sub_first [OF assms(1)] by blast
qed

text \<open>However the request head arrives in pieces, the outcome is that of one read.\<close>

definition head_done :: "bytes \<Rightarrow> nat \<Rightarrow> (target_addr \<times> bool \<times> bytes) res" where
  "head_done buf pos = bind_res (parse_request_line (take (pos + 4) buf)) (\<lambda>(target, is_connect).
     Inr (target, is_connect, if is_connect then [] else buf))"

lemma parse_http_head_found:
  "find_sub (buf @ c) crlf2 = Some pos \<Longrightarrow> c \<noteq> [] \<Longrightarrow> parse_http_head buf (Inr c # rs) = (head_done (buf @ c) pos, rs)"
  by (simp add: head_done_def Let_def)

lemma parse_http_head_more:
  "find_sub (buf @ c) crlf2 = None \<Longrightarrow> c \<noteq> [] \<Longrightarrow> length (buf @ c) \<le> 64 * 1024 \<Longrightarrow>
   parse_http_head buf (Inr c # rs) = parse_http_head (buf @ c) rs"
  by (simp add: Let_def)

lemma parse_http_head_too_large:
  "find_sub (buf @ c) crlf2 = None \<Longrightarrow> length (buf @ c) > 64 * 1024 \<Longrightarrow> c \<noteq> [] \<Longrightarrow>
   parse_http_head buf (Inr c # rs) = (Inl (Protocol ''request head too large''), rs)"
  by (simp add: Let_def)

declare parse_http_head.simps(3) [simp del]

lemma parse_http_head_chunks:
  assumes "\<forall>c \<in> set cs. c \<noteq> []" "cs \<noteq> []"
    and "find_sub (buf @ concat cs) crlf2 = Some pos" "pos + 4 = length (buf @ concat cs)"
    and "length (buf @ concat cs) \<le> 64 * 1024"
  shows "parse_http_head buf (map Inr cs) = (head_done (buf @ concat cs) pos, [])"
  using assms
proof (induction cs arbitrary: buf)
  case (Cons c cs)
  show ?case
  proof (cases "cs = []")
    case True
    with Cons.prems show ?thesis by (simp add: parse_http_head_found)
  next
    case False
    with Cons.prems(1) have ne: "concat cs \<noteq> []" by (cases cs) auto
    have "find_sub (buf @ c) crlf2 = None"
      using find_sub_prefix_None [of "buf @ c" "concat cs" crlf2 pos] Cons.prems(3,4) ne
      by (simp add: crlf2_def)
    then show ?thesis
      using Cons.IH [of "buf @ c"] Cons.prems False by (simp add: parse_http_head_more)
  qed
qed simp

text \<open>Whatever the socket does, the buffer stays within one read of the limit: a successful parse of
  reads of at most 2048 bytes forwards at most 64 KiB and one read more.\<close>

lemma parse_http_head_bounded:
  assumes "parse_http_head buf rs = (Inr (t, c, fwd), rs')"
    and "length buf \<le> 64 * 1024" and "\<forall>r \<in> set rs. case r of Inr b \<Rightarrow> length b \<le> 2048 | Inl _ \<Rightarrow> True"
  shows "length fwd \<le> 64 * 1024 + 2048"
  using assms
proof (induction buf rs rule: parse_http_head.induct)
  case (3 buf tmp rs)
  show ?case
  proof (cases "find_sub (buf @ tmp) crlf2")
    case None
    with 3 show ?thesis
      by (cases "length (buf @ tmp) > 64 * 1024")
        (auto simp: parse_http_head.simps(3) Let_def split: if_splits)
  next
    case (Some pos)
    with 3 show ?thesis
      by (auto simp: parse_http_head.simps(3) Let_def bind_res_Inr_iff split: if_splits)
  qed
qed simp_all

section \<open>Request lines\<close>

text \<open>A word: no blank, not empty.\<close>

definition word_ok :: "string \<Rightarrow> bool" where
  "word_ok w \<longleftrightarrow> w \<noteq> [] \<and> list_all (\<lambda>c. \<not> is_ws c) w"

definition crlf :: string where
  "crlf = [carriage_return, newline]"

lemma is_ws_newline [simp]: "is_ws newline" "is_ws carriage_return" "is_ws (CHR '' '')"
  by (simp_all add: is_ws_def newline_def carriage_return_def)

lemma word_no_newline: "word_ok w \<Longrightarrow> newline \<notin> set w"
  by (auto simp: word_ok_def list_all_iff)

lemma request_words:
  assumes "word_ok m" "word_ok u" "word_ok v"
  shows "split_whitespace (m @ '' '' @ u @ '' '' @ v) = [m, u, v]"
  using assms split_whitespace_Cons_ws [of m "CHR '' ''" "u @ '' '' @ v"]
    split_whitespace_Cons_ws [of u "CHR '' ''" v] split_whitespace_word [of v]
  by (simp add: word_ok_def)

lemma first_line:
  assumes "word_ok m" "word_ok u" "word_ok v"
  shows "lines ((m @ '' '' @ u @ '' '' @ v) @ crlf @ rest) = (m @ '' '' @ u @ '' '' @ v) # lines rest"
proof -
  have "(of_char newline :: nat) \<noteq> of_char (CHR '' '')" by (simp add: newline_def)
  then have "newline \<noteq> CHR '' ''" by metis
  then have "newline \<notin> set (m @ '' '' @ u @ '' '' @ v)"
    using assms by (auto dest: word_no_newline)
  then show ?thesis
    unfolding crlf_def by (rule lines_crlf) simp
qed

lemma parse_connect:
  assumes "word_ok h" "word_ok v"
  shows "parse_request_line (bytes_of ((''CONNECT'' @ '' '' @ (h @ '':'' @ show_u16 p) @ '' '' @ v) @ crlf @ rest))
    = Inr (TargetDomain h p, True)"
proof -
  have "list_all (\<lambda>c. \<not> is_ws c) (show_u16 p)"
    using show_nat_digits [of "unat p"] by (auto simp: show_u16_def list_all_iff is_digit_def is_ws_def)
  then have u: "word_ok (h @ '':'' @ show_u16 p)"
    using assms(1) by (simp add: word_ok_def is_ws_def)
  have m: "word_ok ''CONNECT''" by (simp add: word_ok_def is_ws_def)
  have w: "split_whitespace (''CONNECT'' @ '' '' @ (h @ '':'' @ show_u16 p) @ '' '' @ v)
      = [''CONNECT'', h @ '':'' @ show_u16 p, v]"
    by (rule request_words [OF m u assms(2)])
  show ?thesis
    unfolding parse_request_line_def text_of_bytes_of Let_def first_line [OF m u assms(2)]
      next_or_empty.simps w
    by (simp only: drop_Suc_Cons One_nat_def drop0 next_or_empty.simps split_host_port_round prod.case)
      (simp add: eq_ignore_ascii_case_def)
qed

lemma next_or_empty_split_on: "next_or_empty (split_on c s) = takeWhile (\<lambda>x. x \<noteq> c) s"
  using hd_split_on [of c s] by (cases "split_on c s") auto

lemma parse_absolute:
  assumes "word_ok m" "\<not> eq_ignore_ascii_case m ''CONNECT''" "word_ok h" "CHR ''/'' \<notin> set h"
    "list_all (\<lambda>c. \<not> is_ws c) path" "word_ok v"
  shows "parse_request_line (bytes_of ((m @ '' '' @ (''http://'' @ h @ '':'' @ show_u16 p @ ''/'' @ path) @ '' '' @ v)
      @ crlf @ rest)) = Inr (TargetDomain h p, False)"
proof -
  let ?u = "''http://'' @ h @ '':'' @ show_u16 p @ ''/'' @ path"
  have d: "list_all (\<lambda>c. \<not> is_ws c) (show_u16 p)" "CHR ''/'' \<notin> set (show_u16 p)"
    using show_nat_digits [of "unat p"] by (auto simp: show_u16_def list_all_iff is_digit_def is_ws_def)
  then have u: "word_ok ?u"
    using assms(3,5) by (simp add: word_ok_def is_ws_def)
  have w: "split_whitespace (m @ '' '' @ ?u @ '' '' @ v) = [m, ?u, v]"
    by (rule request_words [OF assms(1) u assms(6)])
  have "takeWhile (\<lambda>x. x \<noteq> CHR ''/'') ((h @ '':'' @ show_u16 p) @ CHR ''/'' # path) = h @ '':'' @ show_u16 p"
    using assms(4) d(2) by (subst takeWhile_append2) auto
  then have hp: "next_or_empty (split_on (CHR ''/'') (h @ '':'' @ show_u16 p @ ''/'' @ path)) = h @ '':'' @ show_u16 p"
    by (simp add: next_or_empty_split_on)
  show ?thesis
    unfolding parse_request_line_def text_of_bytes_of Let_def first_line [OF assms(1) u assms(6)]
      next_or_empty.simps w
    by (simp only: drop_Suc_Cons One_nat_def drop0 next_or_empty.simps assms(2) if_False strip_prefix_append
        option.case hp split_host_port_round prod.case) simp
qed

end
