(* ===== verification/Live_Status.thy ===== *)
theory Live_Status
  imports Wire_Types
begin

text \<open>
  The live status of \<open>core/client-core/src/engine.rs\<close>: what the front ends poll, and the saturating
  traffic counters that the proxy loops, the packet bridge and the stall monitor share.
\<close>

record live_status =
  ls_assigned_ip :: "ipv4 option"
  ls_peers :: "peer_info list"
  ls_up_bytes :: u64
  ls_down_bytes :: u64

definition live_default :: live_status where
  "live_default = \<lparr>ls_assigned_ip = None, ls_peers = [], ls_up_bytes = 0, ls_down_bytes = 0\<rparr>"

definition saturating_add :: "u64 \<Rightarrow> u64 \<Rightarrow> u64" where
  "saturating_add a b = (if a \<le> a + b then a + b else - 1)"

definition add_traffic_up :: "nat \<Rightarrow> live_status \<Rightarrow> live_status" where
  "add_traffic_up n s =
     (if n = 0 then s else s\<lparr>ls_up_bytes := saturating_add (ls_up_bytes s) (of_nat n)\<rparr>)"

definition add_traffic_down :: "nat \<Rightarrow> live_status \<Rightarrow> live_status" where
  "add_traffic_down n s =
     (if n = 0 then s else s\<lparr>ls_down_bytes := saturating_add (ls_down_bytes s) (of_nat n)\<rparr>)"

definition traffic_counters :: "live_status \<Rightarrow> u64 \<times> u64" where
  "traffic_counters s = (ls_up_bytes s, ls_down_bytes s)"

lemma saturating_add_mono: "a \<le> saturating_add a b"
  by (simp add: saturating_add_def)

lemma unat_saturating_add: "unat (saturating_add a b) = min (unat a + unat b) (2 ^ 64 - 1)"
proof (cases "a \<le> a + b")
  case True
  then have "unat (a + b) = unat a + unat b"
    by (metis unat_plus_simple)
  moreover have "unat (a + b) < 2 ^ 64"
    using unsigned_less [where ?'a = nat, of "a + b"] by simp
  ultimately show ?thesis
    using True by (simp add: saturating_add_def)
next
  case False
  then have "2 ^ 64 \<le> unat a + unat b"
    using no_olen_add_nat [of a b] by (simp add: not_less)
  moreover have "unat (- 1 :: u64) = 2 ^ 64 - 1"
    by (simp add: unsigned_minus_1_eq_mask mask_eq_exp_minus_1)
  ultimately show ?thesis
    using False by (simp add: saturating_add_def)
qed

lemma traffic_frames [simp]:
  "ls_peers (add_traffic_up n s) = ls_peers s" "ls_peers (add_traffic_down n s) = ls_peers s"
  "ls_assigned_ip (add_traffic_up n s) = ls_assigned_ip s"
  "ls_assigned_ip (add_traffic_down n s) = ls_assigned_ip s"
  "ls_down_bytes (add_traffic_up n s) = ls_down_bytes s"
  "ls_up_bytes (add_traffic_down n s) = ls_up_bytes s"
  by (simp_all add: add_traffic_up_def add_traffic_down_def)

end
