(* ===== verification/Http_Proxy.thy ===== *)
theory Http_Proxy
  imports Http_Head Live_Status Router
begin

text \<open>
  The running part of the local proxy (\<open>core/client-core/src/proxy.rs\<close>): the accept loop's stream
  numbers, the life of one local connection (\<open>handle_local\<close>), the demultiplexer (\<open>reader_loop\<close>) and the
  writer (\<open>writer_loop\<close>), each loop as the step it repeats. Channels are \<open>tokio\<close>'s: \<open>chan\<close> records carry
  them, and a step is \<open>None\<close> while the awaited send has no room.
\<close>

section \<open>State\<close>

record ('q, 'm) chan =
  ch_new :: "nat \<Rightarrow> 'q"
  ch_try_send :: "'q \<Rightarrow> 'm \<Rightarrow> 'q option"
  ch_recv :: "'q \<Rightarrow> ('m \<times> 'q) option"
  ch_drop :: "'q \<Rightarrow> 'q"
  ch_closed :: "'q \<Rightarrow> bool"

definition chan_laws :: "('q, 'm) chan \<Rightarrow> ('q \<Rightarrow> 'm list) \<Rightarrow> bool" where
  "chan_laws c = channel_laws (ch_new c) (ch_try_send c) (ch_recv c) (ch_drop c) (ch_closed c)"

datatype to_local = ToData bytes | ToClose

text \<open>Where a local connection is: about to ask for its stream, about to answer or forward the head,
  pumping (with the uplink task still running or not), or gone.\<close>

datatype local_phase = Opening target_addr bool bytes | Replying bool bytes | Pumps bool | Gone

record local_conn =
  lo_id :: u32
  lo_phase :: local_phase
  lo_sock :: bytes

record ('o, 'l) proxy =
  px_out :: 'o
  px_streams :: "(u32 \<times> nat) list"
  px_chans :: "nat \<Rightarrow> 'l"
  px_locals :: "nat \<rightharpoonup> local_conn"
  px_tun :: "bytes list option"
  px_status :: live_status
  px_next_id :: u32
  px_next :: nat

section \<open>Operations\<close>

text \<open>\<open>tx.send(m).await\<close>: \<open>None\<close> while the channel is full, else whether it was accepted.\<close>

definition chan_send :: "('q, 'm) chan \<Rightarrow> 'm \<Rightarrow> 'q \<Rightarrow> (bool \<times> 'q) option" where
  "chan_send c m q =
     (if ch_closed c q then Some (False, q) else map_option (\<lambda>q'. (True, q')) (ch_try_send c q m))"

definition send_frame ::
  "('o, frame) chan \<Rightarrow> frame \<Rightarrow> ('o, 'l) proxy \<Rightarrow> (bool \<times> ('o, 'l) proxy) option" where
  "send_frame co f px = map_option (\<lambda>(ok, q). (ok, px\<lparr>px_out := q\<rparr>)) (chan_send co f (px_out px))"

definition set_local :: "nat \<Rightarrow> local_conn \<Rightarrow> ('o, 'l) proxy \<Rightarrow> ('o, 'l) proxy" where
  "set_local n lc px = px\<lparr>px_locals := (px_locals px)(n \<mapsto> lc)\<rparr>"

text \<open>The accept loop numbers the streams from 1 with a wrapping counter; the handler then reads the head.\<close>

definition accept_local ::
  "reads \<Rightarrow> ('o, 'l) proxy \<Rightarrow> (nat res \<times> reads) \<times> ('o, 'l) proxy" where
  "accept_local rs px =
     (let i = px_next_id px; px1 = px\<lparr>px_next_id := i + 1\<rparr>
      in case parse_http_head [] rs of
           (Inl e, rs') \<Rightarrow> ((Inl e, rs'), px1)
         | (Inr (target, is_connect, forward), rs') \<Rightarrow>
             (let n = px_next px1
              in ((Inr n, rs'),
                  set_local n \<lparr>lo_id = i, lo_phase = Opening target is_connect forward, lo_sock = []\<rparr>
                    (px1\<lparr>px_next := Suc n\<rparr>))))"

definition local_open ::
  "('o, frame) chan \<Rightarrow> ('l, to_local) chan \<Rightarrow> nat \<Rightarrow> local_conn \<Rightarrow> ('o, 'l) proxy \<Rightarrow> ('o, 'l) proxy option" where
  "local_open co cl n lc px =
     (case lo_phase lc of
        Opening target is_connect forward \<Rightarrow>
          (let px1 = px\<lparr>px_chans := (px_chans px)(n := ch_new cl 256),
                        px_streams := AList.update (lo_id lc) n (px_streams px)\<rparr>
           in case send_frame co (StreamOpen (lo_id lc) target) px1 of
                None \<Rightarrow> None
              | Some (True, px2) \<Rightarrow> Some (set_local n (lc\<lparr>lo_phase := Replying is_connect forward\<rparr>) px2)
              | Some (False, px2) \<Rightarrow> Some (set_local n (lc\<lparr>lo_phase := Gone\<rparr>) px2))
      | _ \<Rightarrow> None)"

definition established_reply :: bytes where
  "established_reply = bytes_of (''HTTP/1.1 200 Connection Established'' @ crlf @ crlf)"

text \<open>\<open>wrote\<close> is what \<open>write_all\<close> on the local socket answers.\<close>

definition local_reply ::
  "('o, frame) chan \<Rightarrow> nat \<Rightarrow> local_conn \<Rightarrow> io_error + unit \<Rightarrow> ('o, 'l) proxy \<Rightarrow> ('o, 'l) proxy option" where
  "local_reply co n lc wrote px =
     (case lo_phase lc of
        Replying is_connect forward \<Rightarrow>
          if is_connect then
            (case wrote of
               Inr _ \<Rightarrow> Some (set_local n (lc\<lparr>lo_phase := Pumps True, lo_sock := lo_sock lc @ established_reply\<rparr>) px)
             | Inl _ \<Rightarrow> Some (set_local n (lc\<lparr>lo_phase := Gone\<rparr>) px))
          else if forward \<noteq> [] then
            (case send_frame co (StreamData (lo_id lc) forward) px of
               None \<Rightarrow> None
             | Some (True, px1) \<Rightarrow> Some (set_local n (lc\<lparr>lo_phase := Pumps True\<rparr>) px1)
             | Some (False, px1) \<Rightarrow> Some (set_local n (lc\<lparr>lo_phase := Gone\<rparr>) px1))
          else Some (set_local n (lc\<lparr>lo_phase := Pumps True\<rparr>) px)
      | _ \<Rightarrow> None)"

text \<open>The uplink task: a read of the local socket; after the loop it announces the close.\<close>

definition local_eof ::
  "('o, frame) chan \<Rightarrow> nat \<Rightarrow> local_conn \<Rightarrow> ('o, 'l) proxy \<Rightarrow> ('o, 'l) proxy option" where
  "local_eof co n lc px =
     map_option (\<lambda>(ok, px1). set_local n (lc\<lparr>lo_phase := Pumps False\<rparr>) px1)
       (send_frame co (StreamClose (lo_id lc) None) px)"

definition local_read ::
  "('o, frame) chan \<Rightarrow> nat \<Rightarrow> local_conn \<Rightarrow> io_error + bytes \<Rightarrow> ('o, 'l) proxy \<Rightarrow> ('o, 'l) proxy option" where
  "local_read co n lc got px =
     (if lo_phase lc \<noteq> Pumps True then None
      else case got of
        Inr (b # bs) \<Rightarrow>
          (case send_frame co (StreamData (lo_id lc) (b # bs)) px of
             None \<Rightarrow> None
           | Some (True, px1) \<Rightarrow> Some px1
           | Some (False, px1) \<Rightarrow> local_eof co n lc px1)
      | _ \<Rightarrow> local_eof co n lc px)"

text \<open>The downlink loop of \<open>handle_local\<close>; its end aborts the uplink and forgets the stream. \<open>held\<close> says
  whether a sender for the channel is still around.\<close>

definition local_end ::
  "('l, to_local) chan \<Rightarrow> nat \<Rightarrow> local_conn \<Rightarrow> 'l \<Rightarrow> ('o, 'l) proxy \<Rightarrow> ('o, 'l) proxy" where
  "local_end cl n lc q px =
     set_local n (lc\<lparr>lo_phase := Gone\<rparr>)
       (px\<lparr>px_streams := AList.delete (lo_id lc) (px_streams px), px_chans := (px_chans px)(n := ch_drop cl q)\<rparr>)"

definition local_deliver ::
  "('l, to_local) chan \<Rightarrow> nat \<Rightarrow> local_conn \<Rightarrow> bool \<Rightarrow> io_error + unit \<Rightarrow> ('o, 'l) proxy \<Rightarrow> ('o, 'l) proxy option" where
  "local_deliver cl n lc held wrote px =
     (case lo_phase lc of
        Pumps up \<Rightarrow>
          (case ch_recv cl (px_chans px n) of
             Some (ToData d, q') \<Rightarrow>
               (case wrote of
                  Inr _ \<Rightarrow> Some (set_local n (lc\<lparr>lo_sock := lo_sock lc @ d\<rparr>) (px\<lparr>px_chans := (px_chans px)(n := q')\<rparr>))
                | Inl _ \<Rightarrow> Some (local_end cl n lc q' px))
           | Some (ToClose, q') \<Rightarrow> Some (local_end cl n lc q' px)
           | None \<Rightarrow> if held then None else Some (local_end cl n lc (px_chans px n) px))
      | _ \<Rightarrow> None)"

text \<open>\<open>reader_loop\<close> for a received frame.\<close>

definition send_local ::
  "('l, to_local) chan \<Rightarrow> nat \<Rightarrow> to_local \<Rightarrow> ('o, 'l) proxy \<Rightarrow> ('o, 'l) proxy option" where
  "send_local cl n msg px =
     map_option (\<lambda>(ok, q). px\<lparr>px_chans := (px_chans px)(n := q)\<rparr>) (chan_send cl msg (px_chans px n))"

fun reader_frame ::
  "('o, frame) chan \<Rightarrow> ('l, to_local) chan \<Rightarrow> frame \<Rightarrow> ('o, 'l) proxy \<Rightarrow> ('o, 'l) proxy option" where
  "reader_frame co cl (StreamData i d) px =
     map_option (\<lambda>p. p\<lparr>px_status := add_traffic_down (length d) (px_status p)\<rparr>)
       (case map_of (px_streams px) i of Some n \<Rightarrow> send_local cl n (ToData d) px | None \<Rightarrow> Some px)"
| "reader_frame co cl (StreamClose i e) px =
     (let px1 = px\<lparr>px_streams := AList.delete i (px_streams px)\<rparr>
      in case map_of (px_streams px) i of Some n \<Rightarrow> send_local cl n ToClose px1 | None \<Rightarrow> Some px1)"
| "reader_frame co cl Ping px = map_option snd (send_frame co Pong px)"
| "reader_frame co cl (Packet pkt) px =
     Some (px\<lparr>px_tun := map_option (\<lambda>sent. sent @ [pkt]) (px_tun px),
              px_status := add_traffic_down (length pkt) (px_status px)\<rparr>)"
| "reader_frame co cl (PeerList ps) px = Some (px\<lparr>px_status := (px_status px)\<lparr>ls_peers := ps\<rparr>\<rparr>)"
| "reader_frame co cl f px = Some px"

text \<open>A turn of \<open>writer_loop\<close>: a keepalive tick or the next queued frame; the flag says whether the
  loop goes on.\<close>

definition writer_tick ::
  "(frame \<Rightarrow> 'w \<Rightarrow> unit res \<times> 'w) \<Rightarrow> ('w \<Rightarrow> 'w) \<Rightarrow> 'w \<Rightarrow> bool \<times> 'w" where
  "writer_tick send close w = (case send Ping w of (Inr _, w') \<Rightarrow> (True, w') | (Inl _, w') \<Rightarrow> (False, close w'))"

definition writer_next ::
  "('o, frame) chan \<Rightarrow> (frame \<Rightarrow> 'w \<Rightarrow> unit res \<times> 'w) \<Rightarrow> ('w \<Rightarrow> 'w) \<Rightarrow> 'w \<Rightarrow> ('o, 'l) proxy \<Rightarrow>
   (bool \<times> 'w \<times> ('o, 'l) proxy) option" where
  "writer_next co send close w px =
     (case ch_recv co (px_out px) of
        None \<Rightarrow> None
      | Some (f, q') \<Rightarrow>
          (case send f w of
             (Inr _, w') \<Rightarrow> Some (True, w', px\<lparr>px_out := q', px_status := add_traffic_up (payload_len f) (px_status px)\<rparr>)
           | (Inl _, w') \<Rightarrow> Some (False, close w', px\<lparr>px_out := ch_drop co q'\<rparr>)))"

text \<open>Packets of the VPN LAN and the peer poll go out on the same queue.\<close>

definition lan_packet ::
  "('o, frame) chan \<Rightarrow> bytes \<Rightarrow> ('o, 'l) proxy \<Rightarrow> (bool \<times> ('o, 'l) proxy) option" where
  "lan_packet co pkt px = (if pkt = [] then Some (True, px) else send_frame co (Packet pkt) px)"

definition lan_poll :: "('o, frame) chan \<Rightarrow> ('o, 'l) proxy \<Rightarrow> (bool \<times> ('o, 'l) proxy) option" where
  "lan_poll co px = send_frame co GetPeers px"

section \<open>Bytes from the server reach the local socket in order\<close>

fun data_of :: "to_local \<Rightarrow> bytes" where
  "data_of (ToData d) = d"
| "data_of ToClose = []"

fun is_data :: "to_local \<Rightarrow> bool" where
  "is_data (ToData d) = True"
| "is_data ToClose = False"

text \<open>A schedule for one stream: \<open>Some d\<close> is a data frame for it, \<open>None\<close> a turn of its downlink loop.\<close>

fun feed_run ::
  "('o, frame) chan \<Rightarrow> ('l, to_local) chan \<Rightarrow> u32 \<Rightarrow> nat \<Rightarrow> bytes option list \<Rightarrow> ('o, 'l) proxy \<Rightarrow>
   ('o, 'l) proxy option" where
  "feed_run co cl i n [] px = Some px"
| "feed_run co cl i n (Some d # ops) px =
     Option.bind (reader_frame co cl (StreamData i d) px) (feed_run co cl i n ops)"
| "feed_run co cl i n (None # ops) px =
     Option.bind (case px_locals px n of Some lc \<Rightarrow> local_deliver cl n lc True (Inr ()) px | None \<Rightarrow> None)
       (feed_run co cl i n ops)"

text \<open>A stream in its data phase: registered, pumping, and with nothing but data waiting.\<close>

definition flowing ::
  "('l, to_local) chan \<Rightarrow> ('l \<Rightarrow> to_local list) \<Rightarrow> u32 \<Rightarrow> nat \<Rightarrow> ('o, 'l) proxy \<Rightarrow> bool" where
  "flowing cl pending i n px \<longleftrightarrow>
     map_of (px_streams px) i = Some n \<and> \<not> ch_closed cl (px_chans px n) \<and>
     list_all is_data (pending (px_chans px n)) \<and>
     (case px_locals px n of Some lc \<Rightarrow> \<exists>u. lo_phase lc = Pumps u | None \<Rightarrow> False)"

definition sock_feed :: "('l \<Rightarrow> to_local list) \<Rightarrow> nat \<Rightarrow> ('o, 'l) proxy \<Rightarrow> bytes" where
  "sock_feed pending n px =
     (case px_locals px n of Some lc \<Rightarrow> lo_sock lc | None \<Rightarrow> []) @ concat (map data_of (pending (px_chans px n)))"

lemma reader_data_feed:
  assumes "chan_laws cl pending" "flowing cl pending i n px" "reader_frame co cl (StreamData i d) px = Some px'"
  shows "flowing cl pending i n px' \<and> sock_feed pending n px' = sock_feed pending n px @ d"
  using assms
  by (auto simp: flowing_def sock_feed_def send_local_def chan_send_def chan_laws_def channel_laws_def
      split: if_splits option.splits)

lemma local_deliver_feed:
  assumes "chan_laws cl pending" "flowing cl pending i n px" "px_locals px n = Some lc"
    and "local_deliver cl n lc True (Inr ()) px = Some px'"
  shows "flowing cl pending i n px' \<and> sock_feed pending n px' = sock_feed pending n px \<and>
    (\<exists>d. lo_sock (the (px_locals px' n)) = lo_sock lc @ d)"
proof -
  from assms(2,3) obtain u where u: "lo_phase lc = Pumps u"
    by (auto simp: flowing_def)
  from assms(4) u obtain m q' where r: "ch_recv cl (px_chans px n) = Some (m, q')"
    by (auto simp: local_deliver_def split: option.splits)
  with assms(1) have p: "pending (px_chans px n) = m # pending q'" "ch_closed cl q' = ch_closed cl (px_chans px n)"
    unfolding chan_laws_def channel_laws_def by blast+
  with assms(2) obtain d where "m = ToData d"
    by (cases m) (auto simp: flowing_def)
  with assms u r p show ?thesis
    by (auto simp: local_deliver_def set_local_def flowing_def sock_feed_def)
qed

lemma feed_run_in_order:
  assumes "chan_laws cl pending" "flowing cl pending i n px" "feed_run co cl i n ops px = Some px'"
  shows "flowing cl pending i n px' \<and>
    sock_feed pending n px' = sock_feed pending n px @ concat (map (case_option [] id) ops)"
  using assms(2,3)
proof (induction ops arbitrary: px)
  case (Cons x ops)
  show ?case
  proof (cases x)
    case None
    with Cons.prems obtain lc px1 where lc: "px_locals px n = Some lc"
      and d: "local_deliver cl n lc True (Inr ()) px = Some px1" and r: "feed_run co cl i n ops px1 = Some px'"
      by (auto simp: bind_eq_Some_conv split: option.splits)
    with local_deliver_feed [OF assms(1) Cons.prems(1) lc d] Cons.IH [OF _ r] None show ?thesis by simp
  next
    case (Some d)
    with Cons.prems obtain px1 where d: "reader_frame co cl (StreamData i d) px = Some px1"
      and r: "feed_run co cl i n ops px1 = Some px'"
      by (auto simp: bind_eq_Some_conv)
    with reader_data_feed [OF assms(1) Cons.prems(1) d] Cons.IH [OF _ r] Some show ?thesis by simp
  qed
qed simp

section \<open>The end of a stream\<close>

text \<open>When the server closes a stream first, the local handler goes away without a word to the server.\<close>

lemma server_close_silent:
  assumes "lo_phase lc = Pumps u" "ch_recv cl (px_chans px n) = Some (ToClose, q')"
  shows "\<exists>px'. local_deliver cl n lc held wrote px = Some px' \<and> px_out px' = px_out px \<and>
    px_locals px' n = Some (lc\<lparr>lo_phase := Gone\<rparr>) \<and> map_of (px_streams px') (lo_id lc) = None"
  using assms by (simp add: local_deliver_def local_end_def set_local_def delete_conv')

lemma gone_is_silent:
  assumes "lo_phase lc = Gone"
  shows "local_open co cl n lc px = None" "local_reply co n lc wrote px = None"
    "local_read co n lc got px = None" "local_deliver cl n lc held wrote px = None"
  using assms by (simp_all add: local_open_def local_reply_def local_read_def local_deliver_def)

section \<open>Bounded queues as channels\<close>

definition queue_chan :: "('m queue, 'm) chan" where
  "queue_chan = \<lparr>ch_new = q_channel, ch_try_send = q_try_send, ch_recv = q_recv, ch_drop = q_drop, ch_closed = fst\<rparr>"

lemma queue_chan_laws: "chan_laws queue_chan q_pending"
  using bounded_laws by (simp add: chan_laws_def queue_chan_def)

end
