(* ===== verification/Chain.thy ===== *)
theory Chain
  imports Connect Ip_Parse Http_Proxy Frame_Channel
begin

text \<open>
  Proxy chains, \<open>core/client-core/src/chain.rs\<close>: the per-hop handshake, the carrier that turns a relayed
  stream into a byte stream for the next hop (its three pumps as steps), and the loop that builds the
  chain. A \<open>network\<close> record carries what is not in the repository: name lookup, the dialling functions and
  the links' frame sends and receives; \<open>net_debug\<close> is the derived \<open>Debug\<close> text of a frame.
\<close>

section \<open>Carriers\<close>

definition CARRIER_ID :: u32 where
  "CARRIER_ID = 1"

text \<open>A carrier over a link: the queue of frames to the previous hop, the bytes the next hop can read from
  \<open>near\<close>, and which of the three pumps still run.\<close>

record ('l, 'o) carrier =
  ca_link :: 'l
  ca_out :: 'o
  ca_near :: bytes
  ca_writing :: bool
  ca_up :: bool
  ca_down :: bool

definition open_carrier ::
  "('o, frame) chan \<Rightarrow> 'l \<Rightarrow> target_addr \<Rightarrow> ('l, 'o) carrier res" where
  "open_carrier co l target =
     (case ch_try_send co (ch_new co 1024) (StreamOpen CARRIER_ID target) of
        None \<Rightarrow> Inl (Transport ''carrier closed before open'')
      | Some q \<Rightarrow> Inr \<lparr>ca_link = l, ca_out = q, ca_near = [], ca_writing = True, ca_up = True, ca_down = True\<rparr>)"

definition carrier_write ::
  "('o, frame) chan \<Rightarrow> (frame \<Rightarrow> 'l \<Rightarrow> unit res \<times> 'l) \<Rightarrow> ('l \<Rightarrow> 'l) \<Rightarrow> ('l, 'o) carrier \<Rightarrow>
   ('l, 'o) carrier option" where
  "carrier_write co tx close c =
     (if \<not> ca_writing c then None
      else case ch_recv co (ca_out c) of
        None \<Rightarrow> None
      | Some (f, q) \<Rightarrow>
          (case tx f (ca_link c) of
             (Inr _, l) \<Rightarrow> Some (c\<lparr>ca_link := l, ca_out := q\<rparr>)
           | (Inl _, l) \<Rightarrow> Some (c\<lparr>ca_link := close l, ca_out := ch_drop co q, ca_writing := False\<rparr>)))"

definition carrier_up_end :: "('o, frame) chan \<Rightarrow> ('l, 'o) carrier \<Rightarrow> ('l, 'o) carrier option" where
  "carrier_up_end co c =
     map_option (\<lambda>(ok, q). c\<lparr>ca_out := q, ca_up := False\<rparr>) (chan_send co (StreamClose CARRIER_ID None) (ca_out c))"

text \<open>\<open>got\<close> is what a read of the far end returns: the bytes the next hop wrote, none when it is gone.\<close>

definition carrier_up ::
  "('o, frame) chan \<Rightarrow> io_error + bytes \<Rightarrow> ('l, 'o) carrier \<Rightarrow> ('l, 'o) carrier option" where
  "carrier_up co got c =
     (if \<not> ca_up c then None
      else case got of
        Inr (b # bs) \<Rightarrow>
          (case chan_send co (StreamData CARRIER_ID (b # bs)) (ca_out c) of
             None \<Rightarrow> None
           | Some (True, q) \<Rightarrow> Some (c\<lparr>ca_out := q\<rparr>)
           | Some (False, q) \<Rightarrow> carrier_up_end co (c\<lparr>ca_out := q\<rparr>))
      | _ \<Rightarrow> carrier_up_end co c)"

definition carrier_down ::
  "('o, frame) chan \<Rightarrow> frame res \<Rightarrow> io_error + unit \<Rightarrow> ('l, 'o) carrier \<Rightarrow> ('l, 'o) carrier option" where
  "carrier_down co got wrote c =
     (if \<not> ca_down c then None
      else case got of
        Inl _ \<Rightarrow> Some (c\<lparr>ca_down := False\<rparr>)
      | Inr (StreamData i d) \<Rightarrow>
          if i = CARRIER_ID then
            (case wrote of Inr _ \<Rightarrow> Some (c\<lparr>ca_near := ca_near c @ d\<rparr>) | Inl _ \<Rightarrow> Some (c\<lparr>ca_down := False\<rparr>))
          else Some c
      | Inr (StreamClose i e) \<Rightarrow> if i = CARRIER_ID then Some (c\<lparr>ca_down := False\<rparr>) else Some c
      | Inr Ping \<Rightarrow> map_option (\<lambda>(ok, q). c\<lparr>ca_out := q\<rparr>) (chan_send co Pong (ca_out c))
      | Inr _ \<Rightarrow> Some c)"

section \<open>One hop\<close>

record ('l, 'o) network =
  net_lookup :: "string \<Rightarrow> u16 \<Rightarrow> io_error + ip_addr list"
  net_features :: features
  net_dial :: "'l dialers"
  net_over :: "(('l, 'o) carrier, 'l) over_dialers"
  net_tx :: "frame \<Rightarrow> 'l \<Rightarrow> unit res \<times> 'l"
  net_rx :: "'l \<Rightarrow> frame res \<times> 'l"
  net_debug :: "frame \<Rightarrow> string"
  net_base64 :: "string \<Rightarrow> string + bytes"

definition endpoint_of :: "server_entry \<Rightarrow> endpoint" where
  "endpoint_of s = \<lparr>ep_host = se_host s, ep_port = se_port s, ep_kind = se_transport s,
     ep_ws_path = ''/et'', ep_server_name = sni s\<rparr>"

definition security_of :: "(string \<Rightarrow> string + bytes) \<Rightarrow> server_entry \<Rightarrow> client_security res" where
  "security_of base64 s =
     bind_res (parse_psk base64 (se_noise_psk s)) (\<lambda>k.
       Inr \<lparr>sec_noise_psk = k, sec_tls_skip_verify = se_tls_skip_verify s, sec_tls_pinned_cert_pem = None\<rparr>)"

definition target_of :: "server_entry \<Rightarrow> target_addr" where
  "target_of s = (case parse_ip (se_host s) of
     Some ip \<Rightarrow> TargetIp (SocketAddr ip (se_port s)) | None \<Rightarrow> TargetDomain (se_host s) (se_port s))"

definition resolve :: "('l, 'o) network \<Rightarrow> string \<Rightarrow> u16 \<Rightarrow> ip_addr res" where
  "resolve net host port =
     (case parse_ip host of
        Some ip \<Rightarrow> Inr ip
      | None \<Rightarrow> bind_res (map_err Io (net_lookup net host port)) (\<lambda>as.
          (case as of [] \<Rightarrow> Inl (Config (''cannot resolve host '' @ host)) | a # _ \<Rightarrow> Inr a)))"

definition hop_hello :: "server_entry \<Rightarrow> session_mode \<Rightarrow> ipv4 option \<Rightarrow> string option \<Rightarrow> hello_msg" where
  "hop_hello srv mode requested_ip client_name =
     \<lparr>h_version = PROTOCOL_VERSION, h_token = se_token srv, h_mode = wire mode, h_requested_ip = requested_ip,
      h_client_name = client_name, h_join_vpn = False\<rparr>"

definition await_welcome :: "('l, 'o) network \<Rightarrow> 'l \<Rightarrow> welcome_msg res \<times> 'l" where
  "await_welcome net l =
     bind_st (net_rx net l) (\<lambda>f l.
       (case f of
          Welcome w \<Rightarrow> Inr w
        | Reject reason \<Rightarrow> Inl (Auth reason)
        | other \<Rightarrow> Inl (Protocol (''expected Welcome, got '' @ net_debug net other)), l))"

definition handshake ::
  "('l, 'o) network \<Rightarrow> 'l \<Rightarrow> server_entry \<Rightarrow> session_mode \<Rightarrow> ipv4 option \<Rightarrow> string option \<Rightarrow> welcome_msg res \<times> 'l" where
  "handshake net l srv mode requested_ip client_name =
     bind_st (net_tx net (Hello (hop_hello srv mode requested_ip client_name)) l) (\<lambda>_ l. await_welcome net l)"

section \<open>The chain\<close>

record 'l chain_tunnel =
  ct_link :: 'l
  ct_welcome :: welcome_msg
  ct_first_hop_ip :: ip_addr

text \<open>The loop over the later hops: \<open>k\<close> is the index of the next one.\<close>

fun chain_loop ::
  "('o, frame) chan \<Rightarrow> ('l, 'o) network \<Rightarrow> session_mode \<Rightarrow> ipv4 option \<Rightarrow> string option \<Rightarrow> nat \<Rightarrow> nat \<Rightarrow>
   server_entry list \<Rightarrow> 'l \<Rightarrow> welcome_msg \<Rightarrow> ('l \<times> welcome_msg) res" where
  "chain_loop co net final_mode requested_ip client_name final_k k [] l w = Inr (l, w)"
| "chain_loop co net final_mode requested_ip client_name final_k k (h # hs) l w =
     bind_res (open_carrier co l (target_of h)) (\<lambda>near.
     bind_res (security_of (net_base64 net) h) (\<lambda>sec.
     bind_res (connect_over (net_features net) (net_over net) near (endpoint_of h) sec) (\<lambda>l1.
       (let mode_k = (if k = final_k then final_mode else HttpProxy);
            rip = (if k = final_k then requested_ip else None)
        in case handshake net l1 h mode_k rip client_name of
             (Inl e, _) \<Rightarrow> Inl e
           | (Inr w', l2) \<Rightarrow>
               chain_loop co net final_mode requested_ip client_name final_k (Suc k) hs l2 w'))))"

definition connect_chain ::
  "('o, frame) chan \<Rightarrow> ('l, 'o) network \<Rightarrow> server_entry list \<Rightarrow> session_mode \<Rightarrow> ipv4 option \<Rightarrow> string option \<Rightarrow>
   'l chain_tunnel res" where
  "connect_chain co net hops final_mode requested_ip client_name =
     (case hops of
        [] \<Rightarrow> Inl (Config ''proxy chain is empty'')
      | h0 # hs \<Rightarrow>
          (let final_k = length hops - 1 in
           bind_res (resolve net (se_host h0) (se_port h0)) (\<lambda>first_hop_ip.
           bind_res (security_of (net_base64 net) h0) (\<lambda>sec0.
           bind_res (connect (net_features net) (net_dial net) (endpoint_of h0) sec0) (\<lambda>l.
             (let mode0 = (if final_k = 0 then final_mode else HttpProxy);
                  rip0 = (if final_k = 0 then requested_ip else None)
              in case handshake net l h0 mode0 rip0 client_name of
                   (Inl e, _) \<Rightarrow> Inl e
                 | (Inr w, l1) \<Rightarrow>
                     bind_res (chain_loop co net final_mode requested_ip client_name final_k 1 hs l1 w) (\<lambda>(l2, w').
                       Inr \<lparr>ct_link = l2, ct_welcome = w', ct_first_hop_ip = first_hop_ip\<rparr>)))))))"

fun resolve_hops :: "string list \<Rightarrow> server_entry list \<Rightarrow> server_entry list" where
  "resolve_hops [] servers = []"
| "resolve_hops (name # names) servers =
     (case find (\<lambda>s. se_name s = name) servers of
        Some s \<Rightarrow> s # resolve_hops names servers
      | None \<Rightarrow> resolve_hops names servers)"

section \<open>The chain as a plan\<close>

text \<open>The reference: what each hop is asked, and one uniform step from hop to hop.\<close>

definition chain_plan ::
  "server_entry list \<Rightarrow> session_mode \<Rightarrow> ipv4 option \<Rightarrow> (server_entry \<times> session_mode \<times> ipv4 option) list" where
  "chain_plan hops final_mode rip =
     map (\<lambda>h. (h, HttpProxy, None)) (butlast hops) @ map (\<lambda>h. (h, final_mode, rip)) (drop (length hops - 1) hops)"

definition reach_hop ::
  "('o, frame) chan \<Rightarrow> ('l, 'o) network \<Rightarrow> 'l option \<Rightarrow> server_entry \<Rightarrow> 'l res" where
  "reach_hop co net prev h =
     (case prev of
        None \<Rightarrow> bind_res (security_of (net_base64 net) h) (\<lambda>sec.
                  connect (net_features net) (net_dial net) (endpoint_of h) sec)
      | Some l \<Rightarrow> bind_res (open_carrier co l (target_of h)) (\<lambda>near.
                    bind_res (security_of (net_base64 net) h) (\<lambda>sec.
                      connect_over (net_features net) (net_over net) near (endpoint_of h) sec)))"

fun run_plan ::
  "('o, frame) chan \<Rightarrow> ('l, 'o) network \<Rightarrow> string option \<Rightarrow> (server_entry \<times> session_mode \<times> ipv4 option) list \<Rightarrow>
   ('l \<times> welcome_msg) option \<Rightarrow> ('l \<times> welcome_msg) option res" where
  "run_plan co net cname [] prev = Inr prev"
| "run_plan co net cname ((h, mode, ip) # rest) prev =
     bind_res (reach_hop co net (map_option fst prev) h) (\<lambda>l.
       (case handshake net l h mode ip cname of
          (Inl e, _) \<Rightarrow> Inl e
        | (Inr w, l') \<Rightarrow> run_plan co net cname rest (Some (l', w))))"

lemma bind_res_assoc: "bind_res (bind_res r f) g = bind_res r (\<lambda>x. bind_res (f x) g)"
  by (cases r) simp_all

lemma chain_plan_Cons:
  "hs \<noteq> [] \<Longrightarrow> chain_plan (h # hs) m ip = (h, HttpProxy, None) # chain_plan hs m ip"
  by (cases hs rule: rev_cases) (simp_all add: chain_plan_def butlast_append)

lemma chain_plan_single: "chain_plan [h] m ip = [(h, m, ip)]"
  by (simp add: chain_plan_def)

lemma chain_loop_plan:
  assumes "k + length hs = Suc final_k"
  shows "bind_res (chain_loop co net m ip cname final_k k hs l w) (\<lambda>x. Inr (Some x)) =
    run_plan co net cname (chain_plan hs m ip) (Some (l, w))"
  using assms
proof (induction hs arbitrary: k l w)
  case Nil
  then show ?case by (simp add: chain_plan_def)
next
  case (Cons h hs)
  show ?case
  proof (cases "hs = []")
    case True
    with Cons.prems show ?thesis
      by (simp add: chain_plan_single reach_hop_def bind_res_def Let_def split: sum.splits prod.splits)
  next
    case False
    with Cons.prems have "k \<noteq> final_k" by (cases hs) auto
    have "run_plan co net cname (chain_plan hs m ip) (Some (l', w')) =
        bind_res (chain_loop co net m ip cname final_k (Suc k) hs l' w') (\<lambda>x. Inr (Some x))" for l' w'
      by (rule Cons.IH [symmetric]) (use Cons.prems in simp)
    with False \<open>k \<noteq> final_k\<close> show ?thesis
      by (simp add: chain_plan_Cons reach_hop_def bind_res_assoc Let_def)
        (simp add: bind_res_def split: sum.splits prod.splits)
  qed
qed

lemma resolve_hops_filter:
  "resolve_hops chain servers = List.map_filter (\<lambda>n. find (\<lambda>s. se_name s = n) servers) chain"
  by (induction chain) (auto simp: map_filter_simps split: option.splits)

lemma resolve_hops_known:
  "h \<in> set (resolve_hops chain servers) \<Longrightarrow> h \<in> set servers \<and> se_name h \<in> set chain"
  by (induction chain) (auto simp: find_Some_iff split: option.splits)

text \<open>Building a chain is running its plan: every hop but the last is asked to relay streams and is not
  told the requested address, the last one gets the chosen mode.\<close>

lemma connect_chain_plan:
  fixes net :: "('l, 'o) network"
  assumes "hops = h0 # hs"
  shows "connect_chain co net hops final_mode rip cname =
    bind_res (resolve net (se_host h0) (se_port h0)) (\<lambda>ip.
      bind_res (run_plan co net cname (chain_plan hops final_mode rip) None) (\<lambda>r.
        Inr \<lparr>ct_link = fst (the r), ct_welcome = snd (the r), ct_first_hop_ip = ip\<rparr>))"
proof -
  define m0 where "m0 = (if length hs = 0 then final_mode else HttpProxy)"
  define ip0 where "ip0 = (if length hs = 0 then rip else None)"
  have pl: "chain_plan hops final_mode rip = (h0, m0, ip0) # chain_plan hs final_mode rip"
    using assms chain_plan_Cons [of hs h0 final_mode rip] chain_plan_single [of h0 final_mode rip]
    by (cases "hs = []") (simp_all add: chain_plan_def [of "[]"] m0_def ip0_def)
  have rest: "run_plan co net cname (chain_plan hs final_mode rip) (Some (l, w)) =
      bind_res (chain_loop co net final_mode rip cname (length hs) 1 hs l w) (\<lambda>x. Inr (Some x))" for l w
    by (rule chain_loop_plan [symmetric]) simp
  have step: "bind_res (run_plan co net cname (chain_plan hops final_mode rip) None) g =
      bind_res (security_of (net_base64 net) h0) (\<lambda>sec0.
        bind_res (connect (net_features net) (net_dial net) (endpoint_of h0) sec0) (\<lambda>l.
          (case handshake net l h0 m0 ip0 cname of (Inl e, _) \<Rightarrow> Inl e
           | (Inr w, l1) \<Rightarrow> bind_res (chain_loop co net final_mode rip cname (length hs) 1 hs l1 w)
               (\<lambda>x. g (Some x)))))" for g :: "_ \<Rightarrow> 'l chain_tunnel res"
    unfolding pl by (simp add: reach_hop_def bind_res_assoc)
      (simp add: rest bind_res_def split: sum.splits prod.splits)
  have "connect_chain co net hops final_mode rip cname =
      bind_res (resolve net (se_host h0) (se_port h0)) (\<lambda>ip.
        bind_res (security_of (net_base64 net) h0) (\<lambda>sec0.
        bind_res (connect (net_features net) (net_dial net) (endpoint_of h0) sec0) (\<lambda>l.
          (case handshake net l h0 m0 ip0 cname of (Inl e, _) \<Rightarrow> Inl e
           | (Inr w, l1) \<Rightarrow> bind_res (chain_loop co net final_mode rip cname (length hs) 1 hs l1 w)
               (\<lambda>(l2, w'). Inr \<lparr>ct_link = l2, ct_welcome = w', ct_first_hop_ip = ip\<rparr>)))))"
    unfolding connect_chain_def assms m0_def ip0_def Let_def
    by (simp only: list.case length_Cons diff_Suc_1)
  then show ?thesis
    unfolding step option.sel by (simp only: case_prod_unfold)
qed

lemma run_plan_quic:
  assumes "(h, m, ip) \<in> set plan" "se_transport h = Quic"
  shows "\<exists>e. run_plan co net cname plan (Some p) = Inl e"
  using assms
proof (induction plan arbitrary: p)
  case (Cons x plan)
  obtain h' m' ip' where x: "x = (h', m', ip')" by (cases x) auto
  show ?case
  proof (cases "x = (h, m, ip)")
    case True
    then have "\<exists>e. reach_hop co net (Some (fst p)) h = Inl e"
      using Cons.prems(2) connect_over_quic [of "endpoint_of h"]
      by (auto simp: reach_hop_def endpoint_of_def bind_res_def split: sum.splits)
    with True x show ?thesis by auto
  next
    case False
    with Cons.prems have "(h, m, ip) \<in> set plan" by auto
    with Cons.IH Cons.prems(2) x show ?thesis
      by (auto simp: bind_res_def split: sum.splits prod.splits)
  qed
qed simp

end
