(* ===== verification/Engine.thy ===== *)
theory Engine
  imports Chain
begin

text \<open>
  The client engine, \<open>core/client-core/src/engine.rs\<close>: choosing between a direct session and a chain,
  the handshake and what is launched after it, the packet bridge (uplink, downlink and stall monitor as
  the turns they repeat) and the connection loop with its bounded reconnects. Timers are events; a send
  under a timeout answers \<open>None\<close> when it expires.
\<close>

definition PEER_REFRESH_SECS :: u64 where
  "PEER_REFRESH_SECS = 5"

definition RECONNECT_ATTEMPTS :: nat where
  "RECONNECT_ATTEMPTS = 3"

definition OUT_BUFFER_PACKETS :: nat where
  "OUT_BUFFER_PACKETS = 8192"

definition SEND_TIMEOUT_SECS :: u64 where
  "SEND_TIMEOUT_SECS = 8"

definition STALL_SILENT_SECS :: u64 where
  "STALL_SILENT_SECS = 1"

section \<open>The stall monitor\<close>

record monitor =
  mo_last_up :: u64
  mo_last_down :: u64
  mo_silent :: u64

definition monitor_start :: "live_status \<Rightarrow> monitor" where
  "monitor_start s = (case traffic_counters s of (u, d) \<Rightarrow> \<lparr>mo_last_up = u, mo_last_down = d, mo_silent = 0\<rparr>)"

text \<open>A tick with the counters it reads; \<open>None\<close> when the tunnel is found stalled.\<close>

definition monitor_tick :: "u64 \<times> u64 \<Rightarrow> monitor \<Rightarrow> monitor option" where
  "monitor_tick counters m =
     (let (up, down) = counters;
          up_moved = up > mo_last_up m;
          down_moved = down > mo_last_down m;
          m1 = m\<lparr>mo_last_up := up, mo_last_down := down\<rparr>
      in if up_moved \<noteq> down_moved then
           (let silent = mo_silent m1 + 1
            in if silent \<ge> STALL_SILENT_SECS then None else Some (m1\<lparr>mo_silent := silent\<rparr>))
         else Some (m1\<lparr>mo_silent := 0\<rparr>))"

fun monitor_run :: "(u64 \<times> u64) list \<Rightarrow> monitor \<Rightarrow> monitor option" where
  "monitor_run [] m = Some m"
| "monitor_run (c # cs) m = Option.bind (monitor_tick c m) (monitor_run cs)"

section \<open>The packet bridge\<close>

record ('b, 'w) bridge =
  br_out :: 'b
  br_writer :: 'w
  br_tun :: "bytes list"
  br_status :: live_status

datatype up_event = KeepaliveTick | PeersTick | BufferReady

datatype up_result = UpGoes | UpDied | UpClosed

definition up_send ::
  "(frame \<Rightarrow> 'w \<Rightarrow> unit res option \<times> 'w) \<Rightarrow> frame \<Rightarrow> (live_status \<Rightarrow> live_status) \<Rightarrow> ('b, 'w) bridge \<Rightarrow>
   up_result \<times> ('b, 'w) bridge" where
  "up_send send f tally br =
     (case send f (br_writer br) of
        (Some (Inr _), w) \<Rightarrow> (UpGoes, br\<lparr>br_writer := w, br_status := tally (br_status br)\<rparr>)
      | (_, w) \<Rightarrow> (UpDied, br\<lparr>br_writer := w\<rparr>))"

text \<open>One turn of the uplink: \<open>None\<close> when the branch is not ready. \<open>held\<close> says whether the TUN reader
  still holds the sender of the egress buffer.\<close>

definition uplink_turn ::
  "('b, bytes) chan \<Rightarrow> (frame \<Rightarrow> 'w \<Rightarrow> unit res option \<times> 'w) \<Rightarrow> bool \<Rightarrow> bool \<Rightarrow> up_event \<Rightarrow> ('b, 'w) bridge \<Rightarrow>
   (up_result \<times> ('b, 'w) bridge) option" where
  "uplink_turn cb send member held ev br =
     (case ev of
        KeepaliveTick \<Rightarrow> Some (up_send send Ping (\<lambda>s. s) br)
      | PeersTick \<Rightarrow> if member then Some (up_send send GetPeers (\<lambda>s. s) br) else None
      | BufferReady \<Rightarrow>
          (case ch_recv cb (br_out br) of
             Some (p, q) \<Rightarrow> Some (up_send send (Packet p) (add_traffic_up (length p)) (br\<lparr>br_out := q\<rparr>))
           | None \<Rightarrow> if held then None else Some (UpClosed, br)))"

text \<open>One turn of the downlink; \<open>None\<close> when it returns.\<close>

definition downlink_turn :: "frame res \<Rightarrow> ('b, 'w) bridge \<Rightarrow> ('b, 'w) bridge option" where
  "downlink_turn got br =
     (case got of
        Inl _ \<Rightarrow> None
      | Inr (Packet p) \<Rightarrow> Some (br\<lparr>br_tun := br_tun br @ [p], br_status := add_traffic_down (length p) (br_status br)\<rparr>)
      | Inr (PeerList ps) \<Rightarrow> Some (br\<lparr>br_status := (br_status br)\<lparr>ls_peers := ps\<rparr>\<rparr>)
      | Inr _ \<Rightarrow> Some br)"

text \<open>One turn of the task that feeds the egress buffer from the TUN device: a failed read ends it, an empty read
  is skipped, and a packet waits (\<open>None\<close>) while the buffer is full. The flag says whether the task goes on.\<close>

definition tun_reader_turn :: "('b, bytes) chan \<Rightarrow> io_error + bytes \<Rightarrow> 'b \<Rightarrow> (bool \<times> 'b) option" where
  "tun_reader_turn cb got out_tx =
     (case got of
        Inl e \<Rightarrow> Some (False, out_tx)
      | Inr pkt \<Rightarrow>
          if pkt = [] then Some (True, out_tx)
          else if ch_closed cb out_tx then Some (False, out_tx)
          else map_option (\<lambda>q. (True, q)) (ch_try_send cb out_tx pkt))"

datatype conn_end = Cancelled | Lost

text \<open>The final \<open>select!\<close>: which branch finished first.\<close>

datatype bridge_end = ByCancel | ByUplink up_result | ByDownlink | ByMonitor

fun conn_end_of :: "bridge_end \<Rightarrow> conn_end" where
  "conn_end_of ByCancel = Cancelled"
| "conn_end_of (ByUplink UpDied) = Lost"
| "conn_end_of (ByUplink _) = Cancelled"
| "conn_end_of ByDownlink = Lost"
| "conn_end_of ByMonitor = Lost"

section \<open>The connection loop\<close>

text \<open>What an attempt to reconnect came to: the user cancelled, it succeeded, or it failed.\<close>

datatype 'l attempt = AttemptCancelled | AttemptOk 'l welcome_msg | AttemptFailed error

text \<open>\<open>for attempt in 1..=n\<close> from attempt number \<open>k\<close>: the outcome, and how many attempts were made.\<close>

fun reconnect_attempts :: "(nat \<Rightarrow> 'l attempt) \<Rightarrow> nat \<Rightarrow> nat \<Rightarrow> ('l \<times> welcome_msg) option \<times> nat" where
  "reconnect_attempts dial k 0 = (None, 0)"
| "reconnect_attempts dial k (Suc n) =
     (case dial k of
        AttemptCancelled \<Rightarrow> (None, 0)
      | AttemptOk l w \<Rightarrow> (Some (l, w), 1)
      | AttemptFailed e \<Rightarrow> (case reconnect_attempts dial (Suc k) n of (r, m) \<Rightarrow> (r, Suc m)))"

text \<open>What the environment does in pass number \<open>i\<close> of the loop.\<close>

record 'l script =
  sc_end :: "nat \<Rightarrow> conn_end"
  sc_cancelled :: "nat \<Rightarrow> bool"
  sc_dial :: "nat \<Rightarrow> nat \<Rightarrow> 'l attempt"
  sc_cancelled_after :: "nat \<Rightarrow> bool"

record 'l packet_loop =
  pl_link :: 'l
  pl_closed :: "'l list"
  pl_status :: live_status
  pl_pass :: nat
  pl_dials :: nat
  pl_running :: bool

definition loop_pass :: "'l script \<Rightarrow> 'l packet_loop \<Rightarrow> 'l packet_loop" where
  "loop_pass sc s =
     (if \<not> pl_running s then s
      else (let i = pl_pass s; s = s\<lparr>pl_pass := Suc i\<rparr> in
        case sc_end sc i of
          Cancelled \<Rightarrow> s\<lparr>pl_running := False\<rparr>
        | Lost \<Rightarrow>
            if sc_cancelled sc i then s\<lparr>pl_running := False\<rparr>
            else
              (let s1 = s\<lparr>pl_closed := pl_closed s @ [pl_link s]\<rparr>;
                   (r, m) = reconnect_attempts (sc_dial sc i) 1 RECONNECT_ATTEMPTS;
                   s2 = (case r of
                           Some (l, w) \<Rightarrow> s1\<lparr>pl_link := l, pl_dials := pl_dials s1 + m,
                             pl_status := (pl_status s1)\<lparr>ls_assigned_ip := Some (w_assigned_ip w)\<rparr>\<rparr>
                         | None \<Rightarrow> s1\<lparr>pl_dials := pl_dials s1 + m\<rparr>)
               in if sc_cancelled_after sc i then s2\<lparr>pl_running := False\<rparr>
                  else if r = None then s2\<lparr>pl_running := False\<rparr> else s2)))"

definition run_packet_loop :: "'l script \<Rightarrow> nat \<Rightarrow> 'l packet_loop \<Rightarrow> 'l packet_loop" where
  "run_packet_loop sc n s = (loop_pass sc ^^ n) s"

section \<open>Sessions\<close>

definition resolve_server :: "('l, 'o) network \<Rightarrow> string \<Rightarrow> u16 \<Rightarrow> ip_addr res" where
  "resolve_server net host port =
     (case parse_ip host of
        Some ip \<Rightarrow> Inr ip
      | None \<Rightarrow> bind_res (map_err Io (net_lookup net host port)) (\<lambda>as.
          (case as of [] \<Rightarrow> Inl (Config (''cannot resolve host '' @ host)) | a # _ \<Rightarrow> Inr a)))"

definition client_hello :: "client_config \<Rightarrow> server_entry \<Rightarrow> ipv4 option \<Rightarrow> hello_msg" where
  "client_hello cfg server ip =
     \<lparr>h_version = PROTOCOL_VERSION, h_token = se_token server, h_mode = wire (cl_mode cfg), h_requested_ip = ip,
      h_client_name = cl_client_name cfg, h_join_vpn = cl_join_vpn cfg\<rparr>"

text \<open>What runs after the handshake: the packet mode with the way to dial again, or the local proxy,
  with the system proxy switched or not.\<close>

datatype redial = RedialServer endpoint client_security hello_msg | RedialChain "server_entry list"

datatype 'l launch =
    RunPacket welcome_msg 'l ip_addr bool redial
  | RunHttp welcome_msg 'l bool bool

definition direct_session :: "('l, 'o) network \<Rightarrow> client_config \<Rightarrow> live_status \<Rightarrow> 'l launch res \<times> live_status" where
  "direct_session net cfg shared =
     bind_st (active_server cfg, shared) (\<lambda>server shared.
     bind_st (resolve_server net (se_host server) (se_port server), shared) (\<lambda>server_ip shared.
     bind_st (security_of (net_base64 net) server, shared) (\<lambda>security shared.
     bind_st (connect (net_features net) (net_dial net) (endpoint_of server) security, shared) (\<lambda>l shared.
       (case bind_st (net_tx net (Hello (client_hello cfg server (cl_requested_ip cfg))) l)
               (\<lambda>_ l. await_welcome net l) of
          (Inl e, _) \<Rightarrow> (Inl e, shared)
        | (Inr w, l1) \<Rightarrow>
            (let shared = shared\<lparr>ls_assigned_ip := Some (w_assigned_ip w)\<rparr>;
                 member = (cl_mode cfg = Vpn \<or> cl_join_vpn cfg);
                 re_endpoint = (endpoint_of server)\<lparr>ep_host := show_ip server_ip\<rparr>
             in (Inr (case cl_mode cfg of
                        HttpProxy \<Rightarrow> RunHttp w l1 member False
                      | SystemProxy \<Rightarrow> RunHttp w l1 member True
                      | _ \<Rightarrow> RunPacket w l1 server_ip member
                               (RedialServer re_endpoint security (client_hello cfg server None))), shared)))))))"

text \<open>The pre-resolution of the first hop.\<close>

definition preresolve :: "('l, 'o) network \<Rightarrow> server_entry list \<Rightarrow> server_entry list" where
  "preresolve net hops =
     (case hops of
        [] \<Rightarrow> []
      | h0 # hs \<Rightarrow>
          (case resolve_server net (se_host h0) (se_port h0) of
             Inl _ \<Rightarrow> hops
           | Inr ip \<Rightarrow>
               (let h1 = (if se_server_name h0 = None \<and> parse_ip (se_host h0) = None
                          then h0\<lparr>se_server_name := Some (se_host h0)\<rparr> else h0)
                in h1\<lparr>se_host := show_ip ip\<rparr> # hs)))"

definition vpn_lan_config :: "client_config \<Rightarrow> server_entry \<Rightarrow> client_config" where
  "vpn_lan_config cfg hop0 =
     cfg\<lparr>cl_mode := Vpn, cl_join_vpn := False, cl_chain := [], cl_selected_server := Some (se_name hop0),
         cl_tun_name := cl_tun_name cfg @ ''v''\<rparr>"

text \<open>The chain session; the second component of the result is the separate VPN connection it spawns.\<close>

definition run_chain_session ::
  "('o, frame) chan \<Rightarrow> ('l, 'o) network \<Rightarrow> client_config \<Rightarrow> server_entry list \<Rightarrow> live_status \<Rightarrow>
   ('l launch res \<times> client_config option) \<times> live_status" where
  "run_chain_session co net cfg hops shared =
     (if cl_mode cfg = Vpn then
        (case direct_session net (cfg\<lparr>cl_chain := [], cl_selected_server := Some (se_name (hd hops))\<rparr>) shared of
           (r, shared') \<Rightarrow> ((r, None), shared'))
      else
        (let hops = preresolve net hops in
         case connect_chain co net hops (cl_mode cfg) (cl_requested_ip cfg) (cl_client_name cfg) of
           Inl e \<Rightarrow> ((Inl e, None), shared)
         | Inr ct \<Rightarrow>
             (let lan = (if cl_join_vpn cfg then Some (vpn_lan_config cfg (hd hops)) else None);
                  shared' = (if cl_join_vpn cfg then shared
                             else shared\<lparr>ls_assigned_ip := Some (w_assigned_ip (ct_welcome ct))\<rparr>)
              in ((Inr (case cl_mode cfg of
                          HttpProxy \<Rightarrow> RunHttp (ct_welcome ct) (ct_link ct) False False
                        | SystemProxy \<Rightarrow> RunHttp (ct_welcome ct) (ct_link ct) False True
                        | _ \<Rightarrow> RunPacket (ct_welcome ct) (ct_link ct) (ct_first_hop_ip ct) False (RedialChain hops)),
                   lan), shared'))))"

definition run_session ::
  "('o, frame) chan \<Rightarrow> ('l, 'o) network \<Rightarrow> client_config \<Rightarrow> live_status \<Rightarrow>
   ('l launch res \<times> client_config option) \<times> live_status" where
  "run_session co net cfg shared =
     (let hops = resolve_hops (cl_chain cfg) (cl_servers cfg) in
      if cl_chain cfg \<noteq> [] \<and> length hops \<ge> 2 then run_chain_session co net cfg hops shared
      else (case direct_session net cfg shared of (r, shared') \<Rightarrow> ((r, None), shared')))"

text \<open>The reconnect closures: the same virtual address is asked for again.\<close>

definition redial_link ::
  "('o, frame) chan \<Rightarrow> ('l, 'o) network \<Rightarrow> string option \<Rightarrow> redial \<Rightarrow> ipv4 \<Rightarrow> ('l \<times> welcome_msg) res" where
  "redial_link co net client_name rd req_ip =
     (case rd of
        RedialServer ep sec hello \<Rightarrow>
          bind_res (connect (net_features net) (net_dial net) ep sec) (\<lambda>l.
            (case bind_st (net_tx net (Hello (hello\<lparr>h_requested_ip := Some req_ip\<rparr>)) l) (\<lambda>_ l. await_welcome net l) of
               (Inl e, _) \<Rightarrow> Inl e
             | (Inr w, l1) \<Rightarrow> Inr (l1, w)))
      | RedialChain hops \<Rightarrow>
          bind_res (connect_chain co net hops GlobalProxy (Some req_ip) client_name) (\<lambda>ct.
            Inr (ct_link ct, ct_welcome ct)))"

section \<open>Facts about the monitor\<close>

definition lopsided :: "u64 \<times> u64 \<Rightarrow> u64 \<times> u64 \<Rightarrow> bool" where
  "lopsided a b \<longleftrightarrow> (fst a < fst b) \<noteq> (snd a < snd b)"

lemma monitor_tick_None:
  assumes "mo_silent m = 0"
  shows "monitor_tick c m = None \<longleftrightarrow> lopsided (mo_last_up m, mo_last_down m) c"
  using assms by (auto simp: monitor_tick_def lopsided_def STALL_SILENT_SECS_def Let_def split: prod.splits)

lemma monitor_tick_Some:
  assumes "mo_silent m = 0" "monitor_tick c m = Some m'"
  shows "m' = \<lparr>mo_last_up = fst c, mo_last_down = snd c, mo_silent = 0\<rparr>"
  using assms by (auto simp: monitor_tick_def STALL_SILENT_SECS_def Let_def split: prod.splits if_splits)

lemma monitor_run_None:
  "monitor_run cs \<lparr>mo_last_up = fst c0, mo_last_down = snd c0, mo_silent = 0\<rparr> = None \<longleftrightarrow>
   (\<exists>i < length cs. lopsided ((c0 # cs) ! i) (cs ! i))"
proof (induction cs arbitrary: c0)
  case (Cons c cs)
  let ?m = "\<lparr>mo_last_up = fst c0, mo_last_down = snd c0, mo_silent = 0\<rparr>"
  show ?case
  proof (cases "monitor_tick c ?m")
    case None
    then have "lopsided c0 c" by (simp add: monitor_tick_None)
    with None show ?thesis by (auto intro!: exI [of _ 0])
  next
    case (Some m')
    have m': "m' = \<lparr>mo_last_up = fst c, mo_last_down = snd c, mo_silent = 0\<rparr>"
      by (rule monitor_tick_Some [OF _ Some]) simp
    have n: "\<not> lopsided c0 c"
      using monitor_tick_None [of ?m c] Some by simp
    have "(\<exists>i < length (c # cs). lopsided ((c0 # c # cs) ! i) ((c # cs) ! i)) \<longleftrightarrow>
        (\<exists>i < length cs. lopsided ((c # cs) ! i) (cs ! i))"
      using n by (simp add: Ex_less_Suc2)
    with Some m' Cons show ?thesis by simp
  qed
qed simp

section \<open>Facts about the connection loop\<close>

lemma reconnect_attempts_bound: "snd (reconnect_attempts dial k n) \<le> n"
  by (induction n arbitrary: k) (auto split: attempt.splits prod.splits, metis snd_conv)

lemma reconnect_attempts_Some:
  "reconnect_attempts dial k n = (Some (l, w), m) \<longleftrightarrow>
   (\<exists>j < n. m = Suc j \<and> dial (k + j) = AttemptOk l w \<and> (\<forall>i < j. \<exists>e. dial (k + i) = AttemptFailed e))"
proof (induction n arbitrary: k m)
  case (Suc n)
  show ?case
  proof (cases "dial k")
    case AttemptCancelled
    then show ?thesis by (auto, metis add.right_neutral attempt.distinct(1,3) gr0I)
  next
    case (AttemptOk l' w')
    then show ?thesis
      by (auto intro!: exI [of _ 0]) (metis add.right_neutral attempt.distinct(5) attempt.inject(1) gr0I)+
  next
    case (AttemptFailed e)
    have "reconnect_attempts dial k (Suc n) = (Some (l, w), m) \<longleftrightarrow>
        (\<exists>m'. m = Suc m' \<and> reconnect_attempts dial (Suc k) n = (Some (l, w), m'))"
      using AttemptFailed by (auto split: prod.splits)
    also have "\<dots> \<longleftrightarrow> (\<exists>j < Suc n. m = Suc j \<and> dial (k + j) = AttemptOk l w \<and>
        (\<forall>i < j. \<exists>e. dial (k + i) = AttemptFailed e))"
      unfolding Suc using AttemptFailed
      by (auto simp: Ex_less_Suc2 All_less_Suc2)
    finally show ?thesis .
  qed
qed simp

lemma loop_pass_dials: "pl_dials (loop_pass sc s) \<le> pl_dials s + RECONNECT_ATTEMPTS"
  using reconnect_attempts_bound [of "sc_dial sc (pl_pass s)" 1 RECONNECT_ATTEMPTS]
  by (auto simp: loop_pass_def Let_def split: conn_end.splits prod.splits option.splits)

lemma loop_pass_stopped: "\<not> pl_running s \<Longrightarrow> loop_pass sc s = s"
  by (simp add: loop_pass_def)

lemma run_packet_loop_dials: "pl_dials (run_packet_loop sc n s) \<le> pl_dials s + n * RECONNECT_ATTEMPTS"
proof (induction n)
  case (Suc n)
  then show ?case
    using loop_pass_dials [of sc "run_packet_loop sc n s"] by (simp add: run_packet_loop_def)
qed (simp add: run_packet_loop_def)

lemma run_packet_loop_stopped: "\<not> pl_running s \<Longrightarrow> run_packet_loop sc n s = s"
  by (induction n) (simp_all add: run_packet_loop_def loop_pass_stopped)

end
