(* ===== verification/Netcfg.thy ===== *)
theory Netcfg
  imports Shell Client_Config Http_Head "HOL-Library.Char_ord" "HOL-Library.List_Lexorder"
begin

text \<open>
  \<open>client-core/src/netcfg.rs\<close> on Linux: the address of the TUN, the split-tunnel routes, the capture routes of
  the global mode with the pin of the server's own address, the kill-switch, \<open>/etc/resolv.conf\<close>, and the
  guard whose drop undoes them. The host is a record of functions: running a command, the resolver, and
  reading and writing \<open>resolv.conf\<close>; the parsers of \<open>ipnet\<close> are arguments. The routing table is observed as
  a map \<open>rt\<close> from prefixes to route arguments, and \<open>route_laws\<close> says what \<open>ip route add\<close> and \<open>del\<close> do to it.
  The facts: dropping the guard removes exactly the prefixes of the undo list and changes no other route; no
  rule reroutes the server's address; global mode captures both halves of the address space.
\<close>

section \<open>The host\<close>

record 'o host =
  hs_exec :: "'o exec"
  hs_lookup :: "string \<Rightarrow> 'o \<Rightarrow> (string + ip_addr list) \<times> 'o"
  hs_read_resolv :: "'o \<Rightarrow> io_error + string"
  hs_write_resolv :: "string \<Rightarrow> 'o \<Rightarrow> (io_error + unit) \<times> 'o"

text \<open>The parsers of the \<open>ipnet\<close> crate the rules use: an IPv4 network, and whether a text is a network at all.\<close>

record net_parser =
  np_net4 :: "string \<Rightarrow> (ipv4 \<times> u8) option"
  np_net :: "string \<Rightarrow> bool"

text \<open>The netmask of a prefix length, as \<open>Ipv4Net::netmask\<close> has it.\<close>

definition net_mask :: "u8 \<Rightarrow> ipv4" where
  "net_mask p = (if p = 0 then 0 else if p \<ge> 32 then - 1 else push_bit (32 - unat p) (- 1))"

record net_guard =
  ng_undo :: "cmd list"
  ng_resolv_backup :: "string option"

section \<open>Definitions\<close>

definition run_ip :: "'o exec \<Rightarrow> string list \<Rightarrow> 'o \<Rightarrow> unit res \<times> 'o" where
  "run_ip exec args st =
     (case exec (''ip'', args) st of
        (Inl e, st') \<Rightarrow> (Inl (Transport (''spawn `ip '' @ join '' '' args @ ''`: '' @ e)), st')
      | (Inr out, st') \<Rightarrow>
          (if out_ok out then (Inr (), st')
           else (Inl (Transport (''`ip '' @ join '' '' args @ ''` failed: '' @ trim (out_stderr out))), st')))"

definition try_ip :: "'o exec \<Rightarrow> string list \<Rightarrow> 'o \<Rightarrow> 'o" where
  "try_ip exec args st = snd (run_ip exec args st)"

definition first_line :: "string \<Rightarrow> string" where
  "first_line s = (case lines s of [] \<Rightarrow> [] | l # _ \<Rightarrow> l)"

definition default_route :: "'o exec \<Rightarrow> 'o \<Rightarrow> (string \<times> string) res \<times> 'o" where
  "default_route exec st =
     (case exec (''ip'', [''route'', ''show'', ''default'']) st of
        (Inl e, st') \<Rightarrow> (Inl (Transport (''ip route: '' @ e)), st')
      | (Inr out, st') \<Rightarrow>
          (let toks = split_whitespace (first_line (out_stdout out))
           in (case (word_after ''via'' toks, word_after ''dev'' toks) of
                 (Some g, Some d) \<Rightarrow> Inr (g, d)
               | _ \<Rightarrow> Inl (Transport (''cannot parse default route: '' @ debug_str (first_line (out_stdout out)))), st')))"

definition default_route6 :: "'o exec \<Rightarrow> 'o \<Rightarrow> (string \<times> string) option \<times> 'o" where
  "default_route6 exec st =
     (case exec (''ip'', [''-6'', ''route'', ''show'', ''default'']) st of
        (Inl e, st') \<Rightarrow> (None, st')
      | (Inr out, st') \<Rightarrow>
          (let toks = split_whitespace (first_line (out_stdout out))
           in (case (word_after ''via'' toks, word_after ''dev'' toks) of
                 (Some g, Some d) \<Rightarrow> Some (g, d)
               | _ \<Rightarrow> None, st')))"

definition resolve_rule_targets :: "net_parser \<Rightarrow> 'o host \<Rightarrow> string \<Rightarrow> 'o \<Rightarrow> string list \<times> 'o" where
  "resolve_rule_targets np h target st =
     (case np_net4 np target of
        Some (a, p) \<Rightarrow> ([show_ipv4 a @ ''/'' @ show_nat (unat p)], st)
      | None \<Rightarrow>
          (case parse_ipv4 target of
             Some ip \<Rightarrow> ([show_ipv4 ip @ ''/32''], st)
           | None \<Rightarrow>
               if parse_ip target \<noteq> None \<or> np_net np target then ([], st)
               else
                 (case hs_lookup h target st of
                    (Inl e, st') \<Rightarrow> ([], st')
                  | (Inr addrs, st') \<Rightarrow>
                      (remdups_adj (sort (concat (map (\<lambda>a. case a of V4 ip \<Rightarrow> [show_ipv4 ip @ ''/32''] | V6 _ \<Rightarrow> []) addrs))),
                       st'))))"

text \<open>The arguments of \<open>ip\<close> that install one route, \<open>None\<close> for a \<open>direct\<close> rule without a default route.\<close>

definition route_args :: "string \<Rightarrow> (string \<times> string) option \<Rightarrow> route_rule \<Rightarrow> string \<Rightarrow> string list option" where
  "route_args tun_ifname orig rule route =
     (if rr_via rule = ''tunnel'' then Some [''route'', ''add'', route, ''dev'', tun_ifname]
      else if rr_via rule = ''direct''
      then (case orig of
              Some (gw, dev) \<Rightarrow> Some [''route'', ''add'', route, ''via'', gw, ''dev'', dev]
            | None \<Rightarrow> None)
      else Some ([''route'', ''add'', route]
             @ (case rr_gateway rule of Some gw \<Rightarrow> [''via'', show_ipv4 gw] | None \<Rightarrow> [])
             @ [''dev'', rr_via rule]))"

type_synonym 'o rules_state = "string list \<times> cmd list \<times> 'o"

definition route_step ::
  "'o exec \<Rightarrow> string \<Rightarrow> (string \<times> string) option \<Rightarrow> string \<Rightarrow> route_rule \<Rightarrow> string \<Rightarrow> 'o rules_state \<Rightarrow> 'o rules_state" where
  "route_step exec tun_ifname orig server_route rule route s =
     (case s of (seen, undo, st) \<Rightarrow>
        if route = server_route \<or> route \<in> set seen then s
        else
          (case route_args tun_ifname orig rule route of
             None \<Rightarrow> (route # seen, undo, st)
           | Some add \<Rightarrow>
               (case run_ip exec add st of
                  (Inr _, st') \<Rightarrow> (route # seen, undo @ [(''ip'', add[1 := ''del''])], st')
                | (Inl _, st') \<Rightarrow> (route # seen, undo, st'))))"

definition rule_step ::
  "net_parser \<Rightarrow> 'o host \<Rightarrow> string \<Rightarrow> (string \<times> string) option \<Rightarrow> string \<Rightarrow> route_rule \<Rightarrow> 'o rules_state \<Rightarrow> 'o rules_state" where
  "rule_step np h tun_ifname orig server_route rule s =
     (case s of (seen, undo, st) \<Rightarrow>
        (case resolve_rule_targets np h (rr_target rule) st of
           (targets, st') \<Rightarrow> fold (route_step (hs_exec h) tun_ifname orig server_route rule) targets (seen, undo, st')))"

definition pin_route :: "ip_addr \<Rightarrow> string" where
  "pin_route server_ip = show_ip server_ip @ ''/32''"

definition apply_route_rules ::
  "net_parser \<Rightarrow> 'o host \<Rightarrow> client_config \<Rightarrow> string \<Rightarrow> (string \<times> string) option \<Rightarrow> ip_addr \<Rightarrow> cmd list \<Rightarrow> 'o \<Rightarrow> cmd list \<times> 'o" where
  "apply_route_rules np h cfg tun_ifname orig server_ip undo st =
     snd (fold (rule_step np h tun_ifname orig (pin_route server_ip)) (cl_routes cfg) ([], undo, st))"

text \<open>\<open>try_ip\<close> followed by a push on the undo list.\<close>

definition try_undo :: "'o exec \<Rightarrow> string list \<Rightarrow> string list \<Rightarrow> cmd list \<times> 'o \<Rightarrow> cmd list \<times> 'o" where
  "try_undo exec add del s = (case s of (undo, st) \<Rightarrow> (undo @ [(''ip'', del)], try_ip exec add st))"

definition pin_server :: "'o exec \<Rightarrow> ip_addr \<Rightarrow> (string \<times> string) option \<Rightarrow> cmd list \<times> 'o \<Rightarrow> cmd list \<times> 'o" where
  "pin_server exec server_ip orig s =
     (case orig of
        Some (gw, dev) \<Rightarrow>
          try_undo exec [''route'', ''add'', pin_route server_ip, ''via'', gw, ''dev'', dev]
            [''route'', ''del'', pin_route server_ip] s
      | None \<Rightarrow> s)"

definition pin_server6 :: "'o exec \<Rightarrow> ip_addr \<Rightarrow> cmd list \<times> 'o \<Rightarrow> cmd list \<times> 'o" where
  "pin_server6 exec server_ip s =
     (case server_ip of
        V4 _ \<Rightarrow> s
      | V6 s6 \<Rightarrow>
          (case s of (undo, st) \<Rightarrow>
             (case default_route6 exec st of
                (None, st') \<Rightarrow> (undo, st')
              | (Some (gw6, dev6), st') \<Rightarrow>
                  try_undo exec [''-6'', ''route'', ''add'', show_ipv6 s6 @ ''/128'', ''via'', gw6, ''dev'', dev6]
                    [''-6'', ''route'', ''del'', show_ipv6 s6 @ ''/128''] (undo, st'))))"

definition capture_v6 :: "'o exec \<Rightarrow> client_config \<Rightarrow> welcome_msg \<Rightarrow> string \<Rightarrow> ip_addr \<Rightarrow> cmd list \<times> 'o \<Rightarrow> cmd list \<times> 'o" where
  "capture_v6 exec cfg wel ifname server_ip s =
     (if w_assigned_ip6 wel \<noteq> None then
        try_undo exec [''-6'', ''route'', ''add'', ''8000::/1'', ''dev'', ifname] [''-6'', ''route'', ''del'', ''8000::/1'']
          (try_undo exec [''-6'', ''route'', ''add'', ''::/1'', ''dev'', ifname] [''-6'', ''route'', ''del'', ''::/1'']
            (pin_server6 exec server_ip s))
      else if cl_ipv6_killswitch cfg then
        try_undo exec [''-6'', ''route'', ''add'', ''unreachable'', ''8000::/1''] [''-6'', ''route'', ''del'', ''8000::/1'']
          (try_undo exec [''-6'', ''route'', ''add'', ''unreachable'', ''::/1''] [''-6'', ''route'', ''del'', ''::/1''] s)
      else s)"

definition resolv_body :: "welcome_msg \<Rightarrow> string" where
  "resolv_body wel =
     concat (map (\<lambda>ip. ''nameserver '' @ show_ipv4 ip @ [newline]) (w_dns wel)
           @ map (\<lambda>ip. ''nameserver '' @ show_ipv6 ip @ [newline]) (w_dns6 wel))"

definition set_dns :: "'o host \<Rightarrow> welcome_msg \<Rightarrow> 'o \<Rightarrow> string option \<times> 'o" where
  "set_dns h wel st =
     (if w_dns wel \<noteq> [] \<or> w_dns6 wel \<noteq> [] then
        ((case hs_read_resolv h st of Inr prev \<Rightarrow> Some prev | Inl _ \<Rightarrow> None), snd (hs_write_resolv h (resolv_body wel) st))
      else (None, st))"

text \<open>The body of the arm \<open>SessionMode::GlobalProxy\<close> of \<open>apply\<close>, from the undo list so far.\<close>

definition apply_global ::
  "'o host \<Rightarrow> client_config \<Rightarrow> welcome_msg \<Rightarrow> string \<Rightarrow> ip_addr \<Rightarrow> (string \<times> string) option \<Rightarrow> cmd list \<Rightarrow> 'o \<Rightarrow>
   net_guard res \<times> 'o" where
  "apply_global h cfg wel ifname server_ip orig undo st =
     (let exec = hs_exec h in
      case pin_server exec server_ip orig (undo, st) of (undo1, st1) \<Rightarrow>
        if cl_split_mode cfg = Whitelist then (Inr \<lparr>ng_undo = undo1, ng_resolv_backup = None\<rparr>, st1)
        else
          bind_st (run_ip exec [''route'', ''add'', ''0.0.0.0/1'', ''dev'', ifname] st1) (\<lambda>_ st2.
          bind_st (run_ip exec [''route'', ''add'', ''128.0.0.0/1'', ''dev'', ifname] st2) (\<lambda>_ st3.
            case capture_v6 exec cfg wel ifname server_ip
                   (undo1 @ [(''ip'', [''route'', ''del'', ''0.0.0.0/1'']), (''ip'', [''route'', ''del'', ''128.0.0.0/1''])], st3)
            of (undo2, st4) \<Rightarrow>
              (case set_dns h wel st4 of (backup, st5) \<Rightarrow>
                 (Inr \<lparr>ng_undo = undo2, ng_resolv_backup = backup\<rparr>, st5)))))"

definition tun_cidr :: "welcome_msg \<Rightarrow> string" where
  "tun_cidr wel = show_ipv4 (w_assigned_ip wel) @ ''/'' @ show_nat (unat (w_prefix_len wel))"

definition bring_up :: "'o exec \<Rightarrow> welcome_msg \<Rightarrow> string \<Rightarrow> 'o \<Rightarrow> unit res \<times> 'o" where
  "bring_up exec wel ifname st =
     bind_st (run_ip exec [''addr'', ''add'', tun_cidr wel, ''dev'', ifname] st) (\<lambda>_ st1.
     bind_st (run_ip exec [''link'', ''set'', ''dev'', ifname, ''mtu'', show_u16 (w_mtu wel)] st1) (\<lambda>_ st2.
     run_ip exec [''link'', ''set'', ''dev'', ifname, ''up''] st2))"

definition add_address6 :: "'o exec \<Rightarrow> welcome_msg \<Rightarrow> string \<Rightarrow> 'o \<Rightarrow> 'o" where
  "add_address6 exec wel ifname st =
     (case w_assigned_ip6 wel of
        None \<Rightarrow> st
      | Some ip6 \<Rightarrow>
          try_ip exec [''-6'', ''addr'', ''add'', show_ipv6 ip6 @ ''/'' @ show_nat (unat (max (w_prefix6 wel) 1)), ''dev'', ifname] st)"

definition apply_net ::
  "net_parser \<Rightarrow> 'o host \<Rightarrow> client_config \<Rightarrow> welcome_msg \<Rightarrow> string \<Rightarrow> ip_addr \<Rightarrow> 'o \<Rightarrow> net_guard res \<times> 'o" where
  "apply_net np h cfg wel ifname server_ip st =
     bind_st (bring_up (hs_exec h) wel ifname st) (\<lambda>_ st1.
       case default_route (hs_exec h) (add_address6 (hs_exec h) wel ifname st1) of (r, st2) \<Rightarrow>
         (let orig = (case r of Inr gd \<Rightarrow> Some gd | Inl _ \<Rightarrow> None) in
          case apply_route_rules np h cfg ifname orig server_ip [] st2 of (undo, st3) \<Rightarrow>
            (case cl_mode cfg of
               GlobalProxy \<Rightarrow> apply_global h cfg wel ifname server_ip orig undo st3
             | _ \<Rightarrow> (Inr \<lparr>ng_undo = undo, ng_resolv_backup = None\<rparr>, st3))))"

definition apply_vpn_lan :: "'o exec \<Rightarrow> welcome_msg \<Rightarrow> string \<Rightarrow> 'o \<Rightarrow> net_guard res \<times> 'o" where
  "apply_vpn_lan exec wel ifname st =
     bind_st (bring_up exec wel ifname st) (\<lambda>_ st1.
       (Inr \<lparr>ng_undo = [(''ip'', [''addr'', ''del'', tun_cidr wel, ''dev'', ifname])], ng_resolv_backup = None\<rparr>, st1))"

definition net_guard_drop :: "'o host \<Rightarrow> net_guard \<Rightarrow> 'o \<Rightarrow> 'o" where
  "net_guard_drop h g st =
     (let st1 = undo_all (hs_exec h) (ng_undo g) st
      in case ng_resolv_backup g of None \<Rightarrow> st1 | Some b \<Rightarrow> snd (hs_write_resolv h b st1))"

section \<open>The routing table\<close>

type_synonym route_key = "bool \<times> string"
type_synonym route_table = "route_key \<Rightarrow> string list option"

text \<open>An \<open>ip route\<close> command read as an action on a prefix: whether it is IPv6, the prefix, and what follows.\<close>

definition route_edit :: "cmd \<Rightarrow> (string \<times> route_key \<times> string list) option" where
  "route_edit c =
     (case c of (p, args) \<Rightarrow>
        if p \<noteq> ''ip'' then None
        else
          (let v6 = (args \<noteq> [] \<and> hd args = ''-6''); rest = (if v6 then tl args else args)
           in case rest of
                w # a # d # spec \<Rightarrow>
                  if w = ''route'' \<and> (a = ''add'' \<or> a = ''del'') then
                    (if d = ''unreachable'' \<and> spec \<noteq> [] then Some (a, (v6, hd spec), d # tl spec)
                     else Some (a, (v6, d), spec))
                  else None
              | _ \<Rightarrow> None))"

definition cmd_ok :: "string + cmd_output \<Rightarrow> bool" where
  "cmd_ok r = (case r of Inl _ \<Rightarrow> False | Inr out \<Rightarrow> out_ok out)"

text \<open>Documented behaviour of \<open>ip route\<close>: adding a prefix that is there fails, deleting matches the prefix and
  whatever arguments are given; a command that fails changes nothing.\<close>

definition route_laws :: "'o host \<Rightarrow> ('o \<Rightarrow> route_table) \<Rightarrow> bool" where
  "route_laws h rt \<longleftrightarrow>
     (\<forall>c st. case route_edit c of
        None \<Rightarrow> rt (snd (hs_exec h c st)) = rt st
      | Some (a, k, spec) \<Rightarrow>
          if a = ''add'' then
            (if cmd_ok (fst (hs_exec h c st)) then rt st k = None \<and> rt (snd (hs_exec h c st)) = (rt st)(k \<mapsto> spec)
             else rt (snd (hs_exec h c st)) = rt st)
          else rt (snd (hs_exec h c st)) = (if spec = [] \<or> rt st k = Some spec then (rt st)(k := None) else rt st)) \<and>
     (\<forall>d st. rt (snd (hs_lookup h d st)) = rt st) \<and>
     (\<forall>b st. rt (snd (hs_write_resolv h b st)) = rt st)"

definition undo_keys :: "cmd list \<Rightarrow> route_key set" where
  "undo_keys undo = (\<lambda>c. fst (snd (the (route_edit c)))) ` set undo"

section \<open>Facts\<close>

lemma snd_run_ip [simp]: "snd (run_ip exec args st) = snd (exec (''ip'', args) st)"
  by (simp add: run_ip_def split: prod.split sum.split)

lemma run_ip_result:
  "(\<exists>u. fst (run_ip exec args st) = Inr u) \<longleftrightarrow> cmd_ok (fst (exec (''ip'', args) st))"
  by (simp add: run_ip_def cmd_ok_def split: prod.split sum.split)

lemma run_ip_Inr: "run_ip exec args st = (Inr u, st') \<Longrightarrow> cmd_ok (fst (exec (''ip'', args) st)) \<and> st' = snd (exec (''ip'', args) st)"
  by (metis fst_conv run_ip_result snd_conv snd_run_ip)

lemma run_ip_Inl: "run_ip exec args st = (Inl e, st') \<Longrightarrow> \<not> cmd_ok (fst (exec (''ip'', args) st)) \<and> st' = snd (exec (''ip'', args) st)"
  by (metis Inl_Inr_False fst_conv run_ip_result snd_conv snd_run_ip)

lemma route_law:
  assumes "route_laws h rt"
  shows "case route_edit c of
        None \<Rightarrow> rt (snd (hs_exec h c st)) = rt st
      | Some (a, k, spec) \<Rightarrow>
          if a = ''add'' then
            (if cmd_ok (fst (hs_exec h c st)) then rt st k = None \<and> rt (snd (hs_exec h c st)) = (rt st)(k \<mapsto> spec)
             else rt (snd (hs_exec h c st)) = rt st)
          else rt (snd (hs_exec h c st)) = (if spec = [] \<or> rt st k = Some spec then (rt st)(k := None) else rt st)"
  using assms unfolding route_laws_def by blast

lemma route_law_None: "route_laws h rt \<Longrightarrow> route_edit c = None \<Longrightarrow> rt (snd (hs_exec h c st)) = rt st"
  using route_law [of h rt c st] by simp

lemma route_law_add:
  assumes "route_laws h rt" and "route_edit c = Some (''add'', k, spec)"
  shows "if cmd_ok (fst (hs_exec h c st)) then rt st k = None \<and> rt (snd (hs_exec h c st)) = (rt st)(k \<mapsto> spec)
         else rt (snd (hs_exec h c st)) = rt st"
  using route_law [OF assms(1), of c st] unfolding assms(2) by simp

lemma route_law_del:
  assumes "route_laws h rt" and "route_edit c = Some (''del'', k, spec)"
  shows "rt (snd (hs_exec h c st)) = (if spec = [] \<or> rt st k = Some spec then (rt st)(k := None) else rt st)"
  using route_law [OF assms(1), of c st] unfolding assms(2) by simp

lemma route_law_host:
  "route_laws h rt \<Longrightarrow> rt (snd (hs_lookup h d st)) = rt st"
  "route_laws h rt \<Longrightarrow> rt (snd (hs_write_resolv h b st)) = rt st"
  unfolding route_laws_def by blast+

text \<open>An undo list \<open>covers\<close> the change from one table to another: only prefixes that were free and that the list
  deletes are new, and each of its commands deletes what is there now.\<close>

definition covers :: "route_table \<Rightarrow> cmd list \<Rightarrow> route_table \<Rightarrow> bool" where
  "covers A undo B \<longleftrightarrow>
     (\<forall>k. B k = A k \<or> A k = None \<and> k \<in> undo_keys undo) \<and>
     (\<forall>c \<in> set undo. \<exists>k spec. route_edit c = Some (''del'', k, spec) \<and> (spec = [] \<or> B k = Some spec))"

lemma undo_keys_simps [simp]:
  "undo_keys [] = {}"
  "undo_keys (a @ b) = undo_keys a \<union> undo_keys b"
  "route_edit c = Some (a', k, spec) \<Longrightarrow> undo_keys [c] = {k}"
  by (auto simp: undo_keys_def)

lemma covers_refl: "covers A [] A"
  by (simp add: covers_def)

lemma covers_push:
  assumes "covers A undo B" and "route_edit c = Some (''del'', k, spec)" and "spec = [] \<or> B' k = Some spec"
    and "B' = B \<or> B k = None \<and> B' = B(k \<mapsto> s)"
  shows "covers A (undo @ [c]) B'"
proof -
  have "\<exists>k spec. route_edit d = Some (''del'', k, spec) \<and> (spec = [] \<or> B' k = Some spec)" if "d \<in> set (undo @ [c])" for d
  proof (cases "d = c")
    case True
    with assms(2,3) show ?thesis by blast
  next
    case False
    with that have "d \<in> set undo" by simp
    with assms(1) obtain k' spec' where d: "route_edit d = Some (''del'', k', spec')" "spec' = [] \<or> B k' = Some spec'"
      unfolding covers_def by blast
    from assms(4) have "spec' = [] \<or> B' k' = Some spec'"
    proof
      assume "B' = B"
      with d(2) show ?thesis by simp
    next
      assume n: "B k = None \<and> B' = B(k \<mapsto> s)"
      show ?thesis
      proof (cases "k' = k")
        case True
        with d(2) n show ?thesis by simp
      next
        case False
        with d(2) n show ?thesis by simp
      qed
    qed
    with d(1) show ?thesis by (intro exI conjI)
  qed
  moreover have "B' j = A j \<or> A j = None \<and> j \<in> undo_keys (undo @ [c])" for j
  proof -
    have "B j = A j \<or> A j = None \<and> j \<in> undo_keys undo" using assms(1) unfolding covers_def by blast
    moreover have "undo_keys (undo @ [c]) = insert k (undo_keys undo)" using undo_keys_simps(3) [OF assms(2)] by simp
    moreover have "B' j = B j \<or> j = k \<and> B k = None" using assms(4) by (metis fun_upd_apply)
    ultimately show ?thesis by (metis insertCI)
  qed
  ultimately show ?thesis unfolding covers_def by blast
qed

lemma covers_undo:
  assumes laws: "route_laws h rt"
  shows "(\<forall>c \<in> set cs. \<exists>k spec. route_edit c = Some (''del'', k, spec) \<and> (spec = [] \<or> rt st k = None \<or> rt st k = Some spec)) \<Longrightarrow>
    rt (undo_all (hs_exec h) cs st) = (\<lambda>k. if k \<in> undo_keys cs then None else rt st k)"
proof (induction cs arbitrary: st)
  case Nil
  then show ?case by simp
next
  case (Cons c cs)
  then obtain k spec where c: "route_edit c = Some (''del'', k, spec)" "spec = [] \<or> rt st k = None \<or> rt st k = Some spec"
    by auto
  let ?st = "snd (hs_exec h c st)"
  have st: "rt ?st = (rt st)(k := None)"
    using route_law_del [OF laws c(1), of st] c(2) by (auto simp: fun_eq_iff)
  have "\<forall>d \<in> set cs. \<exists>k spec. route_edit d = Some (''del'', k, spec) \<and> (spec = [] \<or> rt ?st k = None \<or> rt ?st k = Some spec)"
  proof
    fix d assume "d \<in> set cs"
    with Cons.prems obtain k' spec' where d: "route_edit d = Some (''del'', k', spec')"
      "spec' = [] \<or> rt st k' = None \<or> rt st k' = Some spec'" by (meson list.set_intros(2))
    then show "\<exists>k spec. route_edit d = Some (''del'', k, spec) \<and> (spec = [] \<or> rt ?st k = None \<or> rt ?st k = Some spec)"
      by (cases "k' = k") (auto simp: st)
  qed
  from Cons.IH [OF this] st show ?case
    using undo_keys_simps(2) [of "[c]" cs] undo_keys_simps(3) [OF c(1)] by (auto simp: fun_eq_iff)
qed

lemma covers_drop:
  assumes "route_laws h rt" and "covers A undo (rt st)"
  shows "rt (undo_all (hs_exec h) undo st) = (\<lambda>k. if k \<in> undo_keys undo then None else A k)"
proof -
  have "rt (undo_all (hs_exec h) undo st) = (\<lambda>k. if k \<in> undo_keys undo then None else rt st k)"
    by (rule covers_undo [OF assms(1)]) (use assms(2) in \<open>unfold covers_def, blast\<close>)
  with assms(2) show ?thesis unfolding covers_def by (auto simp: fun_eq_iff)
qed

lemma route_edit_v4 [simp]:
  "a = ''add'' \<or> a = ''del'' \<Longrightarrow> CHR ''/'' \<in> set d \<Longrightarrow> route_edit (''ip'', ''route'' # a # d # spec) = Some (a, (False, d), spec)"
  by (auto simp: route_edit_def)

lemma route_edit_v6 [simp]:
  "a = ''add'' \<or> a = ''del'' \<Longrightarrow> CHR ''/'' \<in> set d \<Longrightarrow>
     route_edit (''ip'', ''-6'' # ''route'' # a # d # spec) = Some (a, (True, d), spec)"
  "a = ''add'' \<or> a = ''del'' \<Longrightarrow>
     route_edit (''ip'', ''-6'' # ''route'' # a # ''unreachable'' # d # spec) = Some (a, (True, d), ''unreachable'' # spec)"
  by (auto simp: route_edit_def)

lemma route_edit_quiet [simp]:
  "w \<noteq> ''route'' \<Longrightarrow> w \<noteq> ''-6'' \<Longrightarrow> route_edit (''ip'', w # args) = None"
  "w \<noteq> ''route'' \<Longrightarrow> route_edit (''ip'', ''-6'' # w # args) = None"
  "route_edit (''ip'', [''route'', ''show'', ''default'']) = None"
  "route_edit (''ip'', [''-6'', ''route'', ''show'', ''default'']) = None"
  by (auto simp: route_edit_def split: list.splits)

lemma targets_slash: "t \<in> set (fst (resolve_rule_targets np h d st)) \<Longrightarrow> CHR ''/'' \<in> set t"
  by (auto simp: resolve_rule_targets_def split: option.splits if_splits prod.splits sum.splits ip_addr.splits)

lemma targets_quiet: "route_laws h rt \<Longrightarrow> rt (snd (resolve_rule_targets np h d st)) = rt st"
  using route_law_host(1) [of h rt d st]
  by (auto simp: resolve_rule_targets_def split: option.splits prod.splits sum.splits)

lemma route_args_form: "route_args i orig rule route = Some add \<Longrightarrow> \<exists>spec. add = ''route'' # ''add'' # route # spec"
  by (auto simp: route_args_def split: if_splits option.splits)

text \<open>What holds after any number of installed rules: the undo list covers the change, it deletes only claimed
  prefixes, and the server's address is not claimed.\<close>

definition rules_ok :: "('o \<Rightarrow> route_table) \<Rightarrow> route_table \<Rightarrow> string \<Rightarrow> 'o rules_state \<Rightarrow> bool" where
  "rules_ok rt A pin s \<longleftrightarrow>
     (case s of (seen, undo, st) \<Rightarrow>
        covers A undo (rt st) \<and> undo_keys undo \<subseteq> Pair False ` set seen \<and> pin \<notin> set seen)"

lemma route_step_ok:
  assumes laws: "route_laws h rt" and ok: "rules_ok rt A pin s" and slash: "CHR ''/'' \<in> set route"
  shows "rules_ok rt A pin (route_step (hs_exec h) i orig pin rule route s)"
proof -
  obtain seen undo st where s: "s = (seen, undo, st)" by (cases s) auto
  show ?thesis
  proof (cases "route = pin \<or> route \<in> set seen")
    case True
    with ok s show ?thesis by (simp add: route_step_def)
  next
    case new: False
    show ?thesis
    proof (cases "route_args i orig rule route")
      case None
      with new ok s show ?thesis by (auto simp: route_step_def rules_ok_def)
    next
      case (Some add)
      then obtain spec where add: "add = ''route'' # ''add'' # route # spec" using route_args_form by blast
      obtain r st' where r: "run_ip (hs_exec h) add st = (r, st')" by (cases "run_ip (hs_exec h) add st")
      have edit: "route_edit (''ip'', add) = Some (''add'', (False, route), spec)" using slash add by simp
      show ?thesis
      proof (cases r)
        case (Inl e)
        then have "rt st' = rt st"
          using route_law_add [OF laws edit, of st] run_ip_Inl [of "hs_exec h" add st e st'] r by simp
        with new ok s r Inl Some show ?thesis by (auto simp: route_step_def rules_ok_def)
      next
        case (Inr u)
        then have t: "rt st (False, route) = None" "rt st' = (rt st)((False, route) \<mapsto> spec)"
          using route_law_add [OF laws edit, of st] run_ip_Inr [of "hs_exec h" add st u st'] r by simp_all
        have del: "route_edit (''ip'', add[1 := ''del'']) = Some (''del'', (False, route), spec)" using slash add by simp
        have "covers A (undo @ [(''ip'', add[1 := ''del''])]) (rt st')"
          by (rule covers_push [OF _ del]) (use ok s t in \<open>auto simp: rules_ok_def\<close>)
        with new ok s r Inr Some show ?thesis
          using undo_keys_simps(3) [OF del] by (auto simp: route_step_def rules_ok_def)
      qed
    qed
  qed
qed

lemma route_steps_ok:
  assumes "route_laws h rt"
  shows "\<forall>t \<in> set ts. CHR ''/'' \<in> set t \<Longrightarrow> rules_ok rt A pin s \<Longrightarrow>
    rules_ok rt A pin (fold (route_step (hs_exec h) i orig pin rule) ts s)"
  by (rule fold_invariant [where Q = "\<lambda>t. CHR ''/'' \<in> set t" and P = "rules_ok rt A pin"])
    (simp_all add: route_step_ok [OF assms])

lemma rule_step_ok:
  assumes "route_laws h rt" and "rules_ok rt A pin s"
  shows "rules_ok rt A pin (rule_step np h i orig pin rule s)"
proof -
  obtain seen undo st where s: "s = (seen, undo, st)" by (cases s) auto
  obtain ts st' where r: "resolve_rule_targets np h (rr_target rule) st = (ts, st')"
    by (cases "resolve_rule_targets np h (rr_target rule) st")
  have "rules_ok rt A pin (seen, undo, st')"
    using assms(2) s targets_quiet [OF assms(1), of np "rr_target rule" st] r by (simp add: rules_ok_def)
  from route_steps_ok [OF assms(1) _ this] targets_slash [of _ np h "rr_target rule" st] r s
  show ?thesis by (simp add: rule_step_def)
qed

lemma apply_route_rules_ok:
  assumes "route_laws h rt" and "apply_route_rules np h cfg i orig server_ip [] st = (undo, st')"
  shows "covers (rt st) undo (rt st')" and "(False, pin_route server_ip) \<notin> undo_keys undo"
    and "undo_keys undo \<subseteq> {False} \<times> UNIV"
proof -
  have step: "rules_ok rt (rt st) (pin_route server_ip) s \<Longrightarrow>
     rules_ok rt (rt st) (pin_route server_ip) (fold (rule_step np h i orig (pin_route server_ip)) rs s)" for rs s
    by (rule fold_invariant [where Q = "\<lambda>_. True" and P = "rules_ok rt (rt st) (pin_route server_ip)"])
      (simp_all add: rule_step_ok [OF assms(1)])
  have "rules_ok rt (rt st) (pin_route server_ip) ([], [], st)" by (simp add: rules_ok_def covers_refl)
  from step [OF this, of "cl_routes cfg"] assms(2)
  obtain seen where "rules_ok rt (rt st) (pin_route server_ip) (seen, undo, st')"
    unfolding apply_route_rules_def by (metis prod.collapse)
  then show "covers (rt st) undo (rt st')" "(False, pin_route server_ip) \<notin> undo_keys undo"
    "undo_keys undo \<subseteq> {False} \<times> UNIV" by (auto simp: rules_ok_def)
qed

lemma covers_same: "covers A undo B \<Longrightarrow> k \<notin> undo_keys undo \<Longrightarrow> B k = A k"
  unfolding covers_def by blast

lemma try_ip_route:
  assumes "route_laws h rt" and "route_edit (''ip'', add) = Some (''add'', k, spec)"
  shows "rt (try_ip (hs_exec h) add st) = rt st \<or> rt st k = None \<and> rt (try_ip (hs_exec h) add st) = (rt st)(k \<mapsto> spec)"
  using route_law_add [OF assms, of st] by (cases "cmd_ok (fst (hs_exec h (''ip'', add) st))") (simp_all add: try_ip_def)

lemma try_undo_covers:
  assumes "route_laws h rt" and "route_edit (''ip'', add) = Some (''add'', k, spec)" and "route_edit (''ip'', del) = Some (''del'', k, [])"
    and "covers A (fst s) (rt (snd s))"
  shows "covers A (fst (try_undo (hs_exec h) add del s)) (rt (snd (try_undo (hs_exec h) add del s))) \<and>
    (\<forall>j. j \<noteq> k \<longrightarrow> rt (snd (try_undo (hs_exec h) add del s)) j = rt (snd s) j) \<and>
    (rt (snd (try_undo (hs_exec h) add del s)) k = rt (snd s) k \<or> rt (snd (try_undo (hs_exec h) add del s)) k = Some spec)"
proof -
  obtain undo st where s: "s = (undo, st)" by (cases s)
  define st' where "st' = try_ip (hs_exec h) add st"
  have r: "rt st' = rt st \<or> rt st k = None \<and> rt st' = (rt st)(k \<mapsto> spec)"
    unfolding st'_def by (rule try_ip_route [OF assms(1,2)])
  have c: "covers A (undo @ [(''ip'', del)]) (rt st')"
    using covers_push [OF _ assms(3) _ r] assms(4) s by simp
  have "\<forall>j. j \<noteq> k \<longrightarrow> rt st' j = rt st j" "rt st' k = rt st k \<or> rt st' k = Some spec"
    using r by (metis fun_upd_apply)+
  with c show ?thesis by (simp add: try_undo_def s st'_def [symmetric])
qed

lemma pin_has_slash [simp]: "CHR ''/'' \<in> set (pin_route ip)"
  by (simp add: pin_route_def)

lemma last_pin: "last (pin_route ip) = CHR ''2''"
  by (simp add: pin_route_def)

lemma pin_not_capture [simp]: "pin_route ip \<noteq> ''0.0.0.0/1''" "pin_route ip \<noteq> ''128.0.0.0/1''"
  using last_pin [of ip] by auto

lemma pin_server_ok:
  assumes "route_laws h rt" and "covers A (fst s) (rt (snd s))"
  shows "covers A (fst (pin_server (hs_exec h) ip orig s)) (rt (snd (pin_server (hs_exec h) ip orig s)))"
    and "rt (snd (pin_server (hs_exec h) ip orig s)) (False, pin_route ip) = rt (snd s) (False, pin_route ip) \<or>
      (\<exists>gw dev. orig = Some (gw, dev) \<and>
         rt (snd (pin_server (hs_exec h) ip orig s)) (False, pin_route ip) = Some [''via'', gw, ''dev'', dev])"
    and "orig \<noteq> None \<Longrightarrow> (False, pin_route ip) \<in> undo_keys (fst (pin_server (hs_exec h) ip orig s))"
proof -
  have "covers A (fst (pin_server (hs_exec h) ip orig s)) (rt (snd (pin_server (hs_exec h) ip orig s))) \<and>
     (rt (snd (pin_server (hs_exec h) ip orig s)) (False, pin_route ip) = rt (snd s) (False, pin_route ip) \<or>
      (\<exists>gw dev. orig = Some (gw, dev) \<and>
         rt (snd (pin_server (hs_exec h) ip orig s)) (False, pin_route ip) = Some [''via'', gw, ''dev'', dev]))"
  proof (cases orig)
    case None
    with assms(2) show ?thesis by (simp add: pin_server_def)
  next
    case (Some gd)
    obtain gw dev where gd: "gd = (gw, dev)" by (cases gd)
    have add: "route_edit (''ip'', [''route'', ''add'', pin_route ip, ''via'', gw, ''dev'', dev]) =
        Some (''add'', (False, pin_route ip), [''via'', gw, ''dev'', dev])" by simp
    have del: "route_edit (''ip'', [''route'', ''del'', pin_route ip]) = Some (''del'', (False, pin_route ip), [])" by simp
    from try_undo_covers [OF assms(1) add del assms(2)] Some gd
    show ?thesis by (simp add: pin_server_def)
  qed
  then show "covers A (fst (pin_server (hs_exec h) ip orig s)) (rt (snd (pin_server (hs_exec h) ip orig s)))"
    "rt (snd (pin_server (hs_exec h) ip orig s)) (False, pin_route ip) = rt (snd s) (False, pin_route ip) \<or>
      (\<exists>gw dev. orig = Some (gw, dev) \<and>
         rt (snd (pin_server (hs_exec h) ip orig s)) (False, pin_route ip) = Some [''via'', gw, ''dev'', dev])" by blast+
  show "orig \<noteq> None \<Longrightarrow> (False, pin_route ip) \<in> undo_keys (fst (pin_server (hs_exec h) ip orig s))"
    by (cases s) (auto simp: pin_server_def try_undo_def undo_keys_def split: option.split)
qed

text \<open>The IPv6 part changes no IPv4 route.\<close>

definition v6_step :: "('o \<Rightarrow> route_table) \<Rightarrow> route_table \<Rightarrow> cmd list \<times> 'o \<Rightarrow> cmd list \<times> 'o \<Rightarrow> bool" where
  "v6_step rt A s s' \<longleftrightarrow> covers A (fst s') (rt (snd s')) \<and> (\<forall>d. rt (snd s') (False, d) = rt (snd s) (False, d))"

lemma v6_try_undo:
  assumes "route_laws h rt" and "route_edit (''ip'', add) = Some (''add'', (True, p), spec)"
    and "route_edit (''ip'', del) = Some (''del'', (True, p), [])" and "v6_step rt A s0 s"
  shows "v6_step rt A s0 (try_undo (hs_exec h) add del s)"
proof -
  have "covers A (fst s) (rt (snd s))" using assms(4) by (simp add: v6_step_def)
  from try_undo_covers [OF assms(1-3) this] assms(4) show ?thesis unfolding v6_step_def by auto
qed

lemma default_route6_quiet: "route_laws h rt \<Longrightarrow> rt (snd (default_route6 (hs_exec h) st)) = rt st"
  using route_law_None [of h rt "(''ip'', [''-6'', ''route'', ''show'', ''default''])" st]
  by (auto simp: default_route6_def Let_def split: prod.split sum.split)

lemma default_route_quiet: "route_laws h rt \<Longrightarrow> rt (snd (default_route (hs_exec h) st)) = rt st"
  using route_law_None [of h rt "(''ip'', [''route'', ''show'', ''default''])" st]
  by (auto simp: default_route_def Let_def split: prod.split sum.split)

lemma pin_server6_ok:
  assumes "route_laws h rt" and "covers A (fst s) (rt (snd s))"
  shows "v6_step rt A s (pin_server6 (hs_exec h) ip s)"
proof -
  obtain undo st where s: "s = (undo, st)" by (cases s)
  obtain r st' where d: "default_route6 (hs_exec h) st = (r, st')" by (cases "default_route6 (hs_exec h) st")
  have st': "rt st' = rt st" using default_route6_quiet [OF assms(1), of st] d by simp
  show ?thesis
  proof (cases ip)
    case (V4 x)
    with assms(2) show ?thesis by (simp add: pin_server6_def v6_step_def)
  next
    case (V6 s6)
    show ?thesis
    proof (cases r)
      case None
      with V6 d s st' assms(2) show ?thesis by (simp add: pin_server6_def v6_step_def)
    next
      case (Some gd)
      obtain gw6 dev6 where gd: "gd = (gw6, dev6)" by (cases gd)
      have "v6_step rt A s (undo, st')" using assms(2) s st' by (simp add: v6_step_def)
      from v6_try_undo [OF assms(1) _ _ this] V6 d s Some gd
      show ?thesis by (simp add: pin_server6_def)
    qed
  qed
qed

lemma capture_v6_ok:
  assumes "route_laws h rt" and "covers A (fst s) (rt (snd s))"
  shows "v6_step rt A s (capture_v6 (hs_exec h) cfg wel i ip s)"
proof -
  have base: "v6_step rt A s s" using assms(2) by (simp add: v6_step_def)
  note step = v6_try_undo [OF assms(1)]
  have "v6_step rt A s (try_undo (hs_exec h) [''-6'', ''route'', ''add'', ''8000::/1'', ''dev'', i] [''-6'', ''route'', ''del'', ''8000::/1'']
          (try_undo (hs_exec h) [''-6'', ''route'', ''add'', ''::/1'', ''dev'', i] [''-6'', ''route'', ''del'', ''::/1'']
            (pin_server6 (hs_exec h) ip s)))"
    by (rule step [OF _ _ step [OF _ _ pin_server6_ok [OF assms]]]) simp_all
  moreover have "v6_step rt A s (try_undo (hs_exec h) [''-6'', ''route'', ''add'', ''unreachable'', ''8000::/1''] [''-6'', ''route'', ''del'', ''8000::/1'']
          (try_undo (hs_exec h) [''-6'', ''route'', ''add'', ''unreachable'', ''::/1''] [''-6'', ''route'', ''del'', ''::/1''] s))"
    by (rule step [OF _ _ step [OF _ _ base]]) simp_all
  ultimately show ?thesis using base by (simp add: capture_v6_def)
qed

lemma run_ip_route:
  assumes "route_laws h rt" and "route_edit (''ip'', add) = Some (''add'', k, spec)" and "run_ip (hs_exec h) add st = (Inr u, st')"
  shows "rt st k = None \<and> rt st' = (rt st)(k \<mapsto> spec)"
  using route_law_add [OF assms(1,2), of st] run_ip_Inr [OF assms(3)] by simp

lemma set_dns_quiet: "route_laws h rt \<Longrightarrow> rt (snd (set_dns h wel st)) = rt st"
  by (simp add: set_dns_def route_law_host)

lemma apply_global_ok:
  assumes laws: "route_laws h rt" and cov: "covers A undo (rt st)"
    and run: "apply_global h cfg wel i ip orig undo st = (Inr g, st')"
  shows "covers A (ng_undo g) (rt st')"
    and "rt st' (False, pin_route ip) = rt st (False, pin_route ip) \<or>
      (\<exists>gw dev. orig = Some (gw, dev) \<and> rt st' (False, pin_route ip) = Some [''via'', gw, ''dev'', dev])"
    and "cl_split_mode cfg \<noteq> Whitelist \<Longrightarrow>
      rt st' (False, ''0.0.0.0/1'') = Some [''dev'', i] \<and> rt st' (False, ''128.0.0.0/1'') = Some [''dev'', i]"
proof -
  obtain undo1 st1 where p: "pin_server (hs_exec h) ip orig (undo, st) = (undo1, st1)"
    by (cases "pin_server (hs_exec h) ip orig (undo, st)")
  have c1: "covers A undo1 (rt st1)" and pin1: "rt st1 (False, pin_route ip) = rt st (False, pin_route ip) \<or>
      (\<exists>gw dev. orig = Some (gw, dev) \<and> rt st1 (False, pin_route ip) = Some [''via'', gw, ''dev'', dev])"
    using pin_server_ok(1,2) [OF laws, of A "(undo, st)" ip orig] cov p by simp_all
  have all: "covers A (ng_undo g) (rt st') \<and> rt st' (False, pin_route ip) = rt st1 (False, pin_route ip) \<and>
     (cl_split_mode cfg \<noteq> Whitelist \<longrightarrow>
        rt st' (False, ''0.0.0.0/1'') = Some [''dev'', i] \<and> rt st' (False, ''128.0.0.0/1'') = Some [''dev'', i])"
  proof (cases "cl_split_mode cfg = Whitelist")
    case True
    with run p c1 show ?thesis by (auto simp: apply_global_def)
  next
    case False
    let ?a = "[''route'', ''add'', ''0.0.0.0/1'', ''dev'', i]" and ?b = "[''route'', ''add'', ''128.0.0.0/1'', ''dev'', i]"
    let ?da = "(''ip'', [''route'', ''del'', ''0.0.0.0/1''])" and ?db = "(''ip'', [''route'', ''del'', ''128.0.0.0/1''])"
    from run p False obtain u2 st2 u3 st3 where r: "run_ip (hs_exec h) ?a st1 = (Inr u2, st2)" "run_ip (hs_exec h) ?b st2 = (Inr u3, st3)"
      and rest: "(case capture_v6 (hs_exec h) cfg wel i ip (undo1 @ [?da, ?db], st3) of (undo2, st4) \<Rightarrow>
         (case set_dns h wel st4 of (backup, st5) \<Rightarrow> (Inr \<lparr>ng_undo = undo2, ng_resolv_backup = backup\<rparr> :: net_guard res, st5))) = (Inr g, st')"
      by (auto simp: apply_global_def Let_def bind_st_Inr_iff)
    have ra: "rt st1 (False, ''0.0.0.0/1'') = None" "rt st2 = (rt st1)((False, ''0.0.0.0/1'') \<mapsto> [''dev'', i])"
      using run_ip_route [OF laws _ r(1)] by simp_all
    have rb: "rt st2 (False, ''128.0.0.0/1'') = None" "rt st3 = (rt st2)((False, ''128.0.0.0/1'') \<mapsto> [''dev'', i])"
      using run_ip_route [OF laws _ r(2)] by simp_all
    have "covers A (undo1 @ [?da]) (rt st2)"
      by (rule covers_push [OF c1, of _ "(False, ''0.0.0.0/1'')" "[]"]) (use ra in auto)
    then have "covers A ((undo1 @ [?da]) @ [?db]) (rt st3)"
      by (rule covers_push [of _ _ _ _ "(False, ''128.0.0.0/1'')" "[]"]) (use rb in auto)
    then have c3: "covers A (fst (undo1 @ [?da, ?db], st3)) (rt (snd (undo1 @ [?da, ?db], st3)))" by simp
    obtain undo2 st4 where cap: "capture_v6 (hs_exec h) cfg wel i ip (undo1 @ [?da, ?db], st3) = (undo2, st4)"
      by (cases "capture_v6 (hs_exec h) cfg wel i ip (undo1 @ [?da, ?db], st3)")
    have c4: "covers A undo2 (rt st4)" "\<forall>d. rt st4 (False, d) = rt st3 (False, d)"
      using capture_v6_ok [OF laws c3, of cfg wel i ip] cap by (simp_all add: v6_step_def)
    have g: "ng_undo g = undo2" "rt st' = rt st4"
      using rest cap set_dns_quiet [OF laws, of wel st4] by (auto split: prod.splits)
    show ?thesis using c4 g rb(2) ra(2) by simp
  qed
  from all show "covers A (ng_undo g) (rt st')" by blast
  from all pin1 show "rt st' (False, pin_route ip) = rt st (False, pin_route ip) \<or>
      (\<exists>gw dev. orig = Some (gw, dev) \<and> rt st' (False, pin_route ip) = Some [''via'', gw, ''dev'', dev])" by simp
  from all show "cl_split_mode cfg \<noteq> Whitelist \<Longrightarrow>
      rt st' (False, ''0.0.0.0/1'') = Some [''dev'', i] \<and> rt st' (False, ''128.0.0.0/1'') = Some [''dev'', i]" by blast
qed

lemma run_ip_quiet:
  "route_laws h rt \<Longrightarrow> w \<noteq> ''route'' \<Longrightarrow> w \<noteq> ''-6'' \<Longrightarrow> rt (snd (run_ip (hs_exec h) (w # args) st)) = rt st"
  using route_law_None [of h rt "(''ip'', w # args)" st] by simp

lemma bind_st_snd_keeps:
  assumes "obs (snd p) = x" and "\<And>a s. p = (Inr a, s) \<Longrightarrow> obs s = x \<Longrightarrow> obs (snd (k a s)) = x"
  shows "obs (snd (bind_st p k)) = x"
  using assms by (cases p; cases "fst p") auto

lemma bring_up_quiet:
  assumes "route_laws h rt"
  shows "rt (snd (bring_up (hs_exec h) wel i st)) = rt st"
proof -
  have q: "rt (snd (run_ip (hs_exec h) (w # args) s)) = rt s" if "w \<noteq> ''route''" "w \<noteq> ''-6''" for w args s
    using run_ip_quiet [OF assms that] .
  show ?thesis
    unfolding bring_up_def
  proof (rule bind_st_snd_keeps [where obs = rt])
    show "rt (snd (run_ip (hs_exec h) [''addr'', ''add'', tun_cidr wel, ''dev'', i] st)) = rt st" by (rule q) simp_all
    fix s assume s: "rt s = rt st"
    show "rt (snd (bind_st (run_ip (hs_exec h) [''link'', ''set'', ''dev'', i, ''mtu'', show_u16 (w_mtu wel)] s)
        (\<lambda>_. run_ip (hs_exec h) [''link'', ''set'', ''dev'', i, ''up'']))) = rt st"
    proof (rule bind_st_snd_keeps [where obs = rt])
      show "rt (snd (run_ip (hs_exec h) [''link'', ''set'', ''dev'', i, ''mtu'', show_u16 (w_mtu wel)] s)) = rt st"
        unfolding s [symmetric] by (rule q) simp_all
      fix s' assume s': "rt s' = rt st"
      show "rt (snd (run_ip (hs_exec h) [''link'', ''set'', ''dev'', i, ''up''] s')) = rt st"
        unfolding s' [symmetric] by (rule q) simp_all
    qed
  qed
qed

lemma add_address6_quiet: "route_laws h rt \<Longrightarrow> rt (add_address6 (hs_exec h) wel i st) = rt st"
  by (auto simp: add_address6_def try_ip_def route_law_None split: option.split)

text \<open>The routing after a successful \<open>apply_net\<close>: it is covered by the undo list of the guard; the server's
  address has the route it had or the one through the physical gateway; and in global mode without a
  whitelist both halves of the IPv4 space go to the tunnel.\<close>

lemma apply_net_ok:
  assumes laws: "route_laws h rt" and run: "apply_net np h cfg wel i ip st = (Inr g, st')"
  shows "covers (rt st) (ng_undo g) (rt st') \<and>
    (rt st' (False, pin_route ip) = rt st (False, pin_route ip) \<or>
      cl_mode cfg = GlobalProxy \<and> (\<exists>gw dev s. fst (default_route (hs_exec h) s) = Inr (gw, dev) \<and>
        rt st' (False, pin_route ip) = Some [''via'', gw, ''dev'', dev])) \<and>
    (cl_mode cfg = GlobalProxy \<longrightarrow> cl_split_mode cfg \<noteq> Whitelist \<longrightarrow>
      rt st' (False, ''0.0.0.0/1'') = Some [''dev'', i] \<and> rt st' (False, ''128.0.0.0/1'') = Some [''dev'', i])"
proof -
  from run obtain u st1 where b: "bring_up (hs_exec h) wel i st = (Inr u, st1)"
    unfolding apply_net_def bind_st_Inr_iff by blast
  define st1' where "st1' = add_address6 (hs_exec h) wel i st1"
  obtain r st2 where d: "default_route (hs_exec h) st1' = (r, st2)" by (cases "default_route (hs_exec h) st1'")
  define orig where "orig = (case r of Inr gd \<Rightarrow> Some gd | Inl _ \<Rightarrow> None)"
  obtain undo st3 where a: "apply_route_rules np h cfg i orig ip [] st2 = (undo, st3)"
    by (cases "apply_route_rules np h cfg i orig ip [] st2")
  have rest: "(case cl_mode cfg of
      GlobalProxy \<Rightarrow> apply_global h cfg wel i ip orig undo st3
    | _ \<Rightarrow> (Inr \<lparr>ng_undo = undo, ng_resolv_backup = None\<rparr>, st3)) = (Inr g, st')"
    using run b d a by (cases "cl_mode cfg") (simp_all add: apply_net_def st1'_def orig_def)
  have st2: "rt st2 = rt st"
    using bring_up_quiet [OF laws, of wel i st] add_address6_quiet [OF laws, of wel i st1]
      default_route_quiet [OF laws, of st1'] b d by (simp add: st1'_def)
  have c: "covers (rt st) undo (rt st3)" and p: "rt st3 (False, pin_route ip) = rt st (False, pin_route ip)"
    using apply_route_rules_ok [OF laws a] covers_same st2 by (metis, metis)
  show ?thesis
  proof (cases "cl_mode cfg = GlobalProxy")
    case True
    with rest have run': "apply_global h cfg wel i ip orig undo st3 = (Inr g, st')" by simp
    have gd: "fst (default_route (hs_exec h) st1') = Inr (gw, dev)" if "orig = Some (gw, dev)" for gw dev
      using that d by (auto simp: orig_def split: sum.splits)
    from apply_global_ok [OF laws c run'] p gd True show ?thesis by metis
  next
    case False
    with rest have "g = \<lparr>ng_undo = undo, ng_resolv_backup = None\<rparr>" "st' = st3"
      by (cases "cl_mode cfg"; simp)+
    with c p False show ?thesis by simp
  qed
qed

section \<open>The resolver file\<close>

text \<open>\<open>resolv.conf\<close> changes only by writing it, a write replaces its content, and it is either writable or not.\<close>

definition file_laws :: "'o host \<Rightarrow> bool" where
  "file_laws h \<longleftrightarrow>
     (\<forall>c st. hs_read_resolv h (snd (hs_exec h c st)) = hs_read_resolv h st) \<and>
     (\<forall>d st. hs_read_resolv h (snd (hs_lookup h d st)) = hs_read_resolv h st) \<and>
     (\<forall>b st. hs_read_resolv h (snd (hs_write_resolv h b st)) =
        (if fst (hs_write_resolv h b st) = Inr () then Inr b else hs_read_resolv h st)) \<and>
     (\<exists>w. \<forall>b st. (fst (hs_write_resolv h b st) = Inr ()) = w)"

lemma file_law_exec: "file_laws h \<Longrightarrow> hs_read_resolv h (snd (hs_exec h c st)) = hs_read_resolv h st"
  unfolding file_laws_def by blast

lemma keeps_run_ip: "file_laws h \<Longrightarrow> hs_read_resolv h (snd (run_ip (hs_exec h) args st)) = hs_read_resolv h st"
  using file_law_exec [of h "(''ip'', args)" st] by simp

lemma keeps_try_ip: "file_laws h \<Longrightarrow> hs_read_resolv h (try_ip (hs_exec h) args st) = hs_read_resolv h st"
  by (simp only: try_ip_def keeps_run_ip)

lemma keeps_try_undo: "file_laws h \<Longrightarrow> hs_read_resolv h (snd (try_undo (hs_exec h) add del s)) = hs_read_resolv h (snd s)"
  by (simp add: try_undo_def keeps_try_ip split: prod.split)

lemma keeps_undo_all: "file_laws h \<Longrightarrow> hs_read_resolv h (undo_all (hs_exec h) cs st) = hs_read_resolv h st"
  by (induction cs arbitrary: st) (simp_all only: undo_all_simps file_law_exec)

lemma keeps_default_route:
  "file_laws h \<Longrightarrow> hs_read_resolv h (snd (default_route (hs_exec h) st)) = hs_read_resolv h st"
  "file_laws h \<Longrightarrow> hs_read_resolv h (snd (default_route6 (hs_exec h) st)) = hs_read_resolv h st"
  using file_law_exec [of h "(''ip'', [''route'', ''show'', ''default''])" st]
    file_law_exec [of h "(''ip'', [''-6'', ''route'', ''show'', ''default''])" st]
  by (auto simp: default_route_def default_route6_def Let_def split: prod.split sum.split)

lemma keeps_targets: "file_laws h \<Longrightarrow> hs_read_resolv h (snd (resolve_rule_targets np h d st)) = hs_read_resolv h st"
proof -
  assume "file_laws h"
  then have "hs_read_resolv h (snd (hs_lookup h d st)) = hs_read_resolv h st"
    unfolding file_laws_def by blast
  then show ?thesis
    by (auto simp: resolve_rule_targets_def split: option.splits prod.splits sum.splits)
qed

lemma keeps_route_step:
  assumes "file_laws h"
  shows "hs_read_resolv h (snd (snd (route_step (hs_exec h) i orig pin rule route s))) = hs_read_resolv h (snd (snd s))"
proof -
  obtain seen undo st where s: "s = (seen, undo, st)" by (cases s) auto
  show ?thesis
  proof (cases "route_args i orig rule route")
    case None
    then show ?thesis by (simp add: route_step_def s)
  next
    case (Some add)
    obtain r st' where r: "run_ip (hs_exec h) add st = (r, st')" by (cases "run_ip (hs_exec h) add st")
    then show ?thesis
      using keeps_run_ip [OF assms, of add st] Some by (cases r) (simp_all add: route_step_def s)
  qed
qed

lemma keeps_rule_step:
  assumes "file_laws h"
  shows "hs_read_resolv h (snd (snd (rule_step np h i orig pin rule s))) = hs_read_resolv h (snd (snd s))"
proof -
  obtain seen undo st where s: "s = (seen, undo, st)" by (cases s) auto
  obtain ts st' where r: "resolve_rule_targets np h (rr_target rule) st = (ts, st')"
    by (cases "resolve_rule_targets np h (rr_target rule) st")
  have "hs_read_resolv h (snd (snd (fold (route_step (hs_exec h) i orig pin rule) ts (seen, undo, st')))) = hs_read_resolv h st'"
    by (rule fold_invariant [where Q = "\<lambda>_. True" and P = "\<lambda>s. hs_read_resolv h (snd (snd s)) = hs_read_resolv h st'"])
      (simp_all add: keeps_route_step [OF assms])
  then show ?thesis using keeps_targets [OF assms, of np "rr_target rule" st] r by (simp add: rule_step_def s)
qed

lemma keeps_rules:
  assumes "file_laws h"
  shows "hs_read_resolv h (snd (apply_route_rules np h cfg i orig ip undo st)) = hs_read_resolv h st"
  unfolding apply_route_rules_def
  by (rule fold_invariant [where Q = "\<lambda>_. True" and P = "\<lambda>s. hs_read_resolv h (snd (snd s)) = hs_read_resolv h st"])
    (simp_all add: keeps_rule_step [OF assms])

lemma keeps_pin6: "file_laws h \<Longrightarrow> hs_read_resolv h (snd (pin_server6 (hs_exec h) ip s)) = hs_read_resolv h (snd s)"
proof -
  assume laws: "file_laws h"
  obtain undo st where s: "s = (undo, st)" by (cases s)
  obtain r st' where d: "default_route6 (hs_exec h) st = (r, st')" by (cases "default_route6 (hs_exec h) st")
  with keeps_default_route(2) [OF laws, of st] keeps_try_undo [OF laws] show ?thesis
    by (cases r) (auto simp: pin_server6_def s split: ip_addr.split)
qed

lemma keeps_capture: "file_laws h \<Longrightarrow> hs_read_resolv h (snd (capture_v6 (hs_exec h) cfg wel i ip s)) = hs_read_resolv h (snd s)"
  by (simp add: capture_v6_def keeps_try_undo keeps_pin6)

lemma keeps_pin: "file_laws h \<Longrightarrow> hs_read_resolv h (snd (pin_server (hs_exec h) ip orig s)) = hs_read_resolv h (snd s)"
  by (cases orig) (auto simp: pin_server_def keeps_try_undo)

lemma keeps_bring_up: "file_laws h \<Longrightarrow> hs_read_resolv h (snd (bring_up (hs_exec h) wel i st)) = hs_read_resolv h st"
  unfolding bring_up_def
  by (rule bind_st_snd_keeps [where obs = "hs_read_resolv h"], simp only: keeps_run_ip)
    (rule bind_st_snd_keeps [where obs = "hs_read_resolv h"], simp_all only: keeps_run_ip)

text \<open>After \<open>apply_net\<close> either the file is untouched and there is no backup, or the backup is what it held.\<close>

definition backup_ok :: "'o host \<Rightarrow> string \<Rightarrow> net_guard \<Rightarrow> 'o \<Rightarrow> bool" where
  "backup_ok h prev g st \<longleftrightarrow>
     ng_resolv_backup g = Some prev \<or> ng_resolv_backup g = None \<and> hs_read_resolv h st = Inr prev"

lemma apply_global_backup:
  assumes laws: "file_laws h" and prev: "hs_read_resolv h st = Inr prev"
    and run: "apply_global h cfg wel i ip orig undo st = (Inr g, st')"
  shows "backup_ok h prev g st' \<and> (ng_resolv_backup g = Some prev \<longrightarrow>
     hs_read_resolv h st' = Inr prev \<or> (\<exists>b s. st' = snd (hs_write_resolv h b s) \<and> fst (hs_write_resolv h b s) = Inr ()))"
proof -
  obtain undo1 st1 where p: "pin_server (hs_exec h) ip orig (undo, st) = (undo1, st1)"
    by (cases "pin_server (hs_exec h) ip orig (undo, st)")
  have r1: "hs_read_resolv h st1 = Inr prev" using keeps_pin [OF laws, of ip orig "(undo, st)"] p prev by simp
  show ?thesis
  proof (cases "cl_split_mode cfg = Whitelist")
    case True
    with run p r1 show ?thesis by (auto simp: apply_global_def backup_ok_def)
  next
    case False
    let ?undo = "undo1 @ [(''ip'', [''route'', ''del'', ''0.0.0.0/1'']), (''ip'', [''route'', ''del'', ''128.0.0.0/1''])]"
    from run p False obtain u2 st2 u3 st3 where r: "run_ip (hs_exec h) [''route'', ''add'', ''0.0.0.0/1'', ''dev'', i] st1 = (Inr u2, st2)"
        "run_ip (hs_exec h) [''route'', ''add'', ''128.0.0.0/1'', ''dev'', i] st2 = (Inr u3, st3)"
      and rest: "(case capture_v6 (hs_exec h) cfg wel i ip (?undo, st3) of (undo2, st4) \<Rightarrow>
         (case set_dns h wel st4 of (backup, st5) \<Rightarrow> (Inr \<lparr>ng_undo = undo2, ng_resolv_backup = backup\<rparr> :: net_guard res, st5))) = (Inr g, st')"
      by (auto simp: apply_global_def Let_def bind_st_Inr_iff)
    obtain undo2 st4 where cap: "capture_v6 (hs_exec h) cfg wel i ip (?undo, st3) = (undo2, st4)"
      by (cases "capture_v6 (hs_exec h) cfg wel i ip (?undo, st3)")
    have r4: "hs_read_resolv h st4 = Inr prev"
      using keeps_capture [OF laws, of cfg wel i ip "(?undo, st3)"] keeps_run_ip [OF laws, of _ st1] keeps_run_ip [OF laws, of _ st2]
        cap r r1 by (metis snd_conv)
    have w: "hs_read_resolv h (snd (hs_write_resolv h b st4)) = (if fst (hs_write_resolv h b st4) = Inr () then Inr b else Inr prev)" for b
      using laws r4 unfolding file_laws_def by metis
    show ?thesis
      using rest cap r4 w [of "resolv_body wel"]
      by (auto simp: set_dns_def backup_ok_def split: if_splits)
  qed
qed

lemma apply_net_backup:
  assumes laws: "file_laws h" and prev: "hs_read_resolv h st = Inr prev"
    and run: "apply_net np h cfg wel i ip st = (Inr g, st')"
  shows "backup_ok h prev g st' \<and> (ng_resolv_backup g = Some prev \<longrightarrow>
     hs_read_resolv h st' = Inr prev \<or> (\<exists>b s. st' = snd (hs_write_resolv h b s) \<and> fst (hs_write_resolv h b s) = Inr ()))"
proof -
  from run obtain u st1 where b: "bring_up (hs_exec h) wel i st = (Inr u, st1)"
    unfolding apply_net_def bind_st_Inr_iff by blast
  define st1' where "st1' = add_address6 (hs_exec h) wel i st1"
  obtain r st2 where d: "default_route (hs_exec h) st1' = (r, st2)" by (cases "default_route (hs_exec h) st1'")
  define orig where "orig = (case r of Inr gd \<Rightarrow> Some gd | Inl _ \<Rightarrow> None)"
  obtain undo st3 where a: "apply_route_rules np h cfg i orig ip [] st2 = (undo, st3)"
    by (cases "apply_route_rules np h cfg i orig ip [] st2")
  have rest: "(case cl_mode cfg of
      GlobalProxy \<Rightarrow> apply_global h cfg wel i ip orig undo st3
    | _ \<Rightarrow> (Inr \<lparr>ng_undo = undo, ng_resolv_backup = None\<rparr>, st3)) = (Inr g, st')"
    using run b d a by (cases "cl_mode cfg") (simp_all add: apply_net_def st1'_def orig_def)
  have "hs_read_resolv h st1' = hs_read_resolv h st1"
    by (simp add: st1'_def add_address6_def keeps_try_ip [OF laws] split: option.split)
  then have st3: "hs_read_resolv h st3 = Inr prev"
    using keeps_bring_up [OF laws, of wel i st] keeps_default_route(1) [OF laws, of st1'] keeps_rules [OF laws, of np cfg i orig ip "[]" st2]
      b d a prev by simp
  show ?thesis
  proof (cases "cl_mode cfg = GlobalProxy")
    case True
    with rest apply_global_backup [OF laws st3] show ?thesis by simp
  next
    case False
    with rest have "g = \<lparr>ng_undo = undo, ng_resolv_backup = None\<rparr>" "st' = st3"
      by (cases "cl_mode cfg"; simp)+
    with st3 show ?thesis by (simp add: backup_ok_def)
  qed
qed

text \<open>The pin is on the undo list of a successful global \<open>apply\<close> whenever the host reported a default route.\<close>

lemma try_undo_grows: "set (fst s) \<subseteq> set (fst (try_undo exec add del s))"
  by (cases s) (auto simp: try_undo_def)

lemma pin_server6_grows: "set (fst s) \<subseteq> set (fst (pin_server6 exec ip s))"
  by (cases s) (auto simp: pin_server6_def try_undo_def split: ip_addr.split prod.split option.split)

lemma capture_v6_grows: "set (fst s) \<subseteq> set (fst (capture_v6 exec cfg wel i ip s))"
proof -
  have two: "set (fst s') \<subseteq> set (fst (try_undo exec a d (try_undo exec b e s')))" for a d b e s'
    by (rule subset_trans [OF try_undo_grows try_undo_grows])
  show ?thesis
    unfolding capture_v6_def using subset_trans [OF pin_server6_grows two] two by simp
qed

lemma apply_global_pin_key:
  assumes "apply_global h cfg wel i ip (Some gd) undo st = (Inr g, st')"
  shows "(False, pin_route ip) \<in> undo_keys (ng_undo g)"
proof -
  obtain undo1 st1 where p: "pin_server (hs_exec h) ip (Some gd) (undo, st) = (undo1, st1)"
    by (cases "pin_server (hs_exec h) ip (Some gd) (undo, st)")
  have "(''ip'', [''route'', ''del'', pin_route ip]) \<in> set undo1"
    using p by (auto simp: pin_server_def try_undo_def split: prod.splits)
  moreover have "set undo1 \<subseteq> set (ng_undo g)"
  proof (cases "cl_split_mode cfg = Whitelist")
    case True
    with assms p show ?thesis by (auto simp: apply_global_def)
  next
    case False
    define undo' where "undo' = undo1 @ [(''ip'', [''route'', ''del'', ''0.0.0.0/1'']), (''ip'', [''route'', ''del'', ''128.0.0.0/1''])]"
    from assms p False obtain st3 where
      "(case capture_v6 (hs_exec h) cfg wel i ip (undo', st3) of (undo2, st4) \<Rightarrow>
         (case set_dns h wel st4 of (backup, st5) \<Rightarrow> (Inr \<lparr>ng_undo = undo2, ng_resolv_backup = backup\<rparr> :: net_guard res, st5))) = (Inr g, st')"
      by (auto simp: apply_global_def Let_def bind_st_Inr_iff undo'_def)
    then have "ng_undo g = fst (capture_v6 (hs_exec h) cfg wel i ip (undo', st3))" by (auto split: prod.splits)
    with capture_v6_grows [of "(undo', st3)" "hs_exec h" cfg wel i ip] show ?thesis by (auto simp: undo'_def)
  qed
  ultimately show ?thesis
    unfolding undo_keys_def by (intro image_eqI [where x = "(''ip'', [''route'', ''del'', pin_route ip])"]) auto
qed

lemma apply_net_pin_key:
  assumes "apply_net np h cfg wel i ip st = (Inr g, st')" and "cl_mode cfg = GlobalProxy"
    and "\<forall>s. \<exists>gd. fst (default_route (hs_exec h) s) = Inr gd"
  shows "(False, pin_route ip) \<in> undo_keys (ng_undo g)"
proof -
  from assms(1) obtain u st1 where b: "bring_up (hs_exec h) wel i st = (Inr u, st1)"
    unfolding apply_net_def bind_st_Inr_iff by blast
  obtain gd st2 where d: "default_route (hs_exec h) (add_address6 (hs_exec h) wel i st1) = (Inr gd, st2)"
    using assms(3) by (metis prod.collapse)
  obtain undo st3 where a: "apply_route_rules np h cfg i (Some gd) ip [] st2 = (undo, st3)"
    by (cases "apply_route_rules np h cfg i (Some gd) ip [] st2")
  have "apply_global h cfg wel i ip (Some gd) undo st3 = (Inr g, st')"
    using assms(1,2) b d a by (simp add: apply_net_def)
  then show ?thesis by (rule apply_global_pin_key)
qed

section \<open>The guard is dropped\<close>

text \<open>In a state \<open>s\<close> with the routes, respectively the resolver file, \<open>apply\<close> left.\<close>

lemma drop_table:
  assumes "route_laws h rt" and "apply_net np h cfg wel i ip st = (Inr g, st1)" and "rt s = rt st1"
  shows "rt (net_guard_drop h g s) = (\<lambda>k. if k \<in> undo_keys (ng_undo g) then None else rt st k)"
  using covers_drop [OF assms(1), of "rt st" "ng_undo g" s] apply_net_ok [OF assms(1,2)] assms(3)
  by (auto simp: net_guard_drop_def Let_def route_law_host [OF assms(1)] split: option.split)

lemma drop_resolv:
  assumes "file_laws h" and "hs_read_resolv h st = Inr prev"
    and "apply_net np h cfg wel i ip st = (Inr g, st1)" and "hs_read_resolv h s = hs_read_resolv h st1"
  shows "hs_read_resolv h (net_guard_drop h g s) = Inr prev"
proof -
  define st2 where "st2 = undo_all (hs_exec h) (ng_undo g) s"
  have st2: "hs_read_resolv h st2 = hs_read_resolv h st1" by (simp only: st2_def keeps_undo_all [OF assms(1)] assms(4))
  have w: "hs_read_resolv h (snd (hs_write_resolv h prev st2)) =
      (if fst (hs_write_resolv h prev st2) = Inr () then Inr prev else hs_read_resolv h st1)"
    using assms(1) st2 unfolding file_laws_def by metis
  have same: "fst (hs_write_resolv h b s) = Inr () \<Longrightarrow> fst (hs_write_resolv h prev st2) = Inr ()" for b s
    using assms(1) unfolding file_laws_def by metis
  from apply_net_backup [OF assms(1-3)] w same st2 show ?thesis
    by (auto simp: net_guard_drop_def Let_def st2_def [symmetric] backup_ok_def)
qed

text \<open>An \<open>apply\<close> that fails has written no resolver file and taken no route of the host away; what it added stays.\<close>

lemma apply_net_failed:
  assumes laws: "route_laws h rt" "file_laws h" and run: "apply_net np h cfg wel i ip st = (Inl e, st')"
  shows "hs_read_resolv h st' = hs_read_resolv h st \<and> (\<forall>k spec. rt st k = Some spec \<longrightarrow> rt st' k = Some spec)"
proof (cases "fst (bring_up (hs_exec h) wel i st)")
  case (Inl e1)
  then obtain s1 where "bring_up (hs_exec h) wel i st = (Inl e1, s1)" by (cases "bring_up (hs_exec h) wel i st") auto
  with run bring_up_quiet [OF laws(1), of wel i st] keeps_bring_up [OF laws(2), of wel i st] show ?thesis
    by (simp add: apply_net_def)
next
  case (Inr u)
  then obtain st1 where b: "bring_up (hs_exec h) wel i st = (Inr u, st1)" by (cases "bring_up (hs_exec h) wel i st") auto
  define st1' where "st1' = add_address6 (hs_exec h) wel i st1"
  obtain r st2 where d: "default_route (hs_exec h) st1' = (r, st2)" by (cases "default_route (hs_exec h) st1'")
  define orig where "orig = (case r of Inr gd \<Rightarrow> Some gd | Inl _ \<Rightarrow> None)"
  obtain undo st3 where a: "apply_route_rules np h cfg i orig ip [] st2 = (undo, st3)"
    by (cases "apply_route_rules np h cfg i orig ip [] st2")
  from run b d a have g: "apply_global h cfg wel i ip orig undo st3 = (Inl e, st')"
    by (cases "cl_mode cfg") (simp_all add: apply_net_def st1'_def orig_def)
  have st2: "rt st2 = rt st" "hs_read_resolv h st2 = hs_read_resolv h st"
    using bring_up_quiet [OF laws(1), of wel i st] add_address6_quiet [OF laws(1), of wel i st1]
      default_route_quiet [OF laws(1), of st1'] keeps_bring_up [OF laws(2), of wel i st]
      keeps_default_route(1) [OF laws(2), of st1'] b d
    by (simp_all add: st1'_def add_address6_def keeps_try_ip [OF laws(2)] split: option.splits)
  obtain undo1 st4 where p: "pin_server (hs_exec h) ip orig (undo, st3) = (undo1, st4)"
    by (cases "pin_server (hs_exec h) ip orig (undo, st3)")
  have "covers (rt st) undo (rt st3)"
    using apply_route_rules_ok [OF laws(1) a] st2 by metis
  then have "covers (rt st) undo1 (rt st4)" using pin_server_ok(1) [OF laws(1), of "rt st" "(undo, st3)" ip orig] p by simp
  then have c: "rt st k = Some spec \<Longrightarrow> rt st4 k = Some spec" for k spec
    unfolding covers_def by (metis option.distinct(1))
  have f: "hs_read_resolv h st4 = hs_read_resolv h st"
    using keeps_pin [OF laws(2), of ip orig "(undo, st3)"] keeps_rules [OF laws(2), of np cfg i orig ip "[]" st2] p a st2 by simp
  let ?a = "[''route'', ''add'', ''0.0.0.0/1'', ''dev'', i]" and ?b = "[''route'', ''add'', ''128.0.0.0/1'', ''dev'', i]"
  have adds: "rt s k = Some spec \<Longrightarrow> rt (snd (run_ip (hs_exec h) ?a s)) k = Some spec \<and> rt (snd (run_ip (hs_exec h) ?b s)) k = Some spec"
    for s k spec
    using route_law_add [OF laws(1), of "(''ip'', ?a)" "(False, ''0.0.0.0/1'')" "[''dev'', i]" s]
      route_law_add [OF laws(1), of "(''ip'', ?b)" "(False, ''128.0.0.0/1'')" "[''dev'', i]" s]
    by (auto split: if_splits)
  have "st' = snd (run_ip (hs_exec h) ?a st4) \<or> st' = snd (run_ip (hs_exec h) ?b (snd (run_ip (hs_exec h) ?a st4)))"
  proof (cases "run_ip (hs_exec h) ?a st4")
    case (Pair x s5)
    show ?thesis
    proof (cases x)
      case (Inl e1)
      with g p Pair show ?thesis by (auto simp: apply_global_def Let_def split: if_splits)
    next
      case (Inr u1)
      obtain y s6 where s6: "run_ip (hs_exec h) ?b s5 = (y, s6)" by (cases "run_ip (hs_exec h) ?b s5")
      with g p Pair Inr show ?thesis
        by (cases y) (auto simp: apply_global_def Let_def split: if_splits prod.splits)
    qed
  qed
  then show ?thesis
  proof
    assume e: "st' = snd (run_ip (hs_exec h) ?a st4)"
    show ?thesis unfolding e keeps_run_ip [OF laws(2)] using adds [of st4] c f by blast
  next
    assume e: "st' = snd (run_ip (hs_exec h) ?b (snd (run_ip (hs_exec h) ?a st4)))"
    show ?thesis unfolding e keeps_run_ip [OF laws(2)]
      using adds [of st4] adds [of "snd (run_ip (hs_exec h) ?a st4)"] c f by blast
  qed
qed

section \<open>Properties\<close>

text \<open>A host of its own for the examples: a routing table and the text of \<open>resolv.conf\<close>.\<close>

definition home_exec :: "(route_table \<times> string) exec" where
  "home_exec c s =
     (let ok = \<lparr>out_ok = True, out_stdout = ''default via 192.0.2.1 dev eth0'', out_stderr = []\<rparr>; (t, f) = s
      in case route_edit c of
           None \<Rightarrow> (Inr ok, s)
         | Some (a, k, spec) \<Rightarrow>
             if a = ''add'' then
               (if t k = None then (Inr ok, (t(k \<mapsto> spec), f)) else (Inr (ok\<lparr>out_ok := False\<rparr>), s))
             else (Inr ok, (if spec = [] \<or> t k = Some spec then t(k := None) else t, f)))"

definition home :: "(route_table \<times> string) host" where
  "home = \<lparr>hs_exec = home_exec, hs_lookup = (\<lambda>d s. (Inr [], s)), hs_read_resolv = (\<lambda>s. Inr (snd s)),
     hs_write_resolv = (\<lambda>b s. (Inr (), (fst s, b)))\<rparr>"

lemma home_laws: "route_laws home fst" "file_laws home"
  by (auto simp: route_laws_def file_laws_def home_def home_exec_def cmd_ok_def Let_def split: option.splits prod.splits)

definition home_cfg :: client_config where
  "home_cfg = \<lparr>cl_name = ''home'', cl_selected_server = None, cl_mode = GlobalProxy, cl_requested_ip = None,
     cl_client_name = None, cl_tun_name = ''et0'', cl_http_listen = [], cl_join_vpn = False, cl_server_host = ''203.0.113.5'',
     cl_server_port = 443, cl_transport = Tcp, cl_token = [], cl_noise_psk = [], cl_tls_skip_verify = False,
     cl_server_name = None, cl_servers = [], cl_routes = [\<lparr>rr_target = ''198.51.100.0/24'', rr_via = ''direct'', rr_gateway = None\<rparr>],
     cl_split_mode = Blacklist, cl_chain = [], cl_ipv6_killswitch = True\<rparr>"

definition home_welcome :: welcome_msg where
  "home_welcome = \<lparr>w_session_id = 1, w_assigned_ip = 0x0A420002, w_prefix_len = 24, w_gateway = 0x0A420001, w_mtu = 1380,
     w_dns = [0x01010101], w_assigned_ip6 = None, w_prefix6 = 0, w_gateway6 = None, w_dns6 = []\<rparr>"

definition home_nets :: net_parser where
  "home_nets = \<lparr>np_net4 = (\<lambda>s. if s = ''198.51.100.0/24'' then Some (0xC6336400, 24) else None), np_net = (\<lambda>s. False)\<rparr>"

definition home_apply :: "route_table \<times> string \<Rightarrow> net_guard res \<times> (route_table \<times> string)" where
  "home_apply = apply_net home_nets home home_cfg home_welcome ''et0'' (V4 0xCB007105)"

lemma home_default_route: "\<exists>gd. fst (default_route (hs_exec home) s) = Inr gd"
proof -
  have "word_after ''via'' (split_whitespace (first_line ''default via 192.0.2.1 dev eth0'')) = Some ''192.0.2.1''"
    "word_after ''dev'' (split_whitespace (first_line ''default via 192.0.2.1 dev eth0'')) = Some ''eth0''" by code_simp+
  then show ?thesis
    by (simp add: default_route_def home_def home_exec_def Let_def split: prod.split)
qed

lemma home_ok: "\<exists>g st1. home_apply (Map.empty, ''old'') = (Inr g, st1)"
proof -
  have "\<not> isl (fst (home_apply (Map.empty, ''old'')))" by code_simp
  then show ?thesis by (cases "home_apply (Map.empty, ''old'')"; cases "fst (home_apply (Map.empty, ''old''))") auto
qed

definition old_pin :: route_table where
  "old_pin = [(False, ''203.0.113.5/32'') \<mapsto> [''dev'', ''ppp0'']]"

lemma home_pin_ok: "\<exists>g st1. home_apply (old_pin, ''old'') = (Inr g, st1)"
proof -
  have "\<not> isl (fst (home_apply (old_pin, ''old'')))" by code_simp
  then show ?thesis by (cases "home_apply (old_pin, ''old'')"; cases "fst (home_apply (old_pin, ''old''))") auto
qed

text \<open>Dropping the client's network guard: the routing table after the drop is the one before \<open>apply\<close>
  without the prefixes of the undo list, and no other prefix has changed. So a table that held none of these
  prefixes is restored exactly.\<close>

theorem guard_drop_routes:
  assumes "route_laws h rt" and "apply_net np h cfg wel i ip st = (Inr g, st1)"
  shows "rt (net_guard_drop h g st1) = (\<lambda>k. if k \<in> undo_keys (ng_undo g) then None else rt st k)"
  by (rule drop_table [OF assms refl])

theorem guard_drop_routes_witness:
  "\<exists>g st1. home_apply (Map.empty, ''old'') = (Inr g, st1) \<and> fst (net_guard_drop home g st1) = Map.empty"
proof -
  obtain g st1 where s: "home_apply (Map.empty, ''old'') = (Inr g, st1)" using home_ok by blast
  from guard_drop_routes [OF home_laws(1) s [unfolded home_apply_def]] s
  show ?thesis by (auto simp: fun_eq_iff)
qed



text \<open>Global mode without a whitelist captures the IPv4 space: after a successful \<open>apply\<close> both \<open>/1\<close>
  halves are routed to the tunnel.\<close>

theorem global_mode_captures:
  assumes "route_laws h rt" and "apply_net np h cfg wel i ip st = (Inr g, st1)"
    and "cl_mode cfg = GlobalProxy" and "cl_split_mode cfg \<noteq> Whitelist"
  shows "rt st1 (False, ''0.0.0.0/1'') = Some [''dev'', i] \<and> rt st1 (False, ''128.0.0.0/1'') = Some [''dev'', i]"
  using apply_net_ok [OF assms(1,2)] assms(3,4) by blast

theorem global_mode_captures_witness:
  "\<exists>g st1. home_apply (Map.empty, ''old'') = (Inr g, st1) \<and>
     fst st1 (False, ''0.0.0.0/1'') = Some [''dev'', ''et0''] \<and> fst st1 (False, ''128.0.0.0/1'') = Some [''dev'', ''et0'']"
proof -
  obtain g st1 where s: "home_apply (Map.empty, ''old'') = (Inr g, st1)" using home_ok by blast
  from global_mode_captures [OF home_laws(1) s [unfolded home_apply_def]] s show ?thesis by (simp add: home_cfg_def)
qed

text \<open>\<open>resolv.conf\<close> comes back: if the file could be read before \<open>apply\<close>, its content after the guard is
  dropped is what it was, whether or not the file is writable.\<close>

theorem resolv_restored:
  assumes "file_laws h" and "hs_read_resolv h st = Inr prev"
    and "apply_net np h cfg wel i ip st = (Inr g, st1)"
  shows "hs_read_resolv h (net_guard_drop h g st1) = Inr prev"
  by (rule drop_resolv [OF assms refl])

theorem resolv_restored_witness:
  "\<exists>g st1. home_apply (Map.empty, ''old'') = (Inr g, st1) \<and> snd (net_guard_drop home g st1) = ''old''"
proof -
  obtain g st1 where s: "home_apply (Map.empty, ''old'') = (Inr g, st1)" using home_ok by blast
  have r: "hs_read_resolv home (Map.empty, ''old'') = Inr ''old''" by (simp add: home_def)
  from resolv_restored [OF home_laws(2) r s [unfolded home_apply_def]] s show ?thesis by (auto simp: home_def)
qed

text \<open>The pin of the server's address is deleted on drop even when it was there before \<open>apply\<close> and adding
  it failed: in global mode on a host with a default route, no \<open>/32\<close> route of the server is left after the
  drop, because the push on the undo list does not depend on the result of the command.\<close>

theorem old_pin_lost:
  assumes "route_laws h rt" and "apply_net np h cfg wel i ip st = (Inr g, st1)"
    and "cl_mode cfg = GlobalProxy" and "\<forall>s. \<exists>gd. fst (default_route (hs_exec h) s) = Inr gd"
  shows "rt (net_guard_drop h g st1) (False, pin_route ip) = None"
proof -
  have "rt (undo_all (hs_exec h) (ng_undo g) st1) (False, pin_route ip) = None"
    using covers_drop [OF assms(1), of "rt st" "ng_undo g" st1] apply_net_ok [OF assms(1,2)]
      apply_net_pin_key [OF assms(2-4)] by simp
  then show ?thesis
    by (auto simp: net_guard_drop_def Let_def route_law_host [OF assms(1)] split: option.split)
qed

theorem old_pin_lost_witness:
  "\<exists>g st1. home_apply (old_pin, ''old'') = (Inr g, st1) \<and> old_pin (False, pin_route (V4 0xCB007105)) = Some [''dev'', ''ppp0'']
     \<and> fst (net_guard_drop home g st1) (False, pin_route (V4 0xCB007105)) = None"
proof -
  obtain g st1 where s: "home_apply (old_pin, ''old'') = (Inr g, st1)" using home_pin_ok by blast
  have p: "pin_route (V4 0xCB007105) = ''203.0.113.5/32''" by code_simp
  have d: "\<forall>s. \<exists>gd. fst (default_route (hs_exec home) s) = Inr gd" by (intro allI home_default_route)
  from old_pin_lost [OF home_laws(1) s [unfolded home_apply_def] _ d] s show ?thesis
    by (simp add: home_cfg_def old_pin_def p)
qed

end
