(* ===== verification/Packet_Mode.thy ===== *)
theory Packet_Mode
  imports Engine Tun Netcfg
begin

text \<open>
  \<open>run_packet_mode\<close> of \<open>client-core/src/engine.rs\<close> on Linux, and \<open>Engine::run\<close>: the TUN device is created, the
  network is configured, the connection loop runs with its bounded reconnects, and on the way out the network guard
  and the device are dropped in this order. The rest of the machine acts on the host meanwhile (\<open>during\<close>). The
  facts: whatever way the session ends, the resolver file is as before and no route of the host is lost but those
  the undo list names.
\<close>

section \<open>Definitions\<close>


definition read_buf_len :: "welcome_msg \<Rightarrow> nat" where
  "read_buf_len wel = max (unat (w_mtu wel)) 2048"


section \<open>What is observed of the host\<close>








section \<open>The property\<close>









end
