(* ===== verification/Proxy_Run.thy ===== *)
theory Proxy_Run
  imports Http_Proxy "HOL-Library.Sublist"
begin

text \<open>
  A whole run of the local proxy (\<open>core/client-core/src/proxy.rs\<close>): its accept loop, the handlers of the local
  connections, the demultiplexer, the writer and the two tasks of the VPN LAN, in any interleaving. The facts: the
  stream table stays well formed, and what a local socket is sent is the data of its own stream, in order.
\<close>

section \<open>The tasks together\<close>

text \<open>An event is a turn of one task with what the sockets and the link answer in it.\<close>

datatype proxy_event =
    Accepts reads
  | Opens nat
  | Replies nat "io_error + unit"
  | Reads nat "io_error + bytes"
  | Delivers nat bool "io_error + unit"
  | Gets_frame frame
  | Lan_reads bytes
  | Lan_polls
  | Writer_takes

definition on_local :: "nat \<Rightarrow> (local_conn \<Rightarrow> ('o, 'l) proxy \<Rightarrow> ('o, 'l) proxy option) \<Rightarrow> ('o, 'l) proxy \<Rightarrow> ('o, 'l) proxy option" where
  "on_local n f px = (case px_locals px n of Some lc \<Rightarrow> f lc px | None \<Rightarrow> None)"

text \<open>\<open>None\<close> when the turn has nothing to do or waits for room in a channel.\<close>

definition proxy_turn ::
  "('o, frame) chan \<Rightarrow> ('l, to_local) chan \<Rightarrow> proxy_event \<Rightarrow> ('o, 'l) proxy \<Rightarrow> ('o, 'l) proxy option" where
  "proxy_turn co cl ev px =
     (case ev of
        Accepts rs \<Rightarrow> Some (snd (accept_local rs px))
      | Opens n \<Rightarrow> on_local n (local_open co cl n) px
      | Replies n wrote \<Rightarrow> on_local n (\<lambda>lc. local_reply co n lc wrote) px
      | Reads n got \<Rightarrow> on_local n (\<lambda>lc. local_read co n lc got) px
      | Delivers n held wrote \<Rightarrow> on_local n (\<lambda>lc. local_deliver cl n lc held wrote) px
      | Gets_frame f \<Rightarrow> reader_frame co cl f px
      | Lan_reads p \<Rightarrow> map_option snd (lan_packet co p px)
      | Lan_polls \<Rightarrow> map_option snd (lan_poll co px)
      | Writer_takes \<Rightarrow>
          (case ch_recv co (px_out px) of
             None \<Rightarrow> None
           | Some (f, q) \<Rightarrow> Some (px\<lparr>px_out := q, px_status := add_traffic_up (payload_len f) (px_status px)\<rparr>)))"

fun proxy_run ::
  "('o, frame) chan \<Rightarrow> ('l, to_local) chan \<Rightarrow> proxy_event list \<Rightarrow> ('o, 'l) proxy \<Rightarrow> ('o, 'l) proxy option" where
  "proxy_run co cl [] px = Some px"
| "proxy_run co cl (ev # evs) px = Option.bind (proxy_turn co cl ev px) (proxy_run co cl evs)"

text \<open>\<open>run_http_mode\<close> starts with no stream and counts the streams from 1.\<close>

definition proxy_start :: "'o \<Rightarrow> (nat \<Rightarrow> 'l) \<Rightarrow> bytes list option \<Rightarrow> live_status \<Rightarrow> ('o, 'l) proxy" where
  "proxy_start out chans lan shared =
     \<lparr>px_out = out, px_streams = [], px_chans = chans, px_locals = Map.empty, px_tun = lan, px_status = shared,
      px_next_id = 1, px_next = 0\<rparr>"

section \<open>What is observed\<close>

text \<open>The data the server sent for a stream, as one text of bytes.\<close>

fun fed :: "u32 \<Rightarrow> proxy_event list \<Rightarrow> bytes" where
  "fed i [] = []"
| "fed i (Gets_frame (StreamData j d) # evs) = (if j = i then d @ fed i evs else fed i evs)"
| "fed i (_ # evs) = fed i evs"

lemma fed_append [simp]: "fed i (xs @ ys) = fed i xs @ fed i ys"
  by (induction i xs rule: fed.induct) auto

definition waiting :: "('l \<Rightarrow> to_local list) \<Rightarrow> nat \<Rightarrow> ('o, 'l) proxy \<Rightarrow> bytes" where
  "waiting pending n px = concat (map data_of (pending (px_chans px n)))"

text \<open>What a local connection was sent, and what its channel holds, in each of its phases; \<open>feed\<close> is the data of its
  stream so far.\<close>

definition local_ok :: "('l \<Rightarrow> to_local list) \<Rightarrow> bytes \<Rightarrow> nat \<Rightarrow> local_conn \<Rightarrow> ('o, 'l) proxy \<Rightarrow> bool" where
  "local_ok pending feed n lc px \<longleftrightarrow>
     (case lo_phase lc of
        Opening _ _ _ \<Rightarrow> lo_sock lc = []
      | Replying _ _ \<Rightarrow> lo_sock lc = [] \<and> subseq (waiting pending n px) feed
      | Pumps _ \<Rightarrow> subseq (lo_sock lc @ waiting pending n px) (established_reply @ feed)
      | Gone \<Rightarrow> subseq (lo_sock lc) (established_reply @ feed))"

definition unopened :: "local_conn \<Rightarrow> bool" where
  "unopened lc \<longleftrightarrow> (case lo_phase lc of Opening _ _ _ \<Rightarrow> True | _ \<Rightarrow> False)"

definition table_ok :: "('o, 'l) proxy \<Rightarrow> bool" where
  "table_ok px \<longleftrightarrow> distinct (map fst (px_streams px)) \<and>
     (\<forall>i n. map_of (px_streams px) i = Some n \<longrightarrow> (\<exists>lc. px_locals px n = Some lc \<and> lo_id lc = i \<and> \<not> unopened lc)) \<and>
     (\<forall>n lc. px_locals px n = Some lc \<longrightarrow> n < px_next px)"

definition proxy_ok :: "('l \<Rightarrow> to_local list) \<Rightarrow> (u32 \<Rightarrow> bytes) \<Rightarrow> ('o, 'l) proxy \<Rightarrow> bool" where
  "proxy_ok pending feed px \<longleftrightarrow> table_ok px \<and> (\<forall>n lc. px_locals px n = Some lc \<longrightarrow> local_ok pending (feed (lo_id lc)) n lc px)"

section \<open>Facts\<close>

lemma subseq_grow: "subseq xs ys \<Longrightarrow> subseq xs (ys @ zs)"
  by (meson prefixI prefix_imp_subseq subseq_order.order_trans)

lemma local_ok_grow: "local_ok pending feed n lc px \<Longrightarrow> local_ok pending (feed @ d) n lc px"
  by (auto simp: local_ok_def subseq_grow split: local_phase.splits)
    (metis append.assoc subseq_grow)+

lemma local_ok_waiting:
  "waiting pending n px' = waiting pending n px \<Longrightarrow> local_ok pending feed n lc px' = local_ok pending feed n lc px"
  by (simp add: local_ok_def split: local_phase.split)

lemma local_ok_cong:
  "px_chans px' n = px_chans px n \<Longrightarrow> local_ok pending feed n lc px' = local_ok pending feed n lc px"
  by (rule local_ok_waiting) (simp add: waiting_def)

text \<open>Turns that touch neither the table nor a connection.\<close>

lemma proxy_ok_quiet:
  assumes "proxy_ok pending feed px" and "px_streams px' = px_streams px" and "px_chans px' = px_chans px"
    and "px_locals px' = px_locals px" and "px_next px' = px_next px"
  shows "proxy_ok pending feed px'"
proof -
  have "local_ok pending f n lc px' = local_ok pending f n lc px" for f n lc
    by (rule local_ok_cong) (simp add: assms(3))
  with assms show ?thesis by (simp add: proxy_ok_def table_ok_def)
qed

lemma send_frame_quiet:
  assumes "send_frame co f px = Some (ok, px')"
  shows "px_streams px' = px_streams px" "px_chans px' = px_chans px" "px_locals px' = px_locals px"
    "px_next px' = px_next px" "px_next_id px' = px_next_id px"
  using assms by (auto simp: send_frame_def)

text \<open>A turn that replaces the record of connection \<open>n\<close> by one with the same stream and a later phase.\<close>

lemma proxy_ok_set_local:
  assumes "proxy_ok pending feed px" and "px_locals px n = Some lc" and "lo_id lc' = lo_id lc"
    and "unopened lc' \<Longrightarrow> unopened lc" and "local_ok pending (feed (lo_id lc)) n lc' px"
  shows "proxy_ok pending feed (set_local n lc' px)"
proof -
  have t: "table_ok px" using assms(1) by (simp add: proxy_ok_def)
  have "table_ok (set_local n lc' px)"
    using t assms(2-4) unfolding table_ok_def set_local_def by (fastforce split: if_splits)
  moreover have "local_ok pending (feed (lo_id l)) m l (set_local n lc' px)" if "px_locals (set_local n lc' px) m = Some l" for m l
  proof -
    have c: "local_ok pending f m l (set_local n lc' px) = local_ok pending f m l px" for f
      by (rule local_ok_cong) (simp add: set_local_def)
    show ?thesis
      using assms that unfolding c proxy_ok_def by (auto simp: set_local_def split: if_splits)
  qed
  ultimately show ?thesis by (simp add: proxy_ok_def)
qed

text \<open>A turn of connection \<open>n\<close> that also changes its channel and its entry in the table.\<close>

lemma proxy_ok_local:
  assumes ok: "proxy_ok pending feed px" and lc: "px_locals px n = Some lc"
    and px': "px_locals px' = (px_locals px)(n \<mapsto> lc')" "px_next px' = px_next px"
      "\<And>m. m \<noteq> n \<Longrightarrow> px_chans px' m = px_chans px m"
    and id: "lo_id lc' = lo_id lc" and op: "\<not> unopened lc'"
    and streams: "distinct (map fst (px_streams px'))"
      "\<And>i m. map_of (px_streams px') i = Some m \<Longrightarrow> map_of (px_streams px) i = Some m \<or> i = lo_id lc \<and> m = n"
    and here: "local_ok pending (feed (lo_id lc)) n lc' px'"
  shows "proxy_ok pending feed px'"
proof -
  from ok have t: "\<And>i m. map_of (px_streams px) i = Some m \<Longrightarrow> \<exists>l. px_locals px m = Some l \<and> lo_id l = i \<and> \<not> unopened l"
    "\<And>m l. px_locals px m = Some l \<Longrightarrow> m < px_next px"
    "\<And>m l. px_locals px m = Some l \<Longrightarrow> local_ok pending (feed (lo_id l)) m l px"
    unfolding proxy_ok_def table_ok_def by blast+
  have "\<exists>l. px_locals px' m = Some l \<and> lo_id l = i \<and> \<not> unopened l" if "map_of (px_streams px') i = Some m" for i m
    using streams(2) [OF that] t(1) [of i m] lc id op px'(1) by (cases "m = n") auto
  moreover have "m < px_next px'" if "px_locals px' m = Some l" for m l
    using that t(2) lc px'(1,2) by (auto split: if_splits)
  moreover have "local_ok pending (feed (lo_id l)) m l px'" if "px_locals px' m = Some l" for m l
  proof (cases "m = n")
    case True
    with that px'(1) id here show ?thesis by simp
  next
    case False
    with that px'(1) t(3) local_ok_cong [OF px'(3) [OF False], of pending] show ?thesis by simp
  qed
  ultimately show ?thesis using streams(1) unfolding proxy_ok_def table_ok_def by blast
qed

lemma accept_ok:
  assumes "proxy_ok pending feed px"
  shows "proxy_ok pending feed (snd (accept_local rs px))"
proof -
  from assms have t: "\<And>i m. map_of (px_streams px) i = Some m \<Longrightarrow> \<exists>l. px_locals px m = Some l \<and> lo_id l = i \<and> \<not> unopened l"
    "\<And>m l. px_locals px m = Some l \<Longrightarrow> m < px_next px"
    unfolding proxy_ok_def table_ok_def by blast+
  obtain r rs' where h: "parse_http_head [] rs = (r, rs')" by (meson surj_pair)
  show ?thesis
  proof (cases r)
    case (Inl e)
    with h assms show ?thesis by (auto simp: accept_local_def Let_def intro: proxy_ok_quiet)
  next
    case (Inr x)
    obtain target con fwd where x: "x = (target, con, fwd)" by (cases x)
    let ?lc = "\<lparr>lo_id = px_next_id px, lo_phase = Opening target con fwd, lo_sock = []\<rparr>"
    have px': "snd (accept_local rs px) = px\<lparr>px_next_id := px_next_id px + 1, px_next := Suc (px_next px),
        px_locals := (px_locals px)(px_next px \<mapsto> ?lc)\<rparr>"
      using h Inr x by (simp add: accept_local_def set_local_def Let_def)
    have fresh: "px_locals px (px_next px) = None" using t(2) [of "px_next px"] by fastforce
    have "local_ok pending (feed (lo_id l)) m l (snd (accept_local rs px))"
      if "px_locals (snd (accept_local rs px)) m = Some l" for m l
    proof (cases "m = px_next px")
      case True
      with that px' show ?thesis by (auto simp: local_ok_def)
    next
      case False
      with that px' have "px_locals px m = Some l" by simp
      with assms have "local_ok pending (feed (lo_id l)) m l px" by (simp add: proxy_ok_def)
      then show ?thesis by (subst local_ok_cong [of _ m px]) (simp_all add: px')
    qed
    moreover have "table_ok (snd (accept_local rs px))"
      using assms t fresh unfolding proxy_ok_def table_ok_def px' by (fastforce simp: less_Suc_eq)
    ultimately show ?thesis by (simp add: proxy_ok_def)
  qed
qed

lemma open_ok:
  assumes ok: "proxy_ok pending feed px" and laws: "chan_laws cl pending" and lc: "px_locals px n = Some lc"
    and run: "local_open co cl n lc px = Some px'"
  shows "proxy_ok pending feed px'"
proof -
  from run obtain target con fwd where ph: "lo_phase lc = Opening target con fwd"
    by (auto simp: local_open_def split: local_phase.splits)
  let ?px1 = "px\<lparr>px_chans := (px_chans px)(n := ch_new cl 256), px_streams := AList.update (lo_id lc) n (px_streams px)\<rparr>"
  from run ph obtain b px2 where s: "send_frame co (StreamOpen (lo_id lc) target) ?px1 = Some (b, px2)"
    and px': "px' = set_local n (lc\<lparr>lo_phase := if b then Replying con fwd else Gone\<rparr>) px2"
    by (auto simp: local_open_def Let_def split: option.splits bool.splits)
  note q = send_frame_quiet [OF s]
  have sock: "lo_sock lc = []" using ok lc ph unfolding proxy_ok_def by (fastforce simp: local_ok_def)
  have new: "pending (ch_new cl 256) = []" using laws unfolding chan_laws_def channel_laws_def by blast
  show ?thesis
  proof (rule proxy_ok_local [OF ok lc])
    show "px_locals px' = (px_locals px)(n \<mapsto> lc\<lparr>lo_phase := if b then Replying con fwd else Gone\<rparr>)"
      "px_next px' = px_next px" using q px' by (simp_all add: set_local_def)
    show "\<And>m. m \<noteq> n \<Longrightarrow> px_chans px' m = px_chans px m" using q px' by (simp add: set_local_def)
    show "distinct (map fst (px_streams px'))"
      using ok q px' by (simp add: set_local_def proxy_ok_def table_ok_def distinct_update)
    show "local_ok pending (feed (lo_id lc)) n (lc\<lparr>lo_phase := if b then Replying con fwd else Gone\<rparr>) px'"
      using q px' sock new by (simp add: local_ok_def waiting_def set_local_def)
  next
    fix i m
    assume "map_of (px_streams px') i = Some m"
    then show "map_of (px_streams px) i = Some m \<or> i = lo_id lc \<and> m = n"
      using q px' by (auto simp: set_local_def update_conv' split: if_splits)
  qed (simp_all add: unopened_def)
qed

lemma reply_ok:
  assumes ok: "proxy_ok pending feed px" and lc: "px_locals px n = Some lc"
    and run: "local_reply co n lc wrote px = Some px'"
  shows "proxy_ok pending feed px'"
proof -
  from run obtain con fwd where ph: "lo_phase lc = Replying con fwd"
    by (auto simp: local_reply_def split: local_phase.splits)
  from ok lc ph have w: "lo_sock lc = []" "subseq (waiting pending n px) (feed (lo_id lc))"
    unfolding proxy_ok_def by (fastforce simp: local_ok_def)+
  have gone: "proxy_ok pending feed (set_local n (lc\<lparr>lo_phase := Gone\<rparr>) y)"
    and pumps: "proxy_ok pending feed (set_local n (lc\<lparr>lo_phase := Pumps True\<rparr>) y)"
    and con: "proxy_ok pending feed (set_local n (lc\<lparr>lo_phase := Pumps True, lo_sock := lo_sock lc @ established_reply\<rparr>) y)"
    if y: "proxy_ok pending feed y" "px_locals y = px_locals px" "px_chans y = px_chans px" for y
  proof -
    have wy: "waiting pending n y = waiting pending n px" using y(3) by (simp add: waiting_def)
    show "proxy_ok pending feed (set_local n (lc\<lparr>lo_phase := Gone\<rparr>) y)"
      by (rule proxy_ok_set_local [OF y(1), of n lc]) (use lc y(2) w in \<open>simp_all add: unopened_def local_ok_def\<close>)
    show "proxy_ok pending feed (set_local n (lc\<lparr>lo_phase := Pumps True\<rparr>) y)"
      by (rule proxy_ok_set_local [OF y(1), of n lc]) (use lc y(2) w wy in \<open>simp_all add: unopened_def local_ok_def list_emb_append2\<close>)
    show "proxy_ok pending feed (set_local n (lc\<lparr>lo_phase := Pumps True, lo_sock := lo_sock lc @ established_reply\<rparr>) y)"
      by (rule proxy_ok_set_local [OF y(1), of n lc])
        (use lc y(2) w wy in \<open>simp_all add: unopened_def local_ok_def list_emb_append_mono\<close>)
  qed
  have self: "proxy_ok pending feed px" "px_locals px = px_locals px" "px_chans px = px_chans px" using ok by simp_all
  show ?thesis
  proof (cases con)
    case True
    with run ph con [OF self] gone [OF self] show ?thesis by (auto simp: local_reply_def split: sum.splits)
  next
    case False
    show ?thesis
    proof (cases "fwd = []")
      case True
      with run ph False pumps [OF self] show ?thesis by (auto simp: local_reply_def)
    next
      case f: False
      from run ph f \<open>\<not> con\<close> obtain b px1 where s: "send_frame co (StreamData (lo_id lc) fwd) px = Some (b, px1)"
        and px': "px' = set_local n (lc\<lparr>lo_phase := if b then Pumps True else Gone\<rparr>) px1"
        by (auto simp: local_reply_def split: option.splits bool.splits)
      note q = send_frame_quiet [OF s]
      have "proxy_ok pending feed px1" by (rule proxy_ok_quiet [OF ok]) (simp_all add: q)
      with pumps [of px1] gone [of px1] px' q show ?thesis by (cases b) simp_all
    qed
  qed
qed

lemma read_ok:
  assumes ok: "proxy_ok pending feed px" and lc: "px_locals px n = Some lc"
    and run: "local_read co n lc got px = Some px'"
  shows "proxy_ok pending feed px'"
proof -
  from run have ph: "lo_phase lc = Pumps True" by (auto simp: local_read_def split: if_splits)
  from ok lc ph have w: "subseq (lo_sock lc @ waiting pending n px) (established_reply @ feed (lo_id lc))"
    unfolding proxy_ok_def by (fastforce simp: local_ok_def)
  have eof: "proxy_ok pending feed z"
    if y: "proxy_ok pending feed y" "px_locals y = px_locals px" "px_chans y = px_chans px" and "local_eof co n lc y = Some z" for y z
  proof -
    from that(4) obtain b y1 where s: "send_frame co (StreamClose (lo_id lc) None) y = Some (b, y1)"
      and z: "z = set_local n (lc\<lparr>lo_phase := Pumps False\<rparr>) y1" by (auto simp: local_eof_def)
    note q = send_frame_quiet [OF s]
    have "proxy_ok pending feed y1" by (rule proxy_ok_quiet [OF y(1)]) (simp_all add: q)
    moreover have "waiting pending n y1 = waiting pending n px" using q y(3) by (simp add: waiting_def)
    ultimately show ?thesis unfolding z
      by (intro proxy_ok_set_local [of _ _ y1 n lc]) (use lc y(2) q w in \<open>simp_all add: unopened_def local_ok_def\<close>)
  qed
  show ?thesis
  proof (cases got)
    case (Inl e)
    with run ph eof [OF ok] show ?thesis by (auto simp: local_read_def)
  next
    case (Inr bs)
    show ?thesis
    proof (cases bs)
      case Nil
      with run ph eof [OF ok] Inr show ?thesis by (auto simp: local_read_def)
    next
      case (Cons b0 bs0)
      with run ph Inr obtain b px1 where s: "send_frame co (StreamData (lo_id lc) bs) px = Some (b, px1)"
        and px': "if b then px' = px1 else local_eof co n lc px1 = Some px'"
        by (auto simp: local_read_def split: option.splits bool.splits)
      note q = send_frame_quiet [OF s]
      have "proxy_ok pending feed px1" by (rule proxy_ok_quiet [OF ok]) (simp_all add: q)
      with px' eof [of px1] q show ?thesis by (auto split: if_splits)
    qed
  qed
qed

lemma deliver_ok:
  assumes ok: "proxy_ok pending feed px" and laws: "chan_laws cl pending" and lc: "px_locals px n = Some lc"
    and run: "local_deliver cl n lc held wrote px = Some px'"
  shows "proxy_ok pending feed px'"
proof -
  from run obtain u where ph: "lo_phase lc = Pumps u"
    by (auto simp: local_deliver_def split: local_phase.splits)
  from ok lc ph have w: "subseq (lo_sock lc @ waiting pending n px) (established_reply @ feed (lo_id lc))"
    unfolding proxy_ok_def by (fastforce simp: local_ok_def)
  then have s: "subseq (lo_sock lc) (established_reply @ feed (lo_id lc))"
    by (meson prefixI prefix_imp_subseq subseq_order.order_trans)
  have d: "distinct (map fst (px_streams px))" using ok by (simp add: proxy_ok_def table_ok_def)
  have gone: "proxy_ok pending feed (local_end cl n lc q px)" for q
    by (rule proxy_ok_local [OF ok lc, of _ "lc\<lparr>lo_phase := Gone\<rparr>"])
      (use s d in \<open>auto simp: local_end_def set_local_def unopened_def local_ok_def delete_conv' distinct_delete split: if_splits\<close>)
  show ?thesis
  proof (cases "ch_recv cl (px_chans px n)")
    case None
    with run ph gone show ?thesis by (auto simp: local_deliver_def split: if_splits)
  next
    case (Some mq)
    obtain m q where mq: "mq = (m, q)" by (cases mq)
    show ?thesis
    proof (cases m)
      case ToClose
      with run ph Some mq gone show ?thesis by (auto simp: local_deliver_def)
    next
      case (ToData data)
      show ?thesis
      proof (cases wrote)
        case (Inl e)
        with run ph Some mq ToData gone show ?thesis by (auto simp: local_deliver_def)
      next
        case (Inr u1)
        with run ph Some mq ToData have px': "px' = set_local n (lc\<lparr>lo_sock := lo_sock lc @ data\<rparr>)
            (px\<lparr>px_chans := (px_chans px)(n := q)\<rparr>)" by (simp add: local_deliver_def)
        have "pending (px_chans px n) = ToData data # pending q"
          using laws Some mq ToData unfolding chan_laws_def channel_laws_def by blast
        then have w': "waiting pending n px = data @ waiting pending n px'"
          by (simp add: waiting_def px' set_local_def)
        show ?thesis
          by (rule proxy_ok_local [OF ok lc, of _ "lc\<lparr>lo_sock := lo_sock lc @ data\<rparr>"])
            (use w w' d ph in \<open>auto simp: px' set_local_def unopened_def local_ok_def\<close>)
      qed
    qed
  qed
qed

lemma send_local_frame:
  assumes laws: "chan_laws cl pending" and run: "send_local cl n msg px = Some px'"
  shows "px_streams px' = px_streams px" "px_locals px' = px_locals px" "px_next px' = px_next px"
    and "\<And>m. m \<noteq> n \<Longrightarrow> px_chans px' m = px_chans px m"
    and "waiting pending n px' = waiting pending n px \<or> waiting pending n px' = waiting pending n px @ data_of msg"
proof -
  from run obtain b q where q: "chan_send cl msg (px_chans px n) = Some (b, q)"
    and px': "px' = px\<lparr>px_chans := (px_chans px)(n := q)\<rparr>" by (auto simp: send_local_def)
  show "px_streams px' = px_streams px" "px_locals px' = px_locals px" "px_next px' = px_next px"
    "\<And>m. m \<noteq> n \<Longrightarrow> px_chans px' m = px_chans px m" by (simp_all add: px')
  have "q = px_chans px n \<or> pending q = pending (px_chans px n) @ [msg]"
    using q laws unfolding chan_laws_def channel_laws_def chan_send_def by (auto split: if_splits)
  then show "waiting pending n px' = waiting pending n px \<or> waiting pending n px' = waiting pending n px @ data_of msg"
    by (auto simp: waiting_def px')
qed

text \<open>Data for a stream: its connection may get it, the others do not.\<close>

lemma local_ok_fed:
  assumes "local_ok pending feed n lc px" and "\<not> unopened lc"
    and "waiting pending n px' = waiting pending n px \<or> waiting pending n px' = waiting pending n px @ d"
  shows "local_ok pending (feed @ d) n lc px'"
proof -
  have both: "subseq (xs @ d) (ys @ d)" if "subseq xs ys" for xs ys
    by (rule list_emb_append_mono [OF that subseq_order.order_refl])
  show ?thesis
    using assms(3)
  proof (elim disjE)
    assume e: "waiting pending n px' = waiting pending n px"
    show ?thesis unfolding local_ok_waiting [OF e] by (rule local_ok_grow [OF assms(1)])
  next
    assume w: "waiting pending n px' = waiting pending n px @ d"
    show ?thesis
    proof (cases "lo_phase lc")
      case (Opening t c f)
      with assms(2) show ?thesis by (simp add: unopened_def)
    next
      case (Replying c f)
      with assms(1) both [of "waiting pending n px" feed] w show ?thesis by (simp add: local_ok_def)
    next
      case (Pumps u)
      with assms(1) both [of "lo_sock lc @ waiting pending n px" "established_reply @ feed"] w show ?thesis
        by (simp add: local_ok_def)
    next
      case Gone
      with assms(1) subseq_grow [of "lo_sock lc" "established_reply @ feed" d] show ?thesis by (simp add: local_ok_def)
    qed
  qed
qed

lemma data_ok:
  assumes ok: "proxy_ok pending feed px" and laws: "chan_laws cl pending"
    and run: "reader_frame co cl (StreamData i d) px = Some px'"
  shows "proxy_ok pending (feed(i := feed i @ d)) px'"
proof -
  have t: "\<And>i m. map_of (px_streams px) i = Some m \<Longrightarrow> \<exists>l. px_locals px m = Some l \<and> lo_id l = i \<and> \<not> unopened l"
    and l: "\<And>m lc. px_locals px m = Some lc \<Longrightarrow> local_ok pending (feed (lo_id lc)) m lc px"
    using ok unfolding proxy_ok_def table_ok_def by blast+
  from run obtain px1 where px1: "(case map_of (px_streams px) i of Some n \<Rightarrow> send_local cl n (ToData d) px | None \<Rightarrow> Some px) = Some px1"
    and px': "px' = px1\<lparr>px_status := add_traffic_down (length d) (px_status px1)\<rparr>" by auto
  have grow: "local_ok pending ((feed(i := feed i @ d)) (lo_id lc)) m lc y" if "local_ok pending (feed (lo_id lc)) m lc y" for m lc y
    using that local_ok_grow [OF that, of d] by auto
  have "px_streams px1 = px_streams px \<and> px_locals px1 = px_locals px \<and> px_next px1 = px_next px \<and>
      (\<forall>m lc. px_locals px m = Some lc \<longrightarrow> local_ok pending ((feed(i := feed i @ d)) (lo_id lc)) m lc px1)"
  proof (cases "map_of (px_streams px) i")
    case None
    with px1 have "px1 = px" by simp
    with l grow show ?thesis by blast
  next
    case (Some n)
    with px1 have s: "send_local cl n (ToData d) px = Some px1" by simp
    note q = send_local_frame [OF laws s]
    obtain ln where ln: "px_locals px n = Some ln" "lo_id ln = i" "\<not> unopened ln" using t [OF Some] by blast
    have "local_ok pending ((feed(i := feed i @ d)) (lo_id lc)) m lc px1" if m: "px_locals px m = Some lc" for m lc
    proof (cases "m = n")
      case True
      with m ln have "lc = ln" by simp
      with local_ok_fed [OF l [OF ln(1)] ln(3), of px1 d] q(5) ln(2) True show ?thesis by simp
    next
      case False
      have "local_ok pending (feed (lo_id lc)) m lc px1 = local_ok pending (feed (lo_id lc)) m lc px"
        by (rule local_ok_cong) (rule q(4) [OF False])
      with l [OF m] grow show ?thesis by blast
    qed
    with q(1-3) show ?thesis by blast
  qed
  moreover have "local_ok pending f m lc px' = local_ok pending f m lc px1" for f m lc
    by (rule local_ok_cong) (simp add: px')
  ultimately show ?thesis using ok by (simp add: proxy_ok_def table_ok_def px')
qed

lemma close_ok:
  assumes ok: "proxy_ok pending feed px" and laws: "chan_laws cl pending"
    and run: "reader_frame co cl (StreamClose i e) px = Some px'"
  shows "proxy_ok pending feed px'"
proof -
  let ?px1 = "px\<lparr>px_streams := AList.delete i (px_streams px)\<rparr>"
  have t: "distinct (map fst (px_streams px))"
    "\<And>i m. map_of (px_streams px) i = Some m \<Longrightarrow> \<exists>l. px_locals px m = Some l \<and> lo_id l = i \<and> \<not> unopened l"
    "\<And>m lc. px_locals px m = Some lc \<Longrightarrow> m < px_next px"
    and l: "\<And>m lc. px_locals px m = Some lc \<Longrightarrow> local_ok pending (feed (lo_id lc)) m lc px"
    using ok unfolding proxy_ok_def table_ok_def by blast+
  have "px_streams px' = px_streams ?px1 \<and> px_locals px' = px_locals px \<and> px_next px' = px_next px \<and>
      (\<forall>m. waiting pending m px' = waiting pending m px)"
  proof (cases "map_of (px_streams px) i")
    case None
    with run show ?thesis by (auto simp: waiting_def)
  next
    case (Some n)
    with run have s: "send_local cl n ToClose ?px1 = Some px'" by simp
    note q = send_local_frame [OF laws s]
    have "waiting pending m px' = waiting pending m px" for m
    proof (cases "m = n")
      case True
      with q(5) show ?thesis by (auto simp: waiting_def)
    next
      case False
      with q(4) [OF False] show ?thesis by (simp add: waiting_def)
    qed
    with q(1-3) show ?thesis by simp
  qed
  then have f: "px_streams px' = AList.delete i (px_streams px)" "px_locals px' = px_locals px" "px_next px' = px_next px"
    "\<And>m. waiting pending m px' = waiting pending m px" by simp_all
  have "local_ok pending (feed (lo_id lc)) m lc px'" if "px_locals px m = Some lc" for m lc
    using l [OF that] local_ok_waiting [OF f(4)] by blast
  moreover have "table_ok px'"
    unfolding table_ok_def f using t by (auto simp: delete_conv' distinct_delete split: if_splits)
  ultimately show ?thesis by (simp add: proxy_ok_def f)
qed

text \<open>One turn, and a run.\<close>

definition feed_after :: "(u32 \<Rightarrow> bytes) \<Rightarrow> proxy_event list \<Rightarrow> u32 \<Rightarrow> bytes" where
  "feed_after feed evs i = feed i @ fed i evs"

lemma frame_ok:
  assumes ok: "proxy_ok pending feed px" and laws: "chan_laws cl pending" and run: "reader_frame co cl f px = Some px'"
  shows "proxy_ok pending (feed_after feed [Gets_frame f]) px'"
proof (cases "\<exists>i d. f = StreamData i d")
  case True
  then obtain i d where f: "f = StreamData i d" by blast
  have "feed_after feed [Gets_frame f] = feed(i := feed i @ d)" by (rule ext) (simp add: feed_after_def f)
  with data_ok [OF ok laws run [unfolded f]] show ?thesis by simp
next
  case False
  then have fed: "feed_after feed [Gets_frame f] = feed" by (intro ext) (cases f; simp add: feed_after_def)
  show ?thesis unfolding fed
  proof (cases "\<exists>i e. f = StreamClose i e")
    case True
    with close_ok [OF ok laws] run show "proxy_ok pending feed px'" by blast
  next
    case no: False
    with run False show "proxy_ok pending feed px'"
      by (cases f) (auto intro: proxy_ok_quiet [OF ok] simp: send_frame_def)
  qed
qed

lemma turn_ok:
  assumes ok: "proxy_ok pending feed px" and laws: "chan_laws cl pending" and run: "proxy_turn co cl ev px = Some px'"
  shows "proxy_ok pending (feed_after feed [ev]) px'"
proof -
  have same: "feed_after feed [ev] = feed" if "\<And>f. ev \<noteq> Gets_frame f"
  proof
    fix i
    show "feed_after feed [ev] i = feed i"
    proof (cases ev)
      case (Gets_frame f)
      with that show ?thesis by blast
    qed (simp_all add: feed_after_def)
  qed
  show ?thesis
  proof (cases ev)
    case (Accepts rs)
    with run accept_ok [OF ok, of rs] same show ?thesis by (simp add: proxy_turn_def)
  next
    case (Opens n)
    with run open_ok [OF ok laws] same show ?thesis by (auto simp: proxy_turn_def on_local_def split: option.splits)
  next
    case (Replies n wrote)
    with run reply_ok [OF ok] same show ?thesis by (auto simp: proxy_turn_def on_local_def split: option.splits)
  next
    case (Reads n got)
    with run read_ok [OF ok] same show ?thesis by (auto simp: proxy_turn_def on_local_def split: option.splits)
  next
    case (Delivers n held wrote)
    with run deliver_ok [OF ok laws] same show ?thesis by (auto simp: proxy_turn_def on_local_def split: option.splits)
  next
    case (Gets_frame f)
    with run frame_ok [OF ok laws] show ?thesis by (simp add: proxy_turn_def)
  next
    case (Lan_reads p)
    with run same show ?thesis
      by (auto simp: proxy_turn_def lan_packet_def send_frame_def intro: proxy_ok_quiet [OF ok] split: if_splits)
  next
    case Lan_polls
    with run same show ?thesis
      by (auto simp: proxy_turn_def lan_poll_def send_frame_def intro: proxy_ok_quiet [OF ok])
  next
    case Writer_takes
    with run same show ?thesis
      by (auto simp: proxy_turn_def intro: proxy_ok_quiet [OF ok] split: option.splits)
  qed
qed

lemma run_ok:
  assumes "chan_laws cl pending" and "proxy_ok pending feed px" and "proxy_run co cl evs px = Some px'"
  shows "proxy_ok pending (feed_after feed evs) px'"
  using assms(2,3)
proof (induction evs arbitrary: px feed)
  case Nil
  then show ?case by (simp add: feed_after_def)
next
  case (Cons ev evs)
  then obtain px1 where t: "proxy_turn co cl ev px = Some px1" and r: "proxy_run co cl evs px1 = Some px'"
    by (auto simp: bind_eq_Some_conv)
  have "feed_after (feed_after feed [ev]) evs = feed_after feed (ev # evs)"
    using fed_append [of _ "[ev]" evs] by (intro ext) (simp add: feed_after_def)
  with Cons.IH [OF turn_ok [OF Cons.prems(1) assms(1) t] r] show ?case by simp
qed

lemma start_ok: "proxy_ok pending (\<lambda>_. []) (proxy_start out chans lan shared)"
  by (simp add: proxy_ok_def table_ok_def proxy_start_def)

section \<open>Stream numbers\<close>

text \<open>Until the counter wraps around, no two connections have the same stream number.\<close>

definition accepts :: "proxy_event list \<Rightarrow> nat" where
  "accepts evs = length (filter (\<lambda>ev. case ev of Accepts _ \<Rightarrow> True | _ \<Rightarrow> False) evs)"

definition ids_ok :: "nat \<Rightarrow> ('o, 'l) proxy \<Rightarrow> bool" where
  "ids_ok a px \<longleftrightarrow> unat (px_next_id px) = Suc a \<and>
     (\<forall>n lc. px_locals px n = Some lc \<longrightarrow> n < px_next px \<and> unat (lo_id lc) \<le> a) \<and>
     (\<forall>n m x y. px_locals px n = Some x \<longrightarrow> px_locals px m = Some y \<longrightarrow> lo_id x = lo_id y \<longrightarrow> n = m)"

text \<open>Only the accept loop takes a number.\<close>

definition same_ids :: "('o, 'l) proxy \<Rightarrow> ('o, 'l) proxy \<Rightarrow> bool" where
  "same_ids px px' \<longleftrightarrow> px_next_id px' = px_next_id px \<and> px_next px' = px_next px \<and>
     (\<forall>n. map_option lo_id (px_locals px' n) = map_option lo_id (px_locals px n))"

lemma same_ids_ok:
  assumes "same_ids px px'" and "ids_ok a px"
  shows "ids_ok a px'"
proof -
  have old: "\<exists>y. px_locals px n = Some y \<and> lo_id y = lo_id x" if "px_locals px' n = Some x" for n x
  proof -
    have "map_option lo_id (px_locals px n) = map_option lo_id (px_locals px' n)"
      using assms(1) unfolding same_ids_def by metis
    then have "map_option lo_id (px_locals px n) = Some (lo_id x)" by (simp add: that)
    then show ?thesis by (simp add: map_option_eq_Some)
  qed
  from assms(1) have n: "px_next_id px' = px_next_id px" "px_next px' = px_next px" by (simp_all add: same_ids_def)
  from assms(2) have i: "unat (px_next_id px) = Suc a" "\<And>n lc. px_locals px n = Some lc \<Longrightarrow> n < px_next px \<and> unat (lo_id lc) \<le> a"
    "\<And>n m x y. px_locals px n = Some x \<Longrightarrow> px_locals px m = Some y \<Longrightarrow> lo_id x = lo_id y \<Longrightarrow> n = m"
    unfolding ids_ok_def by blast+
  show ?thesis
    unfolding ids_ok_def n
  proof (intro conjI allI impI)
    show "unat (px_next_id px) = Suc a" by (rule i(1))
  next
    fix m x
    assume "px_locals px' m = Some x"
    with old i(2) show "m < px_next px" "unat (lo_id x) \<le> a" by fastforce+
  next
    fix k m x y
    assume k: "px_locals px' k = Some x" and m: "px_locals px' m = Some y" and e: "lo_id x = lo_id y"
    obtain x0 where x0: "px_locals px k = Some x0" "lo_id x0 = lo_id x" using old [OF k] by blast
    obtain y0 where y0: "px_locals px m = Some y0" "lo_id y0 = lo_id y" using old [OF m] by blast
    from i(3) [OF x0(1) y0(1)] x0(2) y0(2) e show "k = m" by simp
  qed
qed

lemma same_ids_refl: "same_ids px px"
  by (simp add: same_ids_def)

lemma same_ids_trans: "same_ids a b \<Longrightarrow> same_ids b c \<Longrightarrow> same_ids a c"
  by (simp add: same_ids_def)

lemma same_ids_set:
  "px_locals px n = Some lc \<Longrightarrow> lo_id lc' = lo_id lc \<Longrightarrow> same_ids px (set_local n lc' px)"
  by (simp add: same_ids_def set_local_def)

lemma same_ids_send: "send_frame co f px = Some (b, px') \<Longrightarrow> same_ids px px'"
  by (auto simp: same_ids_def send_frame_def)

lemma same_ids_eof: "local_eof co n lc px = Some px' \<Longrightarrow> px_locals px n = Some lc \<Longrightarrow> same_ids px px'"
  by (auto simp: local_eof_def same_ids_def send_frame_def set_local_def)

lemma same_ids_open: "local_open co cl n lc px = Some px' \<Longrightarrow> px_locals px n = Some lc \<Longrightarrow> same_ids px px'"
  by (auto simp: local_open_def same_ids_def send_frame_def set_local_def Let_def
      split: local_phase.splits option.splits bool.splits)

lemma same_ids_reply: "local_reply co n lc wrote px = Some px' \<Longrightarrow> px_locals px n = Some lc \<Longrightarrow> same_ids px px'"
  by (auto simp: local_reply_def same_ids_def send_frame_def set_local_def
      split: local_phase.splits option.splits bool.splits sum.splits if_splits)

lemma same_ids_read:
  assumes "local_read co n lc got px = Some px'" and "px_locals px n = Some lc"
  shows "same_ids px px'"
proof -
  from assms(1) have ph: "lo_phase lc = Pumps True" by (auto simp: local_read_def split: if_splits)
  show ?thesis
  proof (cases "\<exists>b bs. got = Inr (b # bs)")
    case True
    then obtain b bs where "got = Inr (b # bs)" by blast
    with assms(1) ph obtain ok px1 where s: "send_frame co (StreamData (lo_id lc) (b # bs)) px = Some (ok, px1)"
      and r: "if ok then px' = px1 else local_eof co n lc px1 = Some px'"
      by (auto simp: local_read_def split: option.splits bool.splits)
    have "px_locals px1 n = Some lc" using assms(2) send_frame_quiet(3) [OF s] by simp
    with r same_ids_send [OF s] same_ids_eof [of co n lc px1 px'] show ?thesis
      by (auto intro: same_ids_trans split: if_splits)
  next
    case False
    with assms(1) ph have "local_eof co n lc px = Some px'"
      by (auto simp: local_read_def split: sum.splits list.splits)
    with same_ids_eof assms(2) show ?thesis by blast
  qed
qed

lemma same_ids_deliver: "local_deliver cl n lc held wrote px = Some px' \<Longrightarrow> px_locals px n = Some lc \<Longrightarrow> same_ids px px'"
  by (auto simp: local_deliver_def same_ids_def local_end_def set_local_def
      split: local_phase.splits option.splits prod.splits to_local.splits sum.splits if_splits)

lemma same_ids_frame: "reader_frame co cl f px = Some px' \<Longrightarrow> same_ids px px'"
  by (cases f) (auto simp: same_ids_def send_frame_def send_local_def Let_def split: option.splits)

lemma turn_same_ids:
  assumes "proxy_turn co cl ev px = Some px'" and "\<And>rs. ev \<noteq> Accepts rs"
  shows "same_ids px px'"
proof (cases ev)
  case (Accepts rs)
  with assms(2) show ?thesis by blast
next
  case (Gets_frame f)
  with assms(1) same_ids_frame show ?thesis by (auto simp: proxy_turn_def)
next
  case Lan_polls
  with assms(1) same_ids_send show ?thesis by (auto simp: proxy_turn_def lan_poll_def)
next
  case (Lan_reads p)
  with assms(1) same_ids_send same_ids_refl show ?thesis by (auto simp: proxy_turn_def lan_packet_def split: if_splits)
next
  case Writer_takes
  with assms(1) show ?thesis by (auto simp: proxy_turn_def same_ids_def split: option.splits)
qed (use assms(1) same_ids_open same_ids_reply same_ids_read same_ids_deliver in
  \<open>auto simp: proxy_turn_def on_local_def split: option.splits\<close>)

lemma accept_ids:
  assumes "ids_ok a px" and "Suc (Suc a) < 2 ^ 32"
  shows "ids_ok (Suc a) (snd (accept_local rs px))"
proof -
  obtain r rs' where h: "parse_http_head [] rs = (r, rs')" by (meson surj_pair)
  from assms(1) have n: "unat (px_next_id px) = Suc a" and l: "\<And>n lc. px_locals px n = Some lc \<Longrightarrow> n < px_next px \<and> unat (lo_id lc) \<le> a"
    and i: "\<And>n m x y. px_locals px n = Some x \<Longrightarrow> px_locals px m = Some y \<Longrightarrow> lo_id x = lo_id y \<Longrightarrow> n = m"
    unfolding ids_ok_def by blast+
  have n': "unat (px_next_id px + 1) = Suc (Suc a)"
    using n assms(2) by (simp add: unat_add_lem [where 'a = 32, THEN iffD1])
  have new: "lo_id y \<noteq> px_next_id px" if "px_locals px m = Some y" for m y
    using l [OF that] n by (metis Suc_n_not_le_n)
  show ?thesis
  proof (cases r)
    case (Inl e)
    with h n' l i show ?thesis by (fastforce simp: accept_local_def ids_ok_def Let_def intro: le_SucI)
  next
    case (Inr x)
    obtain target con fwd where x: "x = (target, con, fwd)" by (cases x)
    have px': "px_locals (snd (accept_local rs px)) = (px_locals px)(px_next px \<mapsto>
        \<lparr>lo_id = px_next_id px, lo_phase = Opening target con fwd, lo_sock = []\<rparr>)"
      "px_next_id (snd (accept_local rs px)) = px_next_id px + 1" "px_next (snd (accept_local rs px)) = Suc (px_next px)"
      using h Inr x by (simp_all add: accept_local_def set_local_def Let_def)
    show ?thesis
      unfolding ids_ok_def px'
    proof (intro conjI allI impI)
      fix m y
      assume y: "((px_locals px)(px_next px \<mapsto> \<lparr>lo_id = px_next_id px, lo_phase = Opening target con fwd, lo_sock = []\<rparr>)) m = Some y"
      show "m < Suc (px_next px)" using y l [of m y] by (cases "m = px_next px") auto
      show "unat (lo_id y) \<le> Suc a" using y l [of m y] n by (cases "m = px_next px") auto
      fix k z
      assume z: "((px_locals px)(px_next px \<mapsto> \<lparr>lo_id = px_next_id px, lo_phase = Opening target con fwd, lo_sock = []\<rparr>)) k = Some z"
        and e: "lo_id y = lo_id z"
      have y': "if m = px_next px then lo_id y = px_next_id px else px_locals px m = Some y" using y by (auto split: if_splits)
      have z': "if k = px_next px then lo_id z = px_next_id px else px_locals px k = Some z" using z by (auto split: if_splits)
      show "m = k" using y' z' e i [of m y k z] new [of m y] new [of k z] by (simp split: if_splits)
    qed (rule n')
  qed
qed

lemma run_ids:
  assumes "ids_ok a px" and "proxy_run co cl evs px = Some px'" and "a + accepts evs + 1 < 2 ^ 32"
  shows "ids_ok (a + accepts evs) px'"
  using assms
proof (induction evs arbitrary: a px)
  case (Cons ev evs)
  then obtain px1 where t: "proxy_turn co cl ev px = Some px1" and r: "proxy_run co cl evs px1 = Some px'"
    by (auto simp: bind_eq_Some_conv)
  show ?case
  proof (cases "\<exists>rs. ev = Accepts rs")
    case True
    then obtain rs where ev: "ev = Accepts rs" by blast
    have b: "Suc (Suc a) < 2 ^ 32" "Suc a + accepts evs + 1 < 2 ^ 32" using Cons.prems(3) by (simp_all add: ev accepts_def)
    have "px1 = snd (accept_local rs px)" using t by (simp add: ev proxy_turn_def)
    with Cons.IH [OF accept_ids [OF Cons.prems(1) b(1), of rs] _ b(2)] r show ?thesis by (simp add: ev accepts_def)
  next
    case False
    then have s: "ids_ok a px1" using same_ids_ok [OF turn_same_ids [OF t] Cons.prems(1)] by blast
    from False have "accepts (ev # evs) = accepts evs" by (cases ev) (simp_all add: accepts_def)
    with Cons.IH [OF s r] Cons.prems(3) show ?thesis by simp
  qed
qed (simp add: accepts_def)

lemma start_ids: "ids_ok 0 (proxy_start out chans lan shared)"
  by (simp add: ids_ok_def proxy_start_def)

section \<open>The properties\<close>

text \<open>A connection to \<open>h\<close> that asks for a tunnel, and what happens to it.\<close>

definition tunnel_head :: bytes where
  "tunnel_head = bytes_of (''CONNECT h:1 HTTP/1.1'' @ crlf @ crlf)"

lemma tunnel_head_parsed: "parse_http_head [] [Inr tunnel_head] = (Inr (TargetDomain ''h'' 1, True, []), [])"
proof -
  have b: "tunnel_head = [67, 79, 78, 78, 69, 67, 84, 32, 104, 58, 49, 32, 72, 84, 84, 80, 47, 49, 46, 49, 13, 10, 13, 10]"
    by code_simp
  have f: "find_sub ([] @ tunnel_head) crlf2 = Some 20" unfolding b by code_simp
  have w: "word_ok ''h''" "word_ok ''HTTP/1.1''" by code_simp+
  have u: "show_u16 1 = ''1''" by code_simp
  have "parse_request_line tunnel_head = Inr (TargetDomain ''h'' 1, True)"
    using parse_connect [OF w, of 1 crlf] unfolding u tunnel_head_def by simp
  then show ?thesis
    using parse_http_head_found [OF f, of "[]"] by (simp add: head_done_def b)
qed

definition one_stream :: "proxy_event list" where
  "one_stream = [Accepts [Inr tunnel_head], Opens 0, Gets_frame (StreamData 1 [7, 8]), Replies 0 (Inr ()),
     Gets_frame (StreamData 2 [5]), Delivers 0 True (Inr ())]"

definition demo_proxy :: "(frame queue, to_local queue) proxy" where
  "demo_proxy = proxy_start (q_channel 4) (\<lambda>_. q_channel 0) None live_default"

lemma one_stream_run:
  "\<exists>px lc. proxy_run queue_chan queue_chan one_stream demo_proxy = Some px \<and> px_locals px 0 = Some lc \<and>
    lo_id lc = 1 \<and> lo_sock lc = established_reply @ [7, 8]"
  by (simp add: one_stream_def demo_proxy_def proxy_start_def proxy_turn_def accept_local_def tunnel_head_parsed on_local_def
      local_open_def local_reply_def local_deliver_def set_local_def send_frame_def send_local_def chan_send_def queue_chan_def
      q_channel_def q_try_send_def q_recv_def Let_def)

text \<open>C12. The tables of the proxy stay well formed, whatever the tasks do and in whatever order: stream numbers are
  keys, an entry points at the connection that has this number and has been opened, and until the 32-bit counter
  wraps around no two connections have one number.\<close>

theorem proxy_tables_well_formed:
  assumes "chan_laws cl pending" and "proxy_run co cl evs (proxy_start out chans lan shared) = Some px"
  shows "distinct (map fst (px_streams px)) \<and>
    (\<forall>i n. map_of (px_streams px) i = Some n \<longrightarrow> (\<exists>lc. px_locals px n = Some lc \<and> lo_id lc = i \<and> \<not> unopened lc)) \<and>
    (accepts evs + 1 < 2 ^ 32 \<longrightarrow>
      (\<forall>n m x y. px_locals px n = Some x \<longrightarrow> px_locals px m = Some y \<longrightarrow> lo_id x = lo_id y \<longrightarrow> n = m))"
  using run_ok [OF assms(1) start_ok assms(2)] run_ids [OF start_ids assms(2)]
  unfolding proxy_ok_def table_ok_def ids_ok_def add_0 by blast

theorem proxy_tables_well_formed_witness:
  "\<exists>px. proxy_run queue_chan queue_chan one_stream demo_proxy = Some px \<and> distinct (map fst (px_streams px))"
proof -
  obtain px where r: "proxy_run queue_chan queue_chan one_stream demo_proxy = Some px" using one_stream_run by blast
  from proxy_tables_well_formed [OF queue_chan_laws r [unfolded demo_proxy_def]] r show ?thesis by blast
qed

text \<open>C11. Streams do not mix: in every run of the proxy, what a local socket was sent is, byte for byte and in order,
  part of the reply to its CONNECT followed by the data the server sent for its own stream number.\<close>

theorem local_sockets_isolated:
  assumes "chan_laws cl pending" and "proxy_run co cl evs (proxy_start out chans lan shared) = Some px"
    and "px_locals px n = Some lc"
  shows "subseq (lo_sock lc) (established_reply @ fed (lo_id lc) evs)"
proof -
  from run_ok [OF assms(1) start_ok assms(2)] assms(3) have "local_ok pending (fed (lo_id lc) evs) n lc px"
    unfolding proxy_ok_def feed_after_def by simp
  then show ?thesis
    by (auto simp: local_ok_def split: local_phase.splits) (meson prefixI prefix_imp_subseq subseq_order.order_trans)
qed

theorem local_sockets_isolated_witness:
  "\<exists>px lc. proxy_run queue_chan queue_chan one_stream demo_proxy = Some px \<and> px_locals px 0 = Some lc \<and>
    subseq (lo_sock lc) (established_reply @ [7, 8])"
proof -
  obtain px lc where r: "proxy_run queue_chan queue_chan one_stream demo_proxy = Some px" and l: "px_locals px 0 = Some lc"
    and i: "lo_id lc = 1" using one_stream_run by blast
  from local_sockets_isolated [OF queue_chan_laws r [unfolded demo_proxy_def] l] i have
    "subseq (lo_sock lc) (established_reply @ [7, 8])" by (simp add: one_stream_def)
  with r l show ?thesis by blast
qed

end
