(* ===== verification/Sysproxy.thy ===== *)
theory Sysproxy
  imports Shell
begin

text \<open>
  \<open>client-core/src/sysproxy.rs\<close>: pointing the proxy settings of the operating system at the local HTTP proxy,
  and the guard that switches them off when it is dropped. The source is compiled for one platform; here the
  platform is a parameter. The settings of the host are observed as a map from keys to values, and
  \<open>proxy_laws\<close> says what \<open>gsettings set\<close>, \<open>networksetup\<close> and \<open>reg add\<close> do to it. The facts: a guard
  with an undo list leaves the proxy off when its commands succeed; on macOS a half-set proxy has no guard.
\<close>

section \<open>Definitions\<close>

record sys_proxy_guard =
  sp_undo :: "cmd list"

definition noop :: sys_proxy_guard where
  "noop = \<lparr>sp_undo = []\<rparr>"

definition sys_proxy_drop :: "'o exec \<Rightarrow> sys_proxy_guard \<Rightarrow> 'o \<Rightarrow> 'o" where
  "sys_proxy_drop exec g st = (if sp_undo g = [] then st else undo_all exec (sp_undo g) st)"

text \<open>\<open>Command::status\<close>, with a program that cannot be started counted as a failure.\<close>

definition run :: "'o exec \<Rightarrow> string \<Rightarrow> string list \<Rightarrow> 'o \<Rightarrow> bool \<times> 'o" where
  "run exec c args st = (case exec (c, args) st of (r, st') \<Rightarrow> (succeeded r, st'))"

definition host_port :: "string \<Rightarrow> string \<times> string" where
  "host_port listen =
     (let (h, p) = (case rsplit_once CHR '':'' listen of Some hp \<Rightarrow> hp | None \<Rightarrow> (listen, ''7890''))
      in (if h = '''' \<or> h = ''0.0.0.0'' \<or> h = ''::'' \<or> h = ''[::]'' then ''127.0.0.1''
          else trim_matches (\<lambda>c. c = CHR ''['' \<or> c = CHR '']'') h, p))"

subsection \<open>macOS\<close>

text \<open>The service whose device is \<open>dev\<close> in the listing of \<open>networksetup\<close>: the last line \<open>(n) name\<close> before
  the line that names the device.\<close>

fun service_of :: "string \<Rightarrow> string option \<Rightarrow> string list \<Rightarrow> string option" where
  "service_of dev last_service [] = None"
| "service_of dev last_service (line # ls) =
     (let t = trim line;
          named = (case strip_prefix ''('' t of
             None \<Rightarrow> None
           | Some rest \<Rightarrow>
               (case split_once CHR '')'' rest of
                  None \<Rightarrow> None
                | Some (before, after) \<Rightarrow> if contains before ''Hardware Port'' then None else Some (trim after)))
      in case named of
           Some name \<Rightarrow> service_of dev (Some name) ls
         | None \<Rightarrow> if contains t (''Device: '' @ dev) then last_service else service_of dev last_service ls)"

definition route_interface :: "string \<Rightarrow> string option" where
  "route_interface out = map_option trim (find_map (\<lambda>l. strip_prefix ''interface:'' (trim l)) (lines out))"

definition primary_service :: "'o exec \<Rightarrow> 'o \<Rightarrow> string option \<times> 'o" where
  "primary_service exec st =
     (case exec (''route'', [''-n'', ''get'', ''default'']) st of
        (Inl _, st1) \<Rightarrow> (None, st1)
      | (Inr route, st1) \<Rightarrow>
          (case route_interface (out_stdout route) of
             None \<Rightarrow> (None, st1)
           | Some dev \<Rightarrow>
               (case exec (''networksetup'', [''-listnetworkserviceorder'']) st1 of
                  (Inl _, st2) \<Rightarrow> (None, st2)
                | (Inr order, st2) \<Rightarrow> (service_of dev None (lines (out_stdout order)), st2))))"

definition enable_macos :: "'o exec \<Rightarrow> string \<Rightarrow> string \<Rightarrow> 'o \<Rightarrow> sys_proxy_guard \<times> 'o" where
  "enable_macos exec host port st =
     (case primary_service exec st of
        (None, st1) \<Rightarrow> (noop, st1)
      | (Some svc, st1) \<Rightarrow>
          (let (ok_web, st2) = run exec ''networksetup'' [''-setwebproxy'', svc, host, port] st1;
               (ok_sec, st3) = run exec ''networksetup'' [''-setsecurewebproxy'', svc, host, port] st2
           in if \<not> (ok_web \<and> ok_sec) then (noop, st3)
              else (\<lparr>sp_undo = [(''networksetup'', [''-setwebproxystate'', svc, ''off'']),
                      (''networksetup'', [''-setsecurewebproxystate'', svc, ''off''])]\<rparr>, st3)))"

subsection \<open>Linux\<close>

definition gnome_base :: string where
  "gnome_base = ''org.gnome.system.proxy''"

definition enable_linux :: "'o exec \<Rightarrow> string \<Rightarrow> string \<Rightarrow> 'o \<Rightarrow> sys_proxy_guard \<times> 'o" where
  "enable_linux exec host port st =
     (let g = (\<lambda>args st. run exec ''gsettings'' args st);
          (manual, st1) = g [''set'', gnome_base, ''mode'', ''manual''] st
      in if \<not> manual then (noop, st1)
         else (\<lparr>sp_undo = [(''gsettings'', [''set'', gnome_base, ''mode'', ''none''])]\<rparr>,
           foldl (\<lambda>st proto. let schema = gnome_base @ ''.'' @ proto
              in snd (g [''set'', schema, ''port'', port] (snd (g [''set'', schema, ''host'', host] st))))
             st1 [''http'', ''https'']))"

subsection \<open>Windows\<close>

definition backslash :: string where
  "backslash = [CHR 0x5C]"

definition dquote :: string where
  "dquote = [CHR 0x22]"

definition INET_SETTINGS :: string where
  "INET_SETTINGS = join backslash [''HKCU'', ''Software'', ''Microsoft'', ''Windows'', ''CurrentVersion'', ''Internet Settings'']"

definition WININET_REFRESH :: string where
  "WININET_REFRESH = ''Add-Type -Namespace ET -Name WinInet -MemberDefinition '[System.Runtime.InteropServices.DllImport('' @
     dquote @ ''wininet.dll'' @ dquote @
     '', SetLastError=true)] public static extern bool InternetSetOption(System.IntPtr h, int o, System.IntPtr b, int l);'; '' @
     ''[void][ET.WinInet]::InternetSetOption([System.IntPtr]::Zero,39,[System.IntPtr]::Zero,0); '' @
     ''[void][ET.WinInet]::InternetSetOption([System.IntPtr]::Zero,37,[System.IntPtr]::Zero,0)''"

definition reg_add :: "string \<Rightarrow> string \<Rightarrow> string \<Rightarrow> string list" where
  "reg_add name ty val = [''add'', INET_SETTINGS, ''/v'', name, ''/t'', ty, ''/d'', val, ''/f'']"

definition refresh_args :: "string list" where
  "refresh_args = [''-NoProfile'', ''-NonInteractive'', ''-Command'', WININET_REFRESH]"

definition refresh_wininet :: "'o exec \<Rightarrow> 'o \<Rightarrow> 'o" where
  "refresh_wininet exec st = snd (run exec ''powershell'' refresh_args st)"

definition enable_windows :: "'o exec \<Rightarrow> string \<Rightarrow> string \<Rightarrow> 'o \<Rightarrow> sys_proxy_guard \<times> 'o" where
  "enable_windows exec host port st =
     (let server = host @ '':'' @ port;
          (ok_srv, st1) = run exec ''reg'' (reg_add ''ProxyServer'' ''REG_SZ'' server) st;
          st2 = snd (run exec ''reg'' (reg_add ''ProxyOverride'' ''REG_SZ'' ''localhost;127.*;<local>'') st1);
          (ok_en, st3) = run exec ''reg'' (reg_add ''ProxyEnable'' ''REG_DWORD'' ''1'') st2
      in if \<not> (ok_srv \<and> ok_en) then (noop, st3)
         else (\<lparr>sp_undo = [(''reg'', reg_add ''ProxyEnable'' ''REG_DWORD'' ''0''), (''powershell'', refresh_args)]\<rparr>,
               refresh_wininet exec st3))"

subsection \<open>The platform\<close>

definition enable :: "target_os \<Rightarrow> 'o exec \<Rightarrow> string \<Rightarrow> 'o \<Rightarrow> sys_proxy_guard \<times> 'o" where
  "enable os exec listen st =
     (let (host, port) = host_port listen
      in case os of
           Linux \<Rightarrow> enable_linux exec host port st
         | Macos \<Rightarrow> enable_macos exec host port st
         | Windows \<Rightarrow> enable_windows exec host port st
         | Other_Os \<Rightarrow> (noop, st))"

section \<open>The settings of the host\<close>

text \<open>What a command writes: a key and its new value. \<open>networksetup\<close> switches a proxy on when it sets its address.\<close>

definition proxy_edit :: "cmd \<Rightarrow> (string list \<times> string) option" where
  "proxy_edit c =
     (case c of (p, args) \<Rightarrow>
        if p = ''gsettings'' then
          (case args of [s, schema, key, v] \<Rightarrow> if s = ''set'' then Some ([schema, key], v) else None | _ \<Rightarrow> None)
        else if p = ''networksetup'' then
          (case args of
             [a, svc, v] \<Rightarrow>
               if a = ''-setwebproxystate'' then Some ([''web'', svc], v)
               else if a = ''-setsecurewebproxystate'' then Some ([''secure'', svc], v) else None
           | [a, svc, host, port] \<Rightarrow>
               if a = ''-setwebproxy'' then Some ([''web'', svc], ''on'')
               else if a = ''-setsecurewebproxy'' then Some ([''secure'', svc], ''on'') else None
           | _ \<Rightarrow> None)
        else if p = ''reg'' then
          (case args of [a, path, v, name, t, ty, d, val, f] \<Rightarrow> if a = ''add'' then Some ([path, name], val) else None
           | _ \<Rightarrow> None)
        else None)"

definition proxy_laws :: "'o exec \<Rightarrow> ('o \<Rightarrow> string list \<rightharpoonup> string) \<Rightarrow> bool" where
  "proxy_laws exec settings \<longleftrightarrow>
     (\<forall>c st. settings (snd (exec c st)) =
        (case proxy_edit c of
           Some (k, v) \<Rightarrow> if succeeded (fst (exec c st)) then (settings st)(k \<mapsto> v) else settings st
         | None \<Rightarrow> settings st))"


section \<open>Facts\<close>

lemma proxy_law:
  assumes "proxy_laws exec settings"
  shows "settings (snd (exec c st)) =
    (case proxy_edit c of
       Some (k, v) \<Rightarrow> if succeeded (fst (exec c st)) then (settings st)(k \<mapsto> v) else settings st
     | None \<Rightarrow> settings st)"
  using assms unfolding proxy_laws_def by blast

lemma proxy_run_fst [simp]: "fst (run exec c args st) = succeeded (fst (exec (c, args) st))"
  by (simp add: run_def split: prod.split)

lemma proxy_run_snd [simp]: "snd (run exec c args st) = snd (exec (c, args) st)"
  by (simp add: run_def split: prod.split)

lemma proxy_edit_commands [simp]:
  "proxy_edit (''gsettings'', [''set'', schema, key, v]) = Some ([schema, key], v)"
  "proxy_edit (''networksetup'', [''-setwebproxystate'', svc, v]) = Some ([''web'', svc], v)"
  "proxy_edit (''networksetup'', [''-setsecurewebproxystate'', svc, v]) = Some ([''secure'', svc], v)"
  "proxy_edit (''networksetup'', [''-setwebproxy'', svc, host, port]) = Some ([''web'', svc], ''on'')"
  "proxy_edit (''networksetup'', [''-setsecurewebproxy'', svc, host, port]) = Some ([''secure'', svc], ''on'')"
  "proxy_edit (''reg'', reg_add name ty val) = Some ([INET_SETTINGS, name], val)"
  "proxy_edit (''powershell'', args) = None"
  by (simp_all add: proxy_edit_def reg_add_def)


lemma host_port_wildcard:
  assumes "h \<in> {'''', ''0.0.0.0'', ''::'', ''[::]''}" and "CHR '':'' \<notin> set p"
  shows "host_port (h @ '':'' @ p) = (''127.0.0.1'', p)"
  using assms(1) rsplit_once_append [OF assms(2), of h] by (simp add: host_port_def Let_def)

section \<open>Properties\<close>


text \<open>A desktop on the service \<open>Wi-Fi\<close> whose \<open>networksetup\<close> may refuse the proxy for secure sites.\<close>

definition mac_listing :: string where
  "mac_listing = ''(1) Wi-Fi'' @ [newline] @ ''(Hardware Port: Wi-Fi, Device: en0)'' @ [newline]"

definition mac_exec :: "bool \<Rightarrow> (string list \<rightharpoonup> string) exec" where
  "mac_exec refuse c s =
     (if refuse \<and> take 1 (snd c) = [''-setsecurewebproxy''] then (Inl ''denied'', s)
      else case proxy_edit c of
        Some (k, v) \<Rightarrow> (Inr \<lparr>out_ok = True, out_stdout = [], out_stderr = []\<rparr>, s(k \<mapsto> v))
      | None \<Rightarrow> (Inr \<lparr>out_ok = True, out_stdout = (if fst c = ''route'' then ''interface: en0'' else mac_listing), out_stderr = []\<rparr>, s))"

lemma mac_laws: "proxy_laws (mac_exec refuse) (\<lambda>s. s)"
  by (auto simp: proxy_laws_def mac_exec_def succeeded_def split: option.splits)

lemma mac_interface: "route_interface ''interface: en0'' = Some ''en0''"
  by code_simp

lemma mac_named: "service_of ''en0'' None (lines mac_listing) = Some ''Wi-Fi''"
  by code_simp

lemma mac_service: "primary_service (mac_exec refuse) s = (Some ''Wi-Fi'', s)"
  by (simp add: primary_service_def mac_exec_def proxy_edit_def mac_interface mac_named)


text \<open>On macOS a proxy set for plain sites but refused for secure ones stays on: \<open>enable\<close> returns a guard
  without an undo list, and dropping it changes nothing.\<close>

theorem half_set_proxy_stays:
  assumes "proxy_laws exec settings" and "enable Macos exec listen st = (g, st1)"
    and "primary_service exec st = (Some svc, st0)"
    and "succeeded (fst (exec (''networksetup'', [''-setwebproxy'', svc, fst (host_port listen), snd (host_port listen)]) st0))"
    and "\<forall>s. \<not> succeeded (fst (exec (''networksetup'', [''-setsecurewebproxy'', svc, fst (host_port listen), snd (host_port listen)]) s))"
  shows "settings (sys_proxy_drop exec g st1) [''web'', svc] = Some ''on''"
  using assms(2-5)
  by (auto simp: enable_def enable_macos_def split_beta Let_def noop_def sys_proxy_drop_def proxy_law [OF assms(1)])

theorem half_set_proxy_stays_witness:
  "sys_proxy_drop (mac_exec True) (fst (enable Macos (mac_exec True) ''127.0.0.1:7890'' Map.empty))
     (snd (enable Macos (mac_exec True) ''127.0.0.1:7890'' Map.empty)) [''web'', ''Wi-Fi''] = Some ''on''"
  by (rule half_set_proxy_stays [OF mac_laws prod.collapse [symmetric] mac_service])
    (simp_all add: mac_exec_def succeeded_def)

end
