(* ===== verification/Http_Mode.thy ===== *)
theory Http_Mode
  imports Packet_Mode Proxy_Run Sysproxy
begin

text \<open>
  \<open>run_http_mode\<close> of \<open>client-core/src/proxy.rs\<close> as a whole on Linux, and the session of \<open>Engine::run\<close> around it: the
  listener, the VPN LAN of a member, the tasks of \<open>Proxy_Run\<close> with the end of each, the cancellation, the drop of the
  guards, and the system proxy switch. The facts: a proxy session leaves routes, resolver file and proxy switch as
  they were, and after a lost link it goes on accepting connections that get no data.
\<close>

section \<open>Definitions\<close>


subsection \<open>The VPN LAN of a member\<close>



subsection \<open>The tasks and their ends\<close>

text \<open>\<open>Reader_ends\<close>: the link is lost or closed; \<open>Writer_ends\<close>: a send failed, and the queue is dropped with the task.\<close>

datatype http_event = Turn proxy_event | Reader_ends | Writer_ends | Cancel

record ('o, 'l) http_mode =
  hm_proxy :: "('o, 'l) proxy"
  hm_reader :: bool
  hm_writer :: bool
  hm_running :: bool

definition http_start :: "('o, frame) chan \<Rightarrow> (nat \<Rightarrow> 'l) \<Rightarrow> bool \<Rightarrow> live_status \<Rightarrow> ('o, 'l) http_mode" where
  "http_start co chans lan shared =
     \<lparr>hm_proxy = proxy_start (ch_new co 1024) chans (if lan then Some [] else None) shared,
      hm_reader = True, hm_writer = True, hm_running = True\<rparr>"

definition can_turn :: "('o, 'l) http_mode \<Rightarrow> proxy_event \<Rightarrow> bool" where
  "can_turn m ev =
     (case ev of
        Gets_frame _ \<Rightarrow> hm_reader m
      | Writer_takes \<Rightarrow> hm_writer m
      | Lan_reads _ \<Rightarrow> px_tun (hm_proxy m) \<noteq> None
      | Lan_polls \<Rightarrow> px_tun (hm_proxy m) \<noteq> None
      | _ \<Rightarrow> True)"

definition http_turn ::
  "('o, frame) chan \<Rightarrow> ('l, to_local) chan \<Rightarrow> http_event \<Rightarrow> ('o, 'l) http_mode \<Rightarrow> ('o, 'l) http_mode option" where
  "http_turn co cl ev m =
     (if \<not> hm_running m then None
      else case ev of
        Turn e \<Rightarrow> if can_turn m e then map_option (\<lambda>px. m\<lparr>hm_proxy := px\<rparr>) (proxy_turn co cl e (hm_proxy m)) else None
      | Reader_ends \<Rightarrow> if hm_reader m then Some (m\<lparr>hm_reader := False\<rparr>) else None
      | Writer_ends \<Rightarrow>
          if hm_writer m
          then Some (m\<lparr>hm_writer := False, hm_proxy := (hm_proxy m)\<lparr>px_out := ch_drop co (px_out (hm_proxy m))\<rparr>\<rparr>)
          else None
      | Cancel \<Rightarrow> Some (m\<lparr>hm_reader := False, hm_writer := False, hm_running := False\<rparr>))"

fun http_run ::
  "('o, frame) chan \<Rightarrow> ('l, to_local) chan \<Rightarrow> http_event list \<Rightarrow> ('o, 'l) http_mode \<Rightarrow> ('o, 'l) http_mode option" where
  "http_run co cl [] m = Some m"
| "http_run co cl (ev # evs) m = Option.bind (http_turn co cl ev m) (http_run co cl evs)"

subsection \<open>The mode and the session\<close>





section \<open>What is observed of the machine\<close>
























section \<open>A link that is lost\<close>

text \<open>From then on the connections from number \<open>k\<close> on have been sent a prefix of the reply to CONNECT and have nothing
  waiting for them.\<close>

definition starved_local :: "('l \<Rightarrow> to_local list) \<Rightarrow> 'l \<Rightarrow> local_conn \<Rightarrow> bool" where
  "starved_local pending q lc \<longleftrightarrow> prefix (lo_sock lc) established_reply \<and>
     (case lo_phase lc of
        Opening _ _ _ \<Rightarrow> lo_sock lc = []
      | Replying _ _ \<Rightarrow> lo_sock lc = [] \<and> pending q = []
      | Pumps _ \<Rightarrow> pending q = []
      | Gone \<Rightarrow> True)"

definition starved :: "('l \<Rightarrow> to_local list) \<Rightarrow> nat \<Rightarrow> ('o, 'l) proxy \<Rightarrow> bool" where
  "starved pending k px \<longleftrightarrow>
     (\<forall>n lc. px_locals px n = Some lc \<longrightarrow> k \<le> n \<longrightarrow> starved_local pending (px_chans px n) lc)"

lemma starvedD: "starved pending k px \<Longrightarrow> px_locals px n = Some lc \<Longrightarrow> k \<le> n \<Longrightarrow> starved_local pending (px_chans px n) lc"
  by (simp add: starved_def)

lemma starved_quiet:
  "starved pending k px \<Longrightarrow> px_chans px' = px_chans px \<Longrightarrow> px_locals px' = px_locals px \<Longrightarrow> starved pending k px'"
  by (simp add: starved_def)

lemma starved_set:
  assumes "starved pending k px" and "px_locals px' = (px_locals px)(n \<mapsto> lc)"
    and "\<And>m. m \<noteq> n \<Longrightarrow> px_chans px' m = px_chans px m" and "k \<le> n \<Longrightarrow> starved_local pending (px_chans px' n) lc"
  shows "starved pending k px'"
  using assms unfolding starved_def by (metis fun_upd_apply option.inject)

lemma starved_send: "send_frame co f px = Some (ok, px') \<Longrightarrow> starved pending k px \<Longrightarrow> starved pending k px'"
  using send_frame_quiet [of co f px ok px'] starved_quiet by blast

lemma starved_accept:
  assumes "starved pending k px"
  shows "starved pending k (snd (accept_local rs px))"
proof -
  obtain r rs' where h: "parse_http_head [] rs = (r, rs')" by (meson surj_pair)
  show ?thesis
  proof (cases r)
    case (Inl e)
    with h show ?thesis by (auto simp: accept_local_def Let_def intro: starved_quiet [OF assms])
  next
    case (Inr x)
    obtain target con fwd where x: "x = (target, con, fwd)" by (cases x)
    show ?thesis
      by (rule starved_set [OF assms, of _ "px_next px" "\<lparr>lo_id = px_next_id px, lo_phase = Opening target con fwd, lo_sock = []\<rparr>"])
        (use h Inr x in \<open>simp_all add: accept_local_def set_local_def starved_local_def Let_def\<close>)
  qed
qed

lemma starved_open:
  assumes s: "starved pending k px" and laws: "chan_laws cl pending" and lc: "px_locals px n = Some lc"
    and run: "local_open co cl n lc px = Some px'"
  shows "starved pending k px'"
proof -
  from run obtain target con fwd where ph: "lo_phase lc = Opening target con fwd"
    by (auto simp: local_open_def split: local_phase.splits)
  let ?px1 = "px\<lparr>px_chans := (px_chans px)(n := ch_new cl 256), px_streams := AList.update (lo_id lc) n (px_streams px)\<rparr>"
  from run ph obtain b px2 where f: "send_frame co (StreamOpen (lo_id lc) target) ?px1 = Some (b, px2)"
    and px': "px' = set_local n (lc\<lparr>lo_phase := if b then Replying con fwd else Gone\<rparr>) px2"
    by (auto simp: local_open_def Let_def split: option.splits bool.splits)
  have new: "pending (ch_new cl 256) = []" using laws unfolding chan_laws_def channel_laws_def by blast
  show ?thesis
    by (rule starved_set [OF s, of _ n "lc\<lparr>lo_phase := if b then Replying con fwd else Gone\<rparr>"])
      (use starvedD [OF s lc] ph new send_frame_quiet [OF f] in \<open>auto simp: px' set_local_def starved_local_def\<close>)
qed

lemma starved_reply:
  assumes s: "starved pending k px" and lc: "px_locals px n = Some lc" and run: "local_reply co n lc wrote px = Some px'"
  shows "starved pending k px'"
proof -
  from run obtain con fwd where ph: "lo_phase lc = Replying con fwd"
    by (auto simp: local_reply_def split: local_phase.splits)
  obtain px1 lc' where px': "px' = set_local n lc' px1" and q: "px_chans px1 = px_chans px" "px_locals px1 = px_locals px"
    and lc': "k \<le> n \<Longrightarrow> starved_local pending (px_chans px n) lc'"
  proof (cases con)
    case True
    from run ph True starvedD [OF s lc] show thesis
      by (intro that [of "case wrote of Inr _ \<Rightarrow> lc\<lparr>lo_phase := Pumps True, lo_sock := lo_sock lc @ established_reply\<rparr>
          | Inl _ \<Rightarrow> lc\<lparr>lo_phase := Gone\<rparr>" px])
        (auto simp: local_reply_def starved_local_def split: sum.splits)
  next
    case False
    show thesis
    proof (cases "fwd = []")
      case True
      from run ph False True starvedD [OF s lc] show thesis
        by (intro that [of "lc\<lparr>lo_phase := Pumps True\<rparr>" px]) (auto simp: local_reply_def starved_local_def)
    next
      case f: False
      from run ph f False obtain b px1 where m: "send_frame co (StreamData (lo_id lc) fwd) px = Some (b, px1)"
        and px': "px' = set_local n (lc\<lparr>lo_phase := if b then Pumps True else Gone\<rparr>) px1"
        by (auto simp: local_reply_def split: option.splits bool.splits)
      from px' send_frame_quiet [OF m] starvedD [OF s lc] ph show thesis
        by (intro that [OF px']) (auto simp: starved_local_def)
    qed
  qed
  show ?thesis
    by (rule starved_set [OF s, of _ n lc']) (use lc' q in \<open>simp_all add: px' set_local_def\<close>)
qed

lemma starved_eof:
  assumes s: "starved pending k px" and lc: "px_locals px n = Some lc" "lo_phase lc = Pumps True" and run: "local_eof co n lc px = Some px'"
  shows "starved pending k px'"
proof -
  from run obtain b px1 where m: "send_frame co (StreamClose (lo_id lc) None) px = Some (b, px1)"
    and px': "px' = set_local n (lc\<lparr>lo_phase := Pumps False\<rparr>) px1" by (auto simp: local_eof_def)
  show ?thesis
    by (rule starved_set [OF s, of _ n "lc\<lparr>lo_phase := Pumps False\<rparr>"])
      (use send_frame_quiet [OF m] starvedD [OF s lc(1)] lc(2) in \<open>auto simp: px' set_local_def starved_local_def\<close>)
qed

lemma starved_read:
  assumes s: "starved pending k px" and lc: "px_locals px n = Some lc" and run: "local_read co n lc got px = Some px'"
  shows "starved pending k px'"
proof -
  from run have ph: "lo_phase lc = Pumps True" by (auto simp: local_read_def split: if_splits)
  show ?thesis
  proof (cases "\<exists>b bs. got = Inr (b # bs)")
    case True
    then obtain b bs where "got = Inr (b # bs)" by blast
    with run ph obtain ok px1 where m: "send_frame co (StreamData (lo_id lc) (b # bs)) px = Some (ok, px1)"
      and r: "if ok then px' = px1 else local_eof co n lc px1 = Some px'"
      by (auto simp: local_read_def split: option.splits bool.splits)
    have lc1: "px_locals px1 n = Some lc" using lc send_frame_quiet(3) [OF m] by simp
    note s1 = starved_send [OF m s]
    from r s1 starved_eof [OF s1 lc1 ph] show ?thesis by (cases ok) simp_all
  next
    case False
    with run ph have "local_eof co n lc px = Some px'"
      by (auto simp: local_read_def split: sum.splits list.splits)
    with starved_eof [OF s lc ph] show ?thesis by blast
  qed
qed

text \<open>Nothing is waiting, so a delivery is the end of the connection.\<close>

lemma starved_end:
  assumes "starved pending k px" and "px_locals px n = Some lc"
  shows "starved pending k (local_end cl n lc q px)"
  by (rule starved_set [OF assms(1), of _ n "lc\<lparr>lo_phase := Gone\<rparr>"])
    (use starvedD [OF assms] in \<open>auto simp: local_end_def set_local_def starved_local_def\<close>)

lemma starved_deliver:
  assumes s: "starved pending k px" and laws: "chan_laws cl pending" and lc: "px_locals px n = Some lc"
    and run: "local_deliver cl n lc held wrote px = Some px'"
  shows "starved pending k px'"
proof -
  from run obtain u where ph: "lo_phase lc = Pumps u"
    by (auto simp: local_deliver_def split: local_phase.splits)
  show ?thesis
  proof (cases "\<exists>d q. ch_recv cl (px_chans px n) = Some (ToData d, q) \<and> isl wrote = False")
    case False
    then have "\<exists>q. px' = local_end cl n lc q px"
      using run ph by (auto simp: local_deliver_def split: option.splits to_local.splits sum.splits if_splits)
    with starved_end [OF s lc] show ?thesis by blast
  next
    case True
    then obtain d q where d: "ch_recv cl (px_chans px n) = Some (ToData d, q)" "\<not> isl wrote" by blast
    then have "pending (px_chans px n) \<noteq> []"
      using laws unfolding chan_laws_def channel_laws_def by (metis list.distinct(1))
    with starvedD [OF s lc] ph have k: "\<not> k \<le> n" by (auto simp: starved_local_def)
    from run ph d have px': "px' = set_local n (lc\<lparr>lo_sock := lo_sock lc @ d\<rparr>) (px\<lparr>px_chans := (px_chans px)(n := q)\<rparr>)"
      by (auto simp: local_deliver_def split: sum.splits)
    show ?thesis
      by (rule starved_set [OF s, of _ n "lc\<lparr>lo_sock := lo_sock lc @ d\<rparr>"]) (use k in \<open>simp_all add: px' set_local_def\<close>)
  qed
qed

lemma starved_frame_free:
  assumes s: "starved pending k px" and laws: "chan_laws cl pending" and run: "proxy_turn co cl ev px = Some px'"
    and no: "\<And>f. ev \<noteq> Gets_frame f"
  shows "starved pending k px'"
proof (cases ev)
  case (Gets_frame f)
  with no show ?thesis by blast
next
  case (Accepts rs)
  with run have "px' = snd (accept_local rs px)" by (simp add: proxy_turn_def)
  with starved_accept [OF s] show ?thesis by blast
next
  case Lan_polls
  with run starved_send [OF _ s] show ?thesis by (auto simp: proxy_turn_def lan_poll_def)
next
  case (Lan_reads p)
  with run s starved_send [OF _ s] show ?thesis by (auto simp: proxy_turn_def lan_packet_def split: if_splits)
next
  case Writer_takes
  with run have "px_chans px' = px_chans px" "px_locals px' = px_locals px" by (auto simp: proxy_turn_def split: option.splits)
  with starved_quiet [OF s] show ?thesis by blast
qed (use run starved_open [OF s laws] starved_reply [OF s] starved_read [OF s] starved_deliver [OF s laws] in
  \<open>auto simp: proxy_turn_def on_local_def split: option.splits\<close>)

text \<open>The reader never comes back, and the mode ends with the cancellation only.\<close>

lemma http_turn_reader: "http_turn co cl ev m = Some m' \<Longrightarrow> hm_reader m' \<Longrightarrow> hm_reader m"
  by (auto simp: http_turn_def split: http_event.splits if_splits)

lemma http_turn_running: "http_turn co cl ev m = Some m' \<Longrightarrow> hm_running m \<and> (hm_running m' \<longleftrightarrow> ev \<noteq> Cancel)"
  by (auto simp: http_turn_def split: http_event.splits if_splits)

lemma http_run_running: "http_run co cl evs m = Some m' \<Longrightarrow> hm_running m' \<longleftrightarrow> hm_running m \<and> Cancel \<notin> set evs"
proof (induction evs arbitrary: m)
  case (Cons ev evs)
  then obtain m1 where t: "http_turn co cl ev m = Some m1" and r: "http_run co cl evs m1 = Some m'"
    by (auto simp: bind_eq_Some_conv)
  from Cons.IH [OF r] http_turn_running [OF t] show ?case by auto
qed simp

lemma http_turn_ok:
  assumes "chan_laws cl pending" and "proxy_ok pending feed (hm_proxy m)" and "http_turn co cl ev m = Some m'"
  shows "\<exists>feed'. proxy_ok pending feed' (hm_proxy m')"
proof (cases ev)
  case (Turn e)
  with assms(3) obtain px where "proxy_turn co cl e (hm_proxy m) = Some px" and "hm_proxy m' = px"
    by (auto simp: http_turn_def split: if_splits)
  with turn_ok [OF assms(2,1)] show ?thesis by blast
next
  case Writer_ends
  with assms(3) have "hm_proxy m' = (hm_proxy m)\<lparr>px_out := ch_drop co (px_out (hm_proxy m))\<rparr>"
    by (auto simp: http_turn_def split: if_splits)
  with proxy_ok_quiet [OF assms(2), of "hm_proxy m'"] show ?thesis by auto
qed (use assms(2,3) in \<open>auto simp: http_turn_def split: if_splits\<close>)

lemma http_run_ok:
  assumes "chan_laws cl pending" and "proxy_ok pending feed (hm_proxy m)" and "http_run co cl evs m = Some m'"
  shows "\<exists>feed'. proxy_ok pending feed' (hm_proxy m')"
  using assms(2,3)
proof (induction evs arbitrary: m feed)
  case (Cons ev evs)
  then obtain m1 where t: "http_turn co cl ev m = Some m1" and r: "http_run co cl evs m1 = Some m'"
    by (auto simp: bind_eq_Some_conv)
  from http_turn_ok [OF assms(1) Cons.prems(1) t] Cons.IH r show ?case by blast
qed auto

lemma starved_turn:
  assumes s: "starved pending k (hm_proxy m)" and laws: "chan_laws cl pending" and run: "http_turn co cl ev m = Some m'"
    and lost: "\<not> hm_reader m"
  shows "starved pending k (hm_proxy m')"
proof (cases ev)
  case (Turn e)
  with run obtain px where c: "can_turn m e" and p: "proxy_turn co cl e (hm_proxy m) = Some px" and m': "hm_proxy m' = px"
    by (auto simp: http_turn_def split: if_splits)
  have "e \<noteq> Gets_frame f" for f using c lost by (auto simp: can_turn_def)
  from starved_frame_free [OF s laws p this] m' show ?thesis by simp
next
  case Writer_ends
  with run have "hm_proxy m' = (hm_proxy m)\<lparr>px_out := ch_drop co (px_out (hm_proxy m))\<rparr>"
    by (auto simp: http_turn_def split: if_splits)
  with starved_quiet [OF s, of "hm_proxy m'"] show ?thesis by simp
qed (use run s in \<open>auto simp: http_turn_def split: if_splits\<close>)

lemma starved_run:
  assumes "starved pending k (hm_proxy m)" and "chan_laws cl pending" and "http_run co cl evs m = Some m'" and "\<not> hm_reader m"
  shows "starved pending k (hm_proxy m')"
  using assms(1,3,4)
proof (induction evs arbitrary: m)
  case (Cons ev evs)
  then obtain m1 where t: "http_turn co cl ev m = Some m1" and r: "http_run co cl evs m1 = Some m'"
    by (auto simp: bind_eq_Some_conv)
  from Cons.IH [OF starved_turn [OF Cons.prems(1) assms(2) t Cons.prems(3)] r] http_turn_reader [OF t] Cons.prems(3)
  show ?case by blast
qed simp

text \<open>The turns that need no task but the accept loop and the handlers.\<close>

definition always_can :: "proxy_event \<Rightarrow> bool" where
  "always_can ev = (case ev of Gets_frame _ \<Rightarrow> False | Writer_takes \<Rightarrow> False | Lan_reads _ \<Rightarrow> False | Lan_polls \<Rightarrow> False | _ \<Rightarrow> True)"

lemma http_run_turns:
  assumes "\<forall>e \<in> set es. always_can e" and "hm_running m"
  shows "http_run co cl (map Turn es) m = map_option (\<lambda>px. m\<lparr>hm_proxy := px\<rparr>) (proxy_run co cl es (hm_proxy m))"
  using assms
proof (induction es arbitrary: m)
  case (Cons e es)
  then have "http_turn co cl (Turn e) m = map_option (\<lambda>px. m\<lparr>hm_proxy := px\<rparr>) (proxy_turn co cl e (hm_proxy m))"
    by (auto simp: http_turn_def can_turn_def always_can_def split: proxy_event.splits)
  with Cons show ?case by (cases "proxy_turn co cl e (hm_proxy m)") simp_all
qed simp

section \<open>The properties\<close>


text \<open>A link that is lost before a client comes.\<close>

definition lost_early :: "proxy_event list" where
  "lost_early = [Accepts [Inr tunnel_head], Opens 0, Replies 0 (Inr ())]"

definition lost_start :: "(frame queue, to_local queue) http_mode" where
  "lost_start = http_start queue_chan (\<lambda>_. q_channel 0) False live_default"

lemma lost_first: "http_run queue_chan queue_chan [Reader_ends] lost_start = Some (lost_start\<lparr>hm_reader := False\<rparr>)"
  by (simp add: http_turn_def lost_start_def http_start_def)

lemma lost_then:
  "\<exists>m' lc. http_run queue_chan queue_chan (map Turn lost_early) (lost_start\<lparr>hm_reader := False\<rparr>) = Some m' \<and>
    px_locals (hm_proxy m') 0 = Some lc \<and> lo_sock lc = established_reply"
proof -
  have "\<exists>px lc. proxy_run queue_chan queue_chan lost_early (proxy_start (q_channel 1024) (\<lambda>_. q_channel 0) None live_default) = Some px \<and>
      px_locals px 0 = Some lc \<and> lo_sock lc = established_reply"
    by (simp add: lost_early_def proxy_start_def proxy_turn_def accept_local_def tunnel_head_parsed on_local_def local_open_def
        local_reply_def set_local_def send_frame_def chan_send_def queue_chan_def q_channel_def q_try_send_def Let_def)
  moreover have "\<forall>e \<in> set lost_early. always_can e" by (simp add: lost_early_def always_can_def)
  ultimately show ?thesis
    using http_run_turns [of lost_early "lost_start\<lparr>hm_reader := False\<rparr>" queue_chan queue_chan]
    by (auto simp: lost_start_def http_start_def) (simp add: queue_chan_def)
qed

text \<open>C23. A proxy session does not notice that its link is lost: it goes on until the user cancels and accepts
  connections all the while, but a connection that comes after the loss is sent nothing beyond the reply to its CONNECT.\<close>

theorem lost_link_starves_clients:
  assumes "chan_laws cl pending" and "http_run co cl evs (http_start co chans lan shared) = Some m" and "\<not> hm_reader m"
    and "http_run co cl evs' m = Some m'"
  shows "(\<forall>n lc. px_locals (hm_proxy m') n = Some lc \<longrightarrow> px_next (hm_proxy m) \<le> n \<longrightarrow> prefix (lo_sock lc) established_reply) \<and>
    (hm_running m' \<longleftrightarrow> Cancel \<notin> set (evs @ evs')) \<and>
    (hm_running m' \<longrightarrow> (\<forall>rs. http_turn co cl (Turn (Accepts rs)) m' \<noteq> None))"
proof (intro conjI)
  obtain feed where ok: "proxy_ok pending feed (hm_proxy m)"
    using http_run_ok [OF assms(1) _ assms(2)] start_ok by (fastforce simp: http_start_def)
  have "starved pending (px_next (hm_proxy m)) (hm_proxy m)"
    using ok unfolding proxy_ok_def table_ok_def starved_def by (meson leD)
  from starved_run [OF this assms(1,4,3)]
  show "\<forall>n lc. px_locals (hm_proxy m') n = Some lc \<longrightarrow> px_next (hm_proxy m) \<le> n \<longrightarrow> prefix (lo_sock lc) established_reply"
    unfolding starved_def starved_local_def by blast
  show "hm_running m' \<longleftrightarrow> Cancel \<notin> set (evs @ evs')"
    using http_run_running [OF assms(2)] http_run_running [OF assms(4)] by (simp add: http_start_def)
  show "hm_running m' \<longrightarrow> (\<forall>rs. http_turn co cl (Turn (Accepts rs)) m' \<noteq> None)"
    by (simp add: http_turn_def can_turn_def proxy_turn_def)
qed

theorem lost_link_starves_clients_witness:
  "\<exists>m m' lc. http_run queue_chan queue_chan [Reader_ends] lost_start = Some m \<and> http_run queue_chan queue_chan (map Turn lost_early) m = Some m' \<and>
    px_locals (hm_proxy m') 0 = Some lc \<and> lo_sock lc = established_reply \<and> hm_running m'"
proof -
  let ?m = "lost_start\<lparr>hm_reader := False\<rparr>"
  obtain m' lc where r: "http_run queue_chan queue_chan (map Turn lost_early) ?m = Some m'" and l: "px_locals (hm_proxy m') 0 = Some lc" "lo_sock lc = established_reply"
    using lost_then by blast
  have "\<not> hm_reader ?m" by simp
  from lost_link_starves_clients [OF queue_chan_laws lost_first [unfolded lost_start_def] this [unfolded lost_start_def] r [unfolded lost_start_def]]
  have "hm_running m'" by (simp add: lost_early_def)
  with lost_first r l show ?thesis by blast
qed














end
