(* ===== verification/Tunnel.thy ===== *)
theory Tunnel
  imports Engine Server_Machine "HOL-Library.Sublist"
begin

text \<open>
  The two ends of a packet session together: the TUN reader, the uplink and the downlink of the client
  (\<open>client-core/src/engine.rs\<close>) and the frame loop, the writer task and the TUN demultiplexer of the server
  (\<open>server/src/session.rs\<close>), on two links that only promise what every transport provides. The turns of the tasks
  interleave in any order. The facts: packets of the client's TUN reach the server's TUN in order, each once and
  none missing but those still on the way, and packets of the server's TUN that belong to the session reach the
  client's TUN in order.
\<close>

section \<open>The composed system\<close>

text \<open>The writer of the bridge is the uplink, whose far end the session reads; \<open>tn_down\<close> is the downlink.\<close>

record ('b, 'l, 'k, 'q, 'r) tunnel =
  tn_bridge :: "('b, 'l) bridge"
  tn_down :: 'k
  tn_session :: session
  tn_app :: "('q, 'r) app_state"

datatype tunnel_event =
    Tun_read bytes
  | Uplink up_event
  | Server_reads
  | Server_tun bytes
  | Server_writes
  | Client_reads

text \<open>What the two programs were compiled with: channels, codec and the operations of the two links.\<close>

record ('b, 'l, 'k, 'q, 'r) tunnel_env =
  te_chan :: "('b, bytes) chan"
  te_rt :: "('q, 'r) runtime"
  te_ser :: serializer
  te_de :: deserializer
  te_up_send :: "bytes \<Rightarrow> 'l \<Rightarrow> unit res \<times> 'l"
  te_up_recv :: "'l \<Rightarrow> bytes res \<times> 'l"
  te_down_send :: "bytes \<Rightarrow> 'k \<Rightarrow> unit res \<times> 'k"
  te_down_recv :: "'k \<Rightarrow> bytes res \<times> 'k"
  te_member :: bool

text \<open>A turn of one of the tasks; \<open>None\<close> when it has nothing to do or the connection ends in it.\<close>

definition tunnel_step ::
  "('b, 'l, 'k, 'q, 'r) tunnel_env \<Rightarrow> tunnel_event \<Rightarrow> ('b, 'l, 'k, 'q, 'r) tunnel \<Rightarrow> ('b, 'l, 'k, 'q, 'r) tunnel option" where
  "tunnel_step en ev t =
     (let br = tn_bridge t; s = tn_session t; st = tn_app t in
      case ev of
        Tun_read p \<Rightarrow>
          (case tun_reader_turn (te_chan en) (Inr p) (br_out br) of
             Some (True, q) \<Rightarrow> Some (t\<lparr>tn_bridge := br\<lparr>br_out := q\<rparr>\<rparr>)
           | _ \<Rightarrow> None)
      | Uplink e \<Rightarrow>
          (case uplink_turn (te_chan en)
                  (\<lambda>f l. case frame_send (te_ser en) (te_up_send en) f l of (r, l') \<Rightarrow> (Some r, l'))
                  (te_member en) True e br of
             Some (UpGoes, br') \<Rightarrow> Some (t\<lparr>tn_bridge := br'\<rparr>)
           | _ \<Rightarrow> None)
      | Server_reads \<Rightarrow>
          (case frame_recv (te_de en) (te_up_recv en) (br_writer br) of
             (Inr f, l) \<Rightarrow>
               (case session_frame (te_rt en) s f st of
                  (s', st') \<Rightarrow> Some (t\<lparr>tn_bridge := br\<lparr>br_writer := l\<rparr>, tn_session := s', tn_app := st'\<rparr>))
           | (Inl _, _) \<Rightarrow> None)
      | Server_tun p \<Rightarrow> Some (t\<lparr>tn_app := run_tun_router (te_rt en) p st\<rparr>)
      | Server_writes \<Rightarrow>
          (case writer_task (te_rt en) (frame_send (te_ser en) (te_down_send en)) (\<lambda>k. k) (ss_id s) (tn_down t) st of
             Some (True, k, st') \<Rightarrow> Some (t\<lparr>tn_down := k, tn_app := st'\<rparr>)
           | _ \<Rightarrow> None)
      | Client_reads \<Rightarrow>
          (case frame_recv (te_de en) (te_down_recv en) (tn_down t) of
             (got, k) \<Rightarrow>
               (case downlink_turn got br of
                  Some br' \<Rightarrow> Some (t\<lparr>tn_bridge := br', tn_down := k\<rparr>)
                | None \<Rightarrow> None)))"

fun tunnel_run ::
  "('b, 'l, 'k, 'q, 'r) tunnel_env \<Rightarrow> tunnel_event list \<Rightarrow> ('b, 'l, 'k, 'q, 'r) tunnel \<Rightarrow>
   ('b, 'l, 'k, 'q, 'r) tunnel option" where
  "tunnel_run en [] t = Some t"
| "tunnel_run en (ev # evs) t = Option.bind (tunnel_step en ev t) (tunnel_run en evs)"

lemma tunnel_run_append:
  "tunnel_run en xs t = Some t1 \<Longrightarrow> tunnel_run en (xs @ ys) t = tunnel_run en ys t1"
  by (induction xs arbitrary: t) (auto simp: bind_eq_Some_conv)

section \<open>What is observed\<close>

fun packets :: "frame list \<Rightarrow> bytes list" where
  "packets [] = []"
| "packets (Packet p # fs) = p # packets fs"
| "packets (_ # fs) = packets fs"

text \<open>The packets the client read off its TUN (an empty read is none), and those of the server's TUN whose
  destination belongs to the session.\<close>

fun read_by_client :: "tunnel_event list \<Rightarrow> bytes list" where
  "read_by_client [] = []"
| "read_by_client (Tun_read p # evs) = (if p = [] then read_by_client evs else p # read_by_client evs)"
| "read_by_client (_ # evs) = read_by_client evs"

fun meant_for :: "router \<Rightarrow> nat \<Rightarrow> tunnel_event list \<Rightarrow> bytes list" where
  "meant_for r k [] = []"
| "meant_for r k (Server_tun p # evs) =
     (if Option.bind (dst_of p) (owner r) = Some k then p # meant_for r k evs else meant_for r k evs)"
| "meant_for r k (_ # evs) = meant_for r k evs"

lemma packets_append [simp]: "packets (fs @ gs) = packets fs @ packets gs"
  by (induction fs rule: packets.induct) auto

lemma read_append [simp]: "read_by_client (xs @ ys) = read_by_client xs @ read_by_client ys"
  by (induction xs rule: read_by_client.induct) auto

lemma meant_append [simp]: "meant_for r k (xs @ ys) = meant_for r k xs @ meant_for r k ys"
  by (induction xs rule: meant_for.induct) auto

section \<open>Helpers\<close>

definition routed :: "session \<Rightarrow> bool" where
  "routed s \<longleftrightarrow> \<not> is_stream (ss_mode s) \<or> ss_member s"

lemma offer_packets:
  assumes "queue_laws rt pending" and "\<And>p. f \<noteq> Packet p"
  shows "packets (pending (queues (offer rt k f st) k)) = packets (pending (queues st k))"
proof (cases "try_send_f rt (queues st k) f")
  case (Some q)
  with assms(1) have "pending q = pending (queues st k) @ [f]"
    unfolding queue_laws_def channel_laws_def by blast
  moreover have "packets [f] = []" using assms(2) by (cases f) auto
  ultimately show ?thesis using Some by (simp add: offer_def push_frame_def)
qed (simp add: offer_def push_frame_def)

text \<open>A frame never puts a packet on the session's own queue.\<close>

lemma session_frame_packets:
  assumes "queue_laws rt pending" and "session_frame rt s f st = (s', st')"
  shows "packets (pending (queues st' (ss_id s))) = packets (pending (queues st (ss_id s)))"
proof (cases f)
  case (StreamOpen i target)
  with assms show ?thesis
    by (auto simp: offer_packets open_remote_stream_def Let_def split: if_splits)
next
  case (StreamData i d)
  with assms show ?thesis
    by (auto simp: feed_remote_def Let_def split: option.splits)
qed (use assms in \<open>auto simp: offer_packets Let_def\<close>)

lemma router_packets:
  assumes "queue_laws rt pending"
  shows "subseq (packets (pending (queues (run_tun_router rt p st) k)))
    (packets (pending (queues st k)) @ (if Option.bind (dst_of p) (owner (router_of st)) = Some k then [p] else []))"
proof (cases "Option.bind (dst_of p) (owner (router_of st))")
  case (Some j)
  show ?thesis
  proof (cases "try_send_f rt (queues st j) (Packet p)")
    case (Some q)
    with assms have "pending q = pending (queues st j) @ [Packet p]"
      unfolding queue_laws_def channel_laws_def by blast
    with Some \<open>Option.bind _ _ = Some j\<close> show ?thesis
      by (simp add: run_tun_router_push push_frame_def)
  qed (use Some in \<open>simp add: run_tun_router_push push_frame_def list_emb_append_mono [of _ _ _ "[]", simplified]\<close>)
qed (simp add: run_tun_router_push)

lemma tunnel_router_frame [simp]:
  "router_of (run_tun_router rt p st) = router_of st" "tun (run_tun_router rt p st) = tun st"
  by (simp_all add: run_tun_router_push split: option.splits)

text \<open>The router and the number of the session stay.\<close>

lemma writer_task_fixed: "writer_task rt send close k w st = Some (c, w', st') \<Longrightarrow> router_of st' = router_of st"
  by (auto simp: writer_task_def Let_def split: option.splits prod.splits sum.splits if_splits)

lemma tunnel_step_fixed:
  assumes "tunnel_step en ev t = Some t'"
  shows "router_of (tn_app t') = router_of (tn_app t) \<and> ss_id (tn_session t') = ss_id (tn_session t)"
proof (cases ev)
  case Server_reads
  with assms obtain f s' st' l where "session_frame (te_rt en) (tn_session t) f (tn_app t) = (s', st')"
    and "t' = t\<lparr>tn_bridge := (tn_bridge t)\<lparr>br_writer := l\<rparr>, tn_session := s', tn_app := st'\<rparr>"
    by (auto simp: tunnel_step_def Let_def split: prod.splits sum.splits)
  then show ?thesis by (simp add: session_frame_frame)
next
  case Server_writes
  with assms show ?thesis
    by (auto simp: tunnel_step_def Let_def dest: writer_task_fixed split: option.splits prod.splits bool.splits)
qed (use assms in \<open>auto simp: tunnel_step_def Let_def split: option.splits prod.splits bool.splits up_result.splits\<close>)

section \<open>Two links of any kind\<close>

locale tunnel_links =
  u: exact_link send_u recv_u fits_u up_u carries_u + d: exact_link send_d recv_d fits_d up_d carries_d
  for send_u :: "bytes \<Rightarrow> 'l \<Rightarrow> unit res \<times> 'l" and recv_u fits_u up_u carries_u
    and send_d :: "bytes \<Rightarrow> 'k \<Rightarrow> unit res \<times> 'k" and recv_d fits_d up_d carries_d
begin

definition wired :: "('b, 'l, 'k, 'q, 'r) tunnel_env \<Rightarrow> bool" where
  "wired en \<longleftrightarrow> te_up_send en = send_u \<and> te_up_recv en = recv_u \<and> te_down_send en = send_d \<and> te_down_recv en = recv_d \<and>
     codec_laws (te_ser en) (te_de en)"

text \<open>\<open>base\<close> is what the server's TUN held at the start, \<open>ins\<close> and \<open>meant\<close> what came in at the two ends since.\<close>

definition tunnel_ok ::
  "('b, 'l, 'k, 'q, 'r) tunnel_env \<Rightarrow> ('b \<Rightarrow> bytes list) \<Rightarrow> ('q \<Rightarrow> frame list) \<Rightarrow> bytes list \<Rightarrow> bytes list \<Rightarrow> bytes list \<Rightarrow>
   ('b, 'l, 'k, 'q, 'r) tunnel \<Rightarrow> bool" where
  "tunnel_ok en buffered pending base ins meant t \<longleftrightarrow>
     (\<exists>fu fd sent. u.carries_frames (te_ser en) (br_writer (tn_bridge t)) fu \<and> up_u (br_writer (tn_bridge t)) \<and>
        d.carries_frames (te_ser en) (tn_down t) fd \<and> up_d (tn_down t) \<and> routed (tn_session t) \<and>
        tun (tn_app t) = Some (base @ sent) \<and> sent @ packets fu @ buffered (br_out (tn_bridge t)) = ins \<and>
        subseq (br_tun (tn_bridge t) @ packets fd @ packets (pending (queues (tn_app t) (ss_id (tn_session t))))) meant)"

lemma tunnel_okE:
  assumes "tunnel_ok en buffered pending base ins meant t"
  obtains fu fd sent where
    "u.carries_frames (te_ser en) (br_writer (tn_bridge t)) fu" "up_u (br_writer (tn_bridge t))"
    "d.carries_frames (te_ser en) (tn_down t) fd" "up_d (tn_down t)" "routed (tn_session t)"
    "tun (tn_app t) = Some (base @ sent)" "sent @ packets fu @ buffered (br_out (tn_bridge t)) = ins"
    "subseq (br_tun (tn_bridge t) @ packets fd @ packets (pending (queues (tn_app t) (ss_id (tn_session t))))) meant"
  using assms unfolding tunnel_ok_def by blast

lemma read_step:
  assumes "chan_laws (te_chan en) buffered" and "tunnel_ok en buffered pending base ins meant t"
    and "tunnel_step en (Tun_read p) t = Some t'"
  shows "tunnel_ok en buffered pending base (ins @ read_by_client [Tun_read p]) meant t'"
proof -
  from assms(3) obtain q where q: "tun_reader_turn (te_chan en) (Inr p) (br_out (tn_bridge t)) = Some (True, q)"
    and t': "t' = t\<lparr>tn_bridge := (tn_bridge t)\<lparr>br_out := q\<rparr>\<rparr>"
    by (auto simp: tunnel_step_def Let_def split: option.splits prod.splits bool.splits)
  have "buffered q = buffered (br_out (tn_bridge t)) @ read_by_client [Tun_read p]"
    using q assms(1) by (auto simp: tun_reader_turn_def chan_laws_def channel_laws_def split: if_splits)
  with assms(2) t' show ?thesis by (auto simp: tunnel_ok_def)
qed

lemma up_send_step:
  assumes "wired en" and "u.carries_frames (te_ser en) (br_writer br) fu" and "up_u (br_writer br)"
    and "up_send (\<lambda>f l. case frame_send (te_ser en) send_u f l of (r, l') \<Rightarrow> (Some r, l')) f tally br = (UpGoes, br')"
  shows "u.carries_frames (te_ser en) (br_writer br') (fu @ [f])" and "up_u (br_writer br')"
    and "br_out br' = br_out br" and "br_tun br' = br_tun br"
proof -
  from assms(4) obtain x l' where s: "frame_send (te_ser en) send_u f (br_writer br) = (Inr x, l')"
    and br': "br' = br\<lparr>br_writer := l', br_status := tally (br_status br)\<rparr>"
    by (auto simp: up_send_def split: prod.splits option.splits sum.splits)
  from u.sent_frame [OF _ assms(2,3) s, of "te_de en"] assms(1) have
    "up_u l' \<and> u.carries_frames (te_ser en) l' (fu @ [f])" by (simp add: wired_def)
  with br' show "u.carries_frames (te_ser en) (br_writer br') (fu @ [f])" "up_u (br_writer br')"
    "br_out br' = br_out br" "br_tun br' = br_tun br" by simp_all
qed

lemma uplink_step:
  assumes "wired en" and "chan_laws (te_chan en) buffered" and ok: "tunnel_ok en buffered pending base ins meant t"
    and step: "tunnel_step en (Uplink e) t = Some t'"
  shows "tunnel_ok en buffered pending base ins meant t'"
proof -
  let ?send = "\<lambda>f l. case frame_send (te_ser en) send_u f l of (r, l') \<Rightarrow> (Some r, l')"
  from step assms(1) obtain br' where turn: "uplink_turn (te_chan en) ?send (te_member en) True e (tn_bridge t) = Some (UpGoes, br')"
    and t': "t' = t\<lparr>tn_bridge := br'\<rparr>"
    by (auto simp: tunnel_step_def wired_def Let_def split: option.splits prod.splits up_result.splits)
  from ok obtain fu fd sent where c: "u.carries_frames (te_ser en) (br_writer (tn_bridge t)) fu" "up_u (br_writer (tn_bridge t))"
    and rest: "d.carries_frames (te_ser en) (tn_down t) fd" "up_d (tn_down t)" "routed (tn_session t)"
      "tun (tn_app t) = Some (base @ sent)"
      "subseq (br_tun (tn_bridge t) @ packets fd @ packets (pending (queues (tn_app t) (ss_id (tn_session t))))) meant"
    and ins: "sent @ packets fu @ buffered (br_out (tn_bridge t)) = ins"
    by (rule tunnel_okE)
  have "\<exists>f tally q. up_send ?send f tally ((tn_bridge t)\<lparr>br_out := q\<rparr>) = (UpGoes, br') \<and>
      packets [f] @ buffered q = buffered (br_out (tn_bridge t))"
  proof (cases e)
    case KeepaliveTick
    with turn show ?thesis
      by (intro exI [of _ Ping] exI [of _ "\<lambda>s. s"] exI [of _ "br_out (tn_bridge t)"]) (simp add: uplink_turn_def)
  next
    case PeersTick
    with turn show ?thesis
      by (intro exI [of _ GetPeers] exI [of _ "\<lambda>s. s"] exI [of _ "br_out (tn_bridge t)"])
        (simp add: uplink_turn_def split: if_splits)
  next
    case BufferReady
    with turn obtain p q where r: "ch_recv (te_chan en) (br_out (tn_bridge t)) = Some (p, q)"
      and s: "up_send ?send (Packet p) (add_traffic_up (length p)) ((tn_bridge t)\<lparr>br_out := q\<rparr>) = (UpGoes, br')"
      by (auto simp: uplink_turn_def split: option.splits)
    from r assms(2) have "buffered (br_out (tn_bridge t)) = p # buffered q"
      unfolding chan_laws_def channel_laws_def by blast
    with s show ?thesis by fastforce
  qed
  then obtain f tally q where s: "up_send ?send f tally ((tn_bridge t)\<lparr>br_out := q\<rparr>) = (UpGoes, br')"
    and q: "packets [f] @ buffered q = buffered (br_out (tn_bridge t))" by blast
  have "packets (fu @ [f]) @ buffered (br_out br') = packets fu @ buffered (br_out (tn_bridge t))"
    using up_send_step(3) [OF assms(1) _ _ s, of fu] c q by simp
  then show ?thesis
    using up_send_step [OF assms(1) _ _ s, of fu] c rest ins t' unfolding tunnel_ok_def
    by (intro exI [of _ "fu @ [f]"] exI [of _ fd] exI [of _ sent]) simp
qed

lemma server_reads_step:
  assumes "wired en" and "queue_laws (te_rt en) pending" and "tunnel_ok en buffered pending base ins meant t"
    and "tunnel_step en Server_reads t = Some t'"
  shows "tunnel_ok en buffered pending base ins meant t'"
proof -
  from assms(4,1) obtain f l s' st' where r: "frame_recv (te_de en) recv_u (br_writer (tn_bridge t)) = (Inr f, l)"
    and sf: "session_frame (te_rt en) (tn_session t) f (tn_app t) = (s', st')"
    and t': "t' = t\<lparr>tn_bridge := (tn_bridge t)\<lparr>br_writer := l\<rparr>, tn_session := s', tn_app := st'\<rparr>"
    by (auto simp: tunnel_step_def wired_def Let_def split: prod.splits sum.splits)
  from assms(3) obtain fu fd sent where c: "u.carries_frames (te_ser en) (br_writer (tn_bridge t)) fu" "up_u (br_writer (tn_bridge t))"
    and rest: "d.carries_frames (te_ser en) (tn_down t) fd" "up_d (tn_down t)" and ro: "routed (tn_session t)"
    and tu: "tun (tn_app t) = Some (base @ sent)"
    and sub: "subseq (br_tun (tn_bridge t) @ packets fd @ packets (pending (queues (tn_app t) (ss_id (tn_session t))))) meant"
    and ins: "sent @ packets fu @ buffered (br_out (tn_bridge t)) = ins"
    by (rule tunnel_okE)
  from u.received_frame [OF _ c r] assms(1) obtain q where fu: "fu = f # q"
    and l: "up_u l" "u.carries_frames (te_ser en) l q" unfolding wired_def by blast
  have same: "ss_id s' = ss_id (tn_session t)" "routed s'"
    using session_frame_frame [OF sf] ro by (simp_all add: routed_def)
  have "tun st' = Some (base @ sent @ packets [f])"
    using session_frame_tun [OF sf] tu ro by (cases f) (simp_all add: routed_def)
  with same l fu rest sub ins t' session_frame_packets [OF assms(2) sf] show ?thesis
    unfolding tunnel_ok_def
    by (intro exI [of _ q] exI [of _ fd] exI [of _ "sent @ packets [f]"]) (cases f; simp)
qed

lemma server_tun_step:
  assumes "queue_laws (te_rt en) pending" and "tunnel_ok en buffered pending base ins meant t"
    and "tunnel_step en (Server_tun p) t = Some t'"
  shows "tunnel_ok en buffered pending base ins
    (meant @ meant_for (router_of (tn_app t)) (ss_id (tn_session t)) [Server_tun p]) t'"
proof -
  let ?k = "ss_id (tn_session t)"
  from assms(3) have t': "t' = t\<lparr>tn_app := run_tun_router (te_rt en) p (tn_app t)\<rparr>"
    by (simp add: tunnel_step_def Let_def)
  from assms(2) obtain fu fd sent where rest: "u.carries_frames (te_ser en) (br_writer (tn_bridge t)) fu" "up_u (br_writer (tn_bridge t))"
      "d.carries_frames (te_ser en) (tn_down t) fd" "up_d (tn_down t)" "routed (tn_session t)" "tun (tn_app t) = Some (base @ sent)"
      "sent @ packets fu @ buffered (br_out (tn_bridge t)) = ins"
    and sub: "subseq (br_tun (tn_bridge t) @ packets fd @ packets (pending (queues (tn_app t) ?k))) meant"
    by (rule tunnel_okE)
  have "subseq ((br_tun (tn_bridge t) @ packets fd) @ packets (pending (queues (run_tun_router (te_rt en) p (tn_app t)) ?k)))
      ((br_tun (tn_bridge t) @ packets fd) @ packets (pending (queues (tn_app t) ?k)) @
        meant_for (router_of (tn_app t)) ?k [Server_tun p])"
    by (rule list_emb_append_mono [OF subseq_order.order_refl])
      (use router_packets [OF assms(1), of p "tn_app t" ?k] in \<open>auto split: if_splits\<close>)
  moreover have "subseq \<dots> (meant @ meant_for (router_of (tn_app t)) ?k [Server_tun p])"
    using list_emb_append_mono [OF sub subseq_order.order_refl] by simp
  ultimately have "subseq (br_tun (tn_bridge t) @ packets fd @
      packets (pending (queues (run_tun_router (te_rt en) p (tn_app t)) ?k)))
      (meant @ meant_for (router_of (tn_app t)) ?k [Server_tun p])"
    using subseq_order.order_trans by fastforce
  with rest t' show ?thesis
    unfolding tunnel_ok_def by (intro exI [of _ fu] exI [of _ fd] exI [of _ sent]) simp
qed

lemma server_writes_step:
  assumes "wired en" and "queue_laws (te_rt en) pending" and "tunnel_ok en buffered pending base ins meant t"
    and "tunnel_step en Server_writes t = Some t'"
  shows "tunnel_ok en buffered pending base ins meant t'"
proof -
  let ?k = "ss_id (tn_session t)"
  from assms(4,1) obtain k st' where
    w: "writer_task (te_rt en) (frame_send (te_ser en) send_d) (\<lambda>k. k) ?k (tn_down t) (tn_app t) = Some (True, k, st')"
    and t': "t' = t\<lparr>tn_down := k, tn_app := st'\<rparr>"
    by (auto simp: tunnel_step_def wired_def Let_def split: option.splits prod.splits bool.splits)
  from w obtain f q x where q: "recv_f (te_rt en) (queues (tn_app t) ?k) = Some (f, q)"
    and s: "frame_send (te_ser en) send_d f (tn_down t) = (Inr x, k)"
    and st': "queues st' ?k = q" "tun st' = tun (tn_app t)"
    by (auto simp: writer_task_def Let_def split: option.splits prod.splits sum.splits if_splits)
  from assms(3) obtain fu fd sent where rest: "u.carries_frames (te_ser en) (br_writer (tn_bridge t)) fu" "up_u (br_writer (tn_bridge t))"
      "routed (tn_session t)" "tun (tn_app t) = Some (base @ sent)" "sent @ packets fu @ buffered (br_out (tn_bridge t)) = ins"
    and d: "d.carries_frames (te_ser en) (tn_down t) fd" "up_d (tn_down t)"
    and sub: "subseq (br_tun (tn_bridge t) @ packets fd @ packets (pending (queues (tn_app t) ?k))) meant"
    by (rule tunnel_okE)
  from d.sent_frame [OF _ d s] assms(1) have k: "up_d k" "d.carries_frames (te_ser en) k (fd @ [f])"
    unfolding wired_def by blast+
  from q assms(2) have "pending (queues (tn_app t) ?k) = f # pending q"
    unfolding queue_laws_def channel_laws_def by blast
  then have "packets fd @ packets (pending (queues (tn_app t) ?k)) = packets (fd @ [f]) @ packets (pending q)"
    using packets_append [of "[f]" "pending q"] by simp
  with rest sub k t' st' show ?thesis
    unfolding tunnel_ok_def by (intro exI [of _ fu] exI [of _ "fd @ [f]"] exI [of _ sent]) simp
qed

lemma client_reads_step:
  assumes "wired en" and "tunnel_ok en buffered pending base ins meant t" and "tunnel_step en Client_reads t = Some t'"
  shows "tunnel_ok en buffered pending base ins meant t'"
proof -
  from assms(3,1) obtain f k br' where r: "frame_recv (te_de en) recv_d (tn_down t) = (Inr f, k)"
    and turn: "downlink_turn (Inr f) (tn_bridge t) = Some br'" and t': "t' = t\<lparr>tn_bridge := br', tn_down := k\<rparr>"
    by (auto simp: tunnel_step_def wired_def Let_def downlink_turn_def split: prod.splits option.splits sum.splits)
  from turn have br': "br_tun br' = br_tun (tn_bridge t) @ packets [f]" "br_out br' = br_out (tn_bridge t)"
    "br_writer br' = br_writer (tn_bridge t)"
    by (cases f; auto simp: downlink_turn_def)+
  from assms(2) obtain fu fd sent where rest: "u.carries_frames (te_ser en) (br_writer (tn_bridge t)) fu" "up_u (br_writer (tn_bridge t))"
      "routed (tn_session t)" "tun (tn_app t) = Some (base @ sent)" "sent @ packets fu @ buffered (br_out (tn_bridge t)) = ins"
    and d: "d.carries_frames (te_ser en) (tn_down t) fd" "up_d (tn_down t)"
    and sub: "subseq (br_tun (tn_bridge t) @ packets fd @ packets (pending (queues (tn_app t) (ss_id (tn_session t))))) meant"
    by (rule tunnel_okE)
  from d.received_frame [OF _ d r] assms(1) obtain q where q: "fd = f # q" "up_d k" "d.carries_frames (te_ser en) k q"
    unfolding wired_def by blast
  have "packets fd = packets [f] @ packets q" using q(1) packets_append [of "[f]" q] by simp
  with rest sub q t' br' show ?thesis
    unfolding tunnel_ok_def by (intro exI [of _ fu] exI [of _ q] exI [of _ sent]) simp
qed

lemma tunnel_step_ok:
  assumes "wired en" and "chan_laws (te_chan en) buffered" and "queue_laws (te_rt en) pending"
    and "tunnel_ok en buffered pending base ins meant t" and "tunnel_step en ev t = Some t'"
  shows "tunnel_ok en buffered pending base (ins @ read_by_client [ev])
    (meant @ meant_for (router_of (tn_app t)) (ss_id (tn_session t)) [ev]) t'"
proof (cases ev)
  case (Tun_read p)
  with read_step [OF assms(2,4)] assms(5) show ?thesis by (simp split: if_splits)
next
  case (Uplink e)
  with uplink_step [OF assms(1,2,4)] assms(5) show ?thesis by simp
next
  case Server_reads
  with server_reads_step [OF assms(1,3,4)] assms(5) show ?thesis by simp
next
  case (Server_tun p)
  with server_tun_step [OF assms(3,4)] assms(5) show ?thesis by simp
next
  case Server_writes
  with server_writes_step [OF assms(1,3,4)] assms(5) show ?thesis by simp
next
  case Client_reads
  with client_reads_step [OF assms(1,4)] assms(5) show ?thesis by simp
qed

lemma tunnel_run_ok:
  assumes "wired en" and "chan_laws (te_chan en) buffered" and "queue_laws (te_rt en) pending"
    and "tunnel_ok en buffered pending base ins meant t" and "tunnel_run en evs t = Some t'"
  shows "tunnel_ok en buffered pending base (ins @ read_by_client evs)
    (meant @ meant_for (router_of (tn_app t)) (ss_id (tn_session t)) evs) t'"
  using assms(4,5)
proof (induction evs arbitrary: t ins meant)
  case (Cons ev evs)
  then obtain t1 where s: "tunnel_step en ev t = Some t1" and r: "tunnel_run en evs t1 = Some t'"
    by (auto simp: bind_eq_Some_conv)
  from Cons.IH [OF tunnel_step_ok [OF assms(1-3) Cons.prems(1) s] r] tunnel_step_fixed [OF s] show ?case
    using read_append [of "[ev]" evs] meant_append [of "router_of (tn_app t)" "ss_id (tn_session t)" "[ev]" evs] by simp
qed simp

text \<open>Whatever is on its way up can be brought to the server's TUN: first the buffer is sent, then the link is read.\<close>

definition sendable :: "serializer \<Rightarrow> bytes \<Rightarrow> bool" where
  "sendable ser p \<longleftrightarrow> (\<exists>bs. ser (Packet p) = Inr bs \<and> fits_u bs)"

lemma buffer_can_be_sent:
  assumes "wired en" and "chan_laws (te_chan en) buffered" and "tunnel_ok en buffered pending base ins meant t"
    and "list_all (sendable (te_ser en)) (buffered (br_out (tn_bridge t)))"
  shows "\<exists>t'. tunnel_run en (replicate (length (buffered (br_out (tn_bridge t)))) (Uplink BufferReady)) t = Some t' \<and>
    buffered (br_out (tn_bridge t')) = [] \<and> tunnel_ok en buffered pending base ins meant t'"
  using assms(3,4)
proof (induction "buffered (br_out (tn_bridge t))" arbitrary: t)
  case Nil
  then show ?case by simp
next
  case (Cons p ps)
  from assms(2) have "ch_recv (te_chan en) (br_out (tn_bridge t)) = None \<longrightarrow> buffered (br_out (tn_bridge t)) = []"
    and rec: "\<And>m q. ch_recv (te_chan en) (br_out (tn_bridge t)) = Some (m, q) \<Longrightarrow>
       buffered (br_out (tn_bridge t)) = m # buffered q"
    unfolding chan_laws_def channel_laws_def by blast+
  with Cons.hyps(2) obtain q where q: "ch_recv (te_chan en) (br_out (tn_bridge t)) = Some (p, q)" "buffered q = ps"
    by (cases "ch_recv (te_chan en) (br_out (tn_bridge t))") fastforce+
  from Cons.prems(1) obtain fu where c: "u.carries_frames (te_ser en) (br_writer (tn_bridge t)) fu"
    "up_u (br_writer (tn_bridge t))" by (rule tunnel_okE)
  from Cons.prems(2) have "sendable (te_ser en) p" by (simp add: Cons.hyps(2) [symmetric])
  with assms(1) have "transportable (te_ser en) (te_de en) fits_u (Packet p)"
    by (auto simp: sendable_def wired_def codec_laws_def transportable_def)
  from u.frame_send_carries [OF c this] obtain l where
    s: "frame_send (te_ser en) send_u (Packet p) (br_writer (tn_bridge t)) = (Inr (), l)" by blast
  let ?br = "(tn_bridge t)\<lparr>br_out := q, br_writer := l, br_status := add_traffic_up (length p) (br_status (tn_bridge t))\<rparr>"
  let ?t = "t\<lparr>tn_bridge := ?br\<rparr>"
  have step: "tunnel_step en (Uplink BufferReady) t = Some ?t"
    using q s assms(1) by (simp add: tunnel_step_def uplink_turn_def up_send_def wired_def Let_def)
  have ok: "tunnel_ok en buffered pending base ins meant ?t"
    by (rule uplink_step [OF assms(1,2) Cons.prems(1) step])
  have "list_all (sendable (te_ser en)) (buffered (br_out (tn_bridge ?t)))"
    using Cons.prems(2) q(2) by (simp add: Cons.hyps(2) [symmetric])
  with Cons.hyps(1) [of ?t] ok q(2) obtain t' where
    "tunnel_run en (replicate (length ps) (Uplink BufferReady)) ?t = Some t'"
    "buffered (br_out (tn_bridge t')) = []" "tunnel_ok en buffered pending base ins meant t'" by auto
  with step Cons.hyps(2) [symmetric] show ?case by auto
qed

lemma link_can_be_read:
  assumes "wired en" and "queue_laws (te_rt en) pending" and "tunnel_ok en buffered pending base ins meant t"
    and "buffered (br_out (tn_bridge t)) = []"
  shows "\<exists>n t'. tunnel_run en (replicate n Server_reads) t = Some t' \<and> tun (tn_app t') = Some (base @ ins)"
proof -
  have "u.carries_frames (te_ser en) (br_writer (tn_bridge t)) fu \<Longrightarrow> tunnel_ok en buffered pending base ins meant t \<Longrightarrow>
      buffered (br_out (tn_bridge t)) = [] \<Longrightarrow>
      \<exists>n t'. tunnel_run en (replicate n Server_reads) t = Some t' \<and>
        u.carries_frames (te_ser en) (br_writer (tn_bridge t')) [] \<and>
        buffered (br_out (tn_bridge t')) = [] \<and> tunnel_ok en buffered pending base ins meant t'" for fu
  proof (induction fu arbitrary: t)
    case Nil
    then show ?case by (intro exI [of _ 0]) simp
  next
    case (Cons f fu)
    from Cons.prems(2) have up: "up_u (br_writer (tn_bridge t))" by (rule tunnel_okE)
    have codec: "codec_laws (te_ser en) (te_de en)" using assms(1) by (simp add: wired_def)
    from u.receivable_frame [OF codec Cons.prems(1) up] obtain l where
      r: "frame_recv (te_de en) recv_u (br_writer (tn_bridge t)) = (Inr f, l)" by blast
    from u.received_frame [OF codec Cons.prems(1) up r] have l: "u.carries_frames (te_ser en) l fu" by auto
    obtain s' st' where sf: "session_frame (te_rt en) (tn_session t) f (tn_app t) = (s', st')" by (meson surj_pair)
    let ?t = "t\<lparr>tn_bridge := (tn_bridge t)\<lparr>br_writer := l\<rparr>, tn_session := s', tn_app := st'\<rparr>"
    have step: "tunnel_step en Server_reads t = Some ?t"
      using r sf assms(1) by (simp add: tunnel_step_def wired_def Let_def)
    have "tunnel_ok en buffered pending base ins meant ?t"
      by (rule server_reads_step [OF assms(1,2) Cons.prems(2) step])
    with Cons.IH [of ?t] l Cons.prems(3) obtain n t' where "tunnel_run en (replicate n Server_reads) ?t = Some t'"
      "u.carries_frames (te_ser en) (br_writer (tn_bridge t')) []"
      "buffered (br_out (tn_bridge t')) = []" "tunnel_ok en buffered pending base ins meant t'" by auto
    with step show ?case by (intro exI [of _ "Suc n"]) auto
  qed
  with assms(3,4) obtain n t' where n: "tunnel_run en (replicate n Server_reads) t = Some t'"
    and e: "u.carries_frames (te_ser en) (br_writer (tn_bridge t')) []"
    and b: "buffered (br_out (tn_bridge t')) = []" and ok: "tunnel_ok en buffered pending base ins meant t'"
    by (metis tunnel_okE)
  from ok obtain fu sent where fu: "u.carries_frames (te_ser en) (br_writer (tn_bridge t')) fu" "up_u (br_writer (tn_bridge t'))"
    and s: "tun (tn_app t') = Some (base @ sent)" "sent @ packets fu @ buffered (br_out (tn_bridge t')) = ins"
    by (rule tunnel_okE)
  have "fu = []"
  proof (cases fu)
    case (Cons f q)
    have codec: "codec_laws (te_ser en) (te_de en)" using assms(1) by (simp add: wired_def)
    from u.receivable_frame [OF codec fu(1) [unfolded Cons] fu(2)] obtain l where
      r: "frame_recv (te_de en) recv_u (br_writer (tn_bridge t')) = (Inr f, l)" by blast
    from u.received_frame [OF _ e fu(2) r] assms(1) show ?thesis by (simp add: wired_def)
  qed
  with n s b show ?thesis by auto
qed

lemma uplink_drains:
  assumes "wired en" and "chan_laws (te_chan en) buffered" and "queue_laws (te_rt en) pending"
    and "tunnel_ok en buffered pending base ins meant t"
    and "list_all (sendable (te_ser en)) (buffered (br_out (tn_bridge t)))"
  shows "\<exists>n m t'. tunnel_run en (replicate n (Uplink BufferReady) @ replicate m Server_reads) t = Some t' \<and>
    tun (tn_app t') = Some (base @ ins)"
  using buffer_can_be_sent [OF assms(1,2,4,5)] link_can_be_read [OF assms(1,3)]
  by (metis tunnel_run_append)

end

interpretation ld_tunnel: tunnel_links
  "\<lambda>m. pipe_write (ld_send m)" "pipe_read ld_recv" ld_fits pipe_up ld_carries
  "\<lambda>m. pipe_write (ld_send m)" "pipe_read ld_recv" ld_fits pipe_up ld_carries
  by unfold_locales

interpretation ws_tunnel: tunnel_links ws_send ws_recv "\<lambda>_. True" ws_up ws_carries ws_send ws_recv "\<lambda>_. True" ws_up ws_carries
  by unfold_locales

interpretation quic_tunnel: tunnel_links
  "\<lambda>m. pipe_write (quic_send qe m)" "pipe_read (quic_recv qe)" ld_fits pipe_up ld_carries
  "\<lambda>m. pipe_write (quic_send qe m)" "pipe_read (quic_recv qe)" ld_fits pipe_up ld_carries
  for qe
  by unfold_locales

lemma noise_tunnel_links:
  assumes "aead_laws wm rm in_step"
  shows "tunnel_links (noise_link_send wm) (noise_link_recv rm) noise_fits noise_up (noise_carries wm in_step)
    (noise_link_send wm) (noise_link_recv rm) noise_fits noise_up (noise_carries wm in_step)"
  by (intro tunnel_links.intro noise_exact_link [OF assms])

section \<open>Fresh tunnels\<close>

text \<open>A session right after the welcome: nothing on either link, in the buffer or in the queue.\<close>

definition fresh_tunnel ::
  "('l \<Rightarrow> bool) \<Rightarrow> ('l \<Rightarrow> bytes list \<Rightarrow> bool) \<Rightarrow> ('k \<Rightarrow> bool) \<Rightarrow> ('k \<Rightarrow> bytes list \<Rightarrow> bool) \<Rightarrow> ('b \<Rightarrow> bytes list) \<Rightarrow>
   ('q \<Rightarrow> frame list) \<Rightarrow> bytes list \<Rightarrow> ('b, 'l, 'k, 'q, 'r) tunnel \<Rightarrow> bool" where
  "fresh_tunnel up_u carries_u up_d carries_d buffered pending base t \<longleftrightarrow>
     up_u (br_writer (tn_bridge t)) \<and> carries_u (br_writer (tn_bridge t)) [] \<and> up_d (tn_down t) \<and> carries_d (tn_down t) [] \<and>
     routed (tn_session t) \<and> tun (tn_app t) = Some base \<and> buffered (br_out (tn_bridge t)) = [] \<and>
     br_tun (tn_bridge t) = [] \<and> pending (queues (tn_app t) (ss_id (tn_session t))) = []"

lemma fresh_tunnel_ok:
  assumes "exact_link (te_up_send en) (te_up_recv en) fits_u up_u carries_u"
    and "exact_link (te_down_send en) (te_down_recv en) fits_d up_d carries_d"
    and "codec_laws (te_ser en) (te_de en)" and "fresh_tunnel up_u carries_u up_d carries_d buffered pending base t"
  shows "tunnel_links (te_up_send en) (te_up_recv en) fits_u up_u carries_u
      (te_down_send en) (te_down_recv en) fits_d up_d carries_d"
    and "tunnel_links.wired (te_up_send en) (te_up_recv en) (te_down_send en) (te_down_recv en) en"
    and "tunnel_links.tunnel_ok up_u carries_u up_d carries_d en buffered pending base [] [] t"
proof -
  show l: "tunnel_links (te_up_send en) (te_up_recv en) fits_u up_u carries_u
      (te_down_send en) (te_down_recv en) fits_d up_d carries_d"
    by (rule tunnel_links.intro [OF assms(1,2)])
  show "tunnel_links.wired (te_up_send en) (te_up_recv en) (te_down_send en) (te_down_recv en) en"
    using assms(3) by (simp add: tunnel_links.wired_def [OF l])
  have "message_link.carries_frames carries_u (te_ser en) x []" if "carries_u x []" for x
    using that message_link.carries_frames_def [OF exact_link.axioms(1) [OF assms(1)]] by auto
  moreover have "message_link.carries_frames carries_d (te_ser en) x []" if "carries_d x []" for x
    using that message_link.carries_frames_def [OF exact_link.axioms(1) [OF assms(2)]] by auto
  ultimately show "tunnel_links.tunnel_ok up_u carries_u up_d carries_d en buffered pending base [] [] t"
    using assms(4) unfolding tunnel_links.tunnel_ok_def [OF l] fresh_tunnel_def
    by (intro exI [of _ "[]"]) simp
qed

section \<open>A concrete tunnel\<close>

text \<open>A tunnel of two length-delimited pipes with one routed session.\<close>

lemma tag_codec: "codec_laws tag_ser tag_de"
proof -
  have "tag_de bs = Inr f" if "tag_ser f = Inr bs" for f bs
    using that by (cases f) auto
  then show ?thesis by (simp add: codec_laws_def)
qed

definition demo_env :: "(bytes queue, pipe, pipe, frame queue, bytes queue) tunnel_env" where
  "demo_env = \<lparr>te_chan = queue_chan, te_rt = bounded_rt, te_ser = tag_ser, te_de = tag_de,
     te_up_send = (\<lambda>m. pipe_write (ld_send m)), te_up_recv = pipe_read ld_recv,
     te_down_send = (\<lambda>m. pipe_write (ld_send m)), te_down_recv = pipe_read ld_recv, te_member = False\<rparr>"

definition demo_tunnel :: "(bytes queue, pipe, pipe, frame queue, bytes queue) tunnel" where
  "demo_tunnel = \<lparr>tn_bridge = \<lparr>br_out = q_channel 8, br_writer = empty_pipe, br_tun = [], br_status = live_default\<rparr>,
     tn_down = empty_pipe, tn_session = demo_session,
     tn_app = (app run_w2)\<lparr>tun := Some [[9]], queues := (\<lambda>_. q_channel 8)\<rparr>\<rparr>"

lemma demo_fresh: "fresh_tunnel pipe_up ld_carries pipe_up ld_carries q_pending q_pending [[9]] demo_tunnel"
  by (simp add: fresh_tunnel_def demo_tunnel_def empty_pipe_ld routed_def demo_session_mode q_channel_def q_pending_def
      is_stream_def)

lemma demo_links:
  "exact_link (te_up_send demo_env) (te_up_recv demo_env) ld_fits pipe_up ld_carries"
  "exact_link (te_down_send demo_env) (te_down_recv demo_env) ld_fits pipe_up ld_carries"
  "codec_laws (te_ser demo_env) (te_de demo_env)" "chan_laws (te_chan demo_env) q_pending" "queue_laws (te_rt demo_env) q_pending"
  using ld_exact.exact_link_axioms tag_codec queue_chan_laws bounded_rt_laws by (simp_all add: demo_env_def)

definition demo_events :: "tunnel_event list" where
  "demo_events = [Tun_read [69, 1], Uplink BufferReady, Tun_read [70], Server_reads]"

lemma demo_run: "tunnel_run demo_env demo_events demo_tunnel \<noteq> None"
  by (simp add: demo_events_def demo_tunnel_def demo_env_def tunnel_step_def tun_reader_turn_def uplink_turn_def up_send_def
      queue_chan_def q_channel_def q_try_send_def q_recv_def frame_send_def frame_recv_def Let_def empty_pipe_def
      pipe_write_def pipe_read_def ld_send_def ld_recv_def MAX_MESSAGE_LEN_def write_u32_def read_u32_def read_exact_def be32_def un32_def flush_def)

section \<open>The properties\<close>

text \<open>C1. Over any transport and any interleaving of the tasks of both ends: what the session adds to the server's TUN
  is, packet for packet, a prefix of what the client read off its TUN (none lost, doubled, changed or reordered),
  and what arrives at the client's TUN is a subsequence, in order, of the packets of the server's TUN that belong
  to the session (the session queue may overflow, nothing else loses packets).\<close>

theorem tunnel_in_order:
  assumes "exact_link (te_up_send en) (te_up_recv en) fits_u up_u carries_u"
    and "exact_link (te_down_send en) (te_down_recv en) fits_d up_d carries_d"
    and "codec_laws (te_ser en) (te_de en)" and "chan_laws (te_chan en) buffered" and "queue_laws (te_rt en) pending"
    and "fresh_tunnel up_u carries_u up_d carries_d buffered pending base t"
    and "tunnel_run en evs t = Some t'"
  shows "\<exists>sent. tun (tn_app t') = Some (base @ sent) \<and> prefix sent (read_by_client evs) \<and>
    subseq (br_tun (tn_bridge t')) (meant_for (router_of (tn_app t)) (ss_id (tn_session t)) evs)"
proof -
  note start = fresh_tunnel_ok [OF assms(1-3,6)]
  from tunnel_links.tunnel_run_ok [OF start(1,2) assms(4,5) start(3) assms(7)] obtain fu fd sent where
    "tun (tn_app t') = Some (base @ sent)" "sent @ packets fu @ buffered (br_out (tn_bridge t')) = read_by_client evs"
    "subseq (br_tun (tn_bridge t') @ packets fd @ packets (pending (queues (tn_app t') (ss_id (tn_session t')))))
       (meant_for (router_of (tn_app t)) (ss_id (tn_session t)) evs)"
    unfolding tunnel_links.tunnel_ok_def [OF start(1)] by auto
  then show ?thesis
    by (metis prefixI prefix_imp_subseq subseq_order.order_trans)
qed

theorem tunnel_in_order_witness:
  "\<exists>t' sent. tunnel_run demo_env demo_events demo_tunnel = Some t' \<and> tun (tn_app t') = Some ([9] # sent) \<and>
    prefix sent [[69, 1], [70]] \<and> br_tun (tn_bridge t') = []"
proof -
  from demo_run obtain t' where r: "tunnel_run demo_env demo_events demo_tunnel = Some t'" by blast
  from tunnel_in_order [OF demo_links demo_fresh r] r show ?thesis
    by (auto simp: demo_events_def)
qed

text \<open>C2. Nothing gets stuck on the way up: after any run, a client whose packets the codec and the transport accept
  can send what it has buffered, and a server that then reads the link has put every packet the client read on its TUN.\<close>

theorem tunnel_uplink_drains:
  assumes "exact_link (te_up_send en) (te_up_recv en) fits_u up_u carries_u"
    and "exact_link (te_down_send en) (te_down_recv en) fits_d up_d carries_d"
    and "codec_laws (te_ser en) (te_de en)" and "chan_laws (te_chan en) buffered" and "queue_laws (te_rt en) pending"
    and "fresh_tunnel up_u carries_u up_d carries_d buffered pending base t"
    and "tunnel_run en evs t = Some t'"
    and "\<forall>p \<in> set (read_by_client evs). \<exists>bs. te_ser en (Packet p) = Inr bs \<and> fits_u bs"
  shows "\<exists>n m t''. tunnel_run en (evs @ replicate n (Uplink BufferReady) @ replicate m Server_reads) t = Some t'' \<and>
    tun (tn_app t'') = Some (base @ read_by_client evs)"
proof -
  note start = fresh_tunnel_ok [OF assms(1-3,6)]
  from tunnel_links.tunnel_run_ok [OF start(1,2) assms(4,5) start(3) assms(7)]
  have ok: "tunnel_links.tunnel_ok up_u carries_u up_d carries_d en buffered pending base (read_by_client evs)
    (meant_for (router_of (tn_app t)) (ss_id (tn_session t)) evs) t'" by simp
  then obtain fu sent where "sent @ packets fu @ buffered (br_out (tn_bridge t')) = read_by_client evs"
    unfolding tunnel_links.tunnel_ok_def [OF start(1)] by blast
  then have "set (buffered (br_out (tn_bridge t'))) \<subseteq> set (read_by_client evs)"
    by (metis Un_upper2 set_append subset_trans)
  with assms(8) have "list_all (tunnel_links.sendable fits_u (te_ser en)) (buffered (br_out (tn_bridge t')))"
    by (auto simp: list_all_iff tunnel_links.sendable_def [OF start(1)])
  from tunnel_links.uplink_drains [OF start(1,2) assms(4,5) ok this] assms(7) show ?thesis
    by (metis tunnel_run_append)
qed

theorem tunnel_uplink_drains_witness:
  "\<exists>n m t''. tunnel_run demo_env (demo_events @ replicate n (Uplink BufferReady) @ replicate m Server_reads) demo_tunnel =
     Some t'' \<and> tun (tn_app t'') = Some [[9], [69, 1], [70]]"
proof -
  from demo_run obtain t' where r: "tunnel_run demo_env demo_events demo_tunnel = Some t'" by blast
  have "\<forall>p \<in> set (read_by_client demo_events). \<exists>bs. te_ser demo_env (Packet p) = Inr bs \<and> ld_fits bs"
    by (simp add: demo_events_def demo_env_def ld_fits_def MAX_MESSAGE_LEN_def)
  from tunnel_uplink_drains [OF demo_links demo_fresh r this] show ?thesis
    by (simp add: demo_events_def)
qed

end
