(* ===== verification/Stream_Relay.thy ===== *)
theory Stream_Relay
  imports Http_Mode Tunnel
begin

text \<open>
  The two ends of a proxy session together: the local proxy of the client (\<open>client-core/src/proxy.rs\<close>: its accept loop,
  handlers, writer and reader) and a session of the server with its remote streams (\<open>server/src/session.rs\<close>), on two
  links that only promise what every transport provides. The turns of the tasks interleave in any order. The facts:
  in both directions, and end to end, the bytes of a stream arrive in order and only on their own stream.
\<close>

section \<open>The composed system\<close>

record ('o, 'l, 'u, 'd, 'q, 'r) relay =
  re_proxy :: "('o, 'l) proxy"
  re_up :: 'u
  re_down :: 'd
  re_session :: session
  re_app :: "('q, 'r) app_state"

datatype relay_event =
    Local proxy_event
  | Client_pings
  | Client_writes
  | Server_gets
  | Remote_dials nat "string + unit"
  | Remote_reads nat "io_error + bytes"
  | Remote_writes nat "io_error + unit"
  | Server_puts
  | Client_gets

record ('o, 'l, 'u, 'd, 'q, 'r) relay_env =
  rv_co :: "('o, frame) chan"
  rv_cl :: "('l, to_local) chan"
  rv_rt :: "('q, 'r) runtime"
  rv_ser :: serializer
  rv_de :: deserializer
  rv_up_send :: "bytes \<Rightarrow> 'u \<Rightarrow> unit res \<times> 'u"
  rv_up_recv :: "'u \<Rightarrow> bytes res \<times> 'u"
  rv_down_send :: "bytes \<Rightarrow> 'd \<Rightarrow> unit res \<times> 'd"
  rv_down_recv :: "'d \<Rightarrow> bytes res \<times> 'd"

text \<open>A turn of a remote task, as the server machine takes it.\<close>

definition on_remote ::
  "nat \<Rightarrow> (remote_phase \<Rightarrow> bool) \<Rightarrow> ('r remote \<Rightarrow> ('q, 'r) app_state \<Rightarrow> ('q, 'r) app_state option) \<Rightarrow>
   ('q, 'r) app_state \<Rightarrow> ('q, 'r) app_state option" where
  "on_remote r phase f st =
     (case remotes st r of Some rm \<Rightarrow> if phase (rm_phase rm) then f rm st else None | None \<Rightarrow> None)"

text \<open>\<open>None\<close> when the task has nothing to do, waits for room, or the link fails in its turn.\<close>

definition relay_step ::
  "('o, 'l, 'u, 'd, 'q, 'r) relay_env \<Rightarrow> relay_event \<Rightarrow> ('o, 'l, 'u, 'd, 'q, 'r) relay \<Rightarrow> ('o, 'l, 'u, 'd, 'q, 'r) relay option" where
  "relay_step en ev t =
     (let px = re_proxy t; s = re_session t; st = re_app t in
      case ev of
        Local e \<Rightarrow> if always_can e then map_option (\<lambda>px'. t\<lparr>re_proxy := px'\<rparr>) (proxy_turn (rv_co en) (rv_cl en) e px) else None
      | Client_pings \<Rightarrow>
          (case writer_tick (frame_send (rv_ser en) (rv_up_send en)) (\<lambda>u. u) (re_up t) of
             (go, u) \<Rightarrow> if go then Some (t\<lparr>re_up := u\<rparr>) else None)
      | Client_writes \<Rightarrow>
          (case writer_next (rv_co en) (frame_send (rv_ser en) (rv_up_send en)) (\<lambda>u. u) (re_up t) px of
             Some (True, u, px') \<Rightarrow> Some (t\<lparr>re_proxy := px', re_up := u\<rparr>)
           | _ \<Rightarrow> None)
      | Server_gets \<Rightarrow>
          (case frame_recv (rv_de en) (rv_up_recv en) (re_up t) of
             (Inr f, u) \<Rightarrow> (case session_frame (rv_rt en) s f st of (s', st') \<Rightarrow> Some (t\<lparr>re_up := u, re_session := s', re_app := st'\<rparr>))
           | (Inl _, _) \<Rightarrow> None)
      | Remote_dials r connected \<Rightarrow>
          map_option (\<lambda>st'. t\<lparr>re_app := st'\<rparr>)
            (on_remote r (\<lambda>p. p = Dialing) (\<lambda>rm. remote_dial (rv_rt en) r rm connected) st)
      | Remote_reads r got \<Rightarrow>
          map_option (\<lambda>st'. t\<lparr>re_app := st'\<rparr>)
            (on_remote r (\<lambda>p. p = Pumping True) (\<lambda>rm. remote_read (rv_rt en) r rm got) st)
      | Remote_writes r written \<Rightarrow>
          map_option (\<lambda>st'. t\<lparr>re_app := st'\<rparr>)
            (on_remote r (\<lambda>p. \<exists>b. p = Pumping b)
              (\<lambda>rm. remote_write (rv_rt en) r rm (r \<in> snd ` set (ss_streams s)) written) st)
      | Server_puts \<Rightarrow>
          (case writer_task (rv_rt en) (frame_send (rv_ser en) (rv_down_send en)) (\<lambda>d. d) (ss_id s) (re_down t) st of
             Some (True, d, st') \<Rightarrow> Some (t\<lparr>re_down := d, re_app := st'\<rparr>)
           | _ \<Rightarrow> None)
      | Client_gets \<Rightarrow>
          (case frame_recv (rv_de en) (rv_down_recv en) (re_down t) of
             (Inr f, d) \<Rightarrow> map_option (\<lambda>px'. t\<lparr>re_proxy := px', re_down := d\<rparr>) (reader_frame (rv_co en) (rv_cl en) f px)
           | (Inl _, _) \<Rightarrow> None))"

fun relay_run ::
  "('o, 'l, 'u, 'd, 'q, 'r) relay_env \<Rightarrow> relay_event list \<Rightarrow> ('o, 'l, 'u, 'd, 'q, 'r) relay \<Rightarrow> ('o, 'l, 'u, 'd, 'q, 'r) relay option" where
  "relay_run en [] t = Some t"
| "relay_run en (ev # evs) t = Option.bind (relay_step en ev t) (relay_run en evs)"

section \<open>What is observed\<close>

fun chunk :: "u32 \<Rightarrow> frame \<Rightarrow> bytes" where
  "chunk i (StreamData j d) = (if j = i then d else [])"
| "chunk i _ = []"

definition stream_bytes :: "u32 \<Rightarrow> frame list \<Rightarrow> bytes" where
  "stream_bytes i fs = concat (map (chunk i) fs)"

lemma stream_bytes_simps [simp]:
  "stream_bytes i [] = []" "stream_bytes i (f # fs) = chunk i f @ stream_bytes i fs"
  "stream_bytes i (fs @ gs) = stream_bytes i fs @ stream_bytes i gs"
  by (simp_all add: stream_bytes_def)

text \<open>What a turn takes in for stream \<open>i\<close> on the client: the bytes read off a local socket, or the request head a plain
  HTTP connection forwards; and on the server: the bytes read off a remote socket.\<close>

definition local_input :: "u32 \<Rightarrow> proxy_event \<Rightarrow> ('o, 'l) proxy \<Rightarrow> bytes" where
  "local_input i ev px =
     (case ev of
        Reads n (Inr d) \<Rightarrow> (case px_locals px n of Some lc \<Rightarrow> if lo_id lc = i then d else [] | None \<Rightarrow> [])
      | Replies n w \<Rightarrow>
          (case px_locals px n of
             Some lc \<Rightarrow> (case lo_phase lc of Replying False fwd \<Rightarrow> if lo_id lc = i then fwd else [] | _ \<Rightarrow> [])
           | None \<Rightarrow> [])
      | _ \<Rightarrow> [])"

definition taken_up :: "u32 \<Rightarrow> relay_event \<Rightarrow> ('o, 'l, 'u, 'd, 'q, 'r) relay \<Rightarrow> bytes" where
  "taken_up i ev t = (case ev of Local e \<Rightarrow> local_input i e (re_proxy t) | _ \<Rightarrow> [])"

definition taken_down :: "u32 \<Rightarrow> relay_event \<Rightarrow> ('o, 'l, 'u, 'd, 'q, 'r) relay \<Rightarrow> bytes" where
  "taken_down i ev t =
     (case ev of
        Remote_reads r (Inr d) \<Rightarrow> (case remotes (re_app t) r of Some rm \<Rightarrow> if rm_stream rm = i then d else [] | None \<Rightarrow> [])
      | _ \<Rightarrow> [])"

text \<open>Along a run.\<close>

fun over_run ::
  "(relay_event \<Rightarrow> ('o, 'l, 'u, 'd, 'q, 'r) relay \<Rightarrow> bytes) \<Rightarrow> ('o, 'l, 'u, 'd, 'q, 'r) relay_env \<Rightarrow> relay_event list \<Rightarrow>
   ('o, 'l, 'u, 'd, 'q, 'r) relay \<Rightarrow> bytes" where
  "over_run obs en [] t = []"
| "over_run obs en (ev # evs) t = obs ev t @ (case relay_step en ev t of Some t' \<Rightarrow> over_run obs en evs t' | None \<Rightarrow> [])"

text \<open>What a remote task has written or will write.\<close>

definition held_bytes :: "('r \<Rightarrow> bytes list) \<Rightarrow> 'r remote \<Rightarrow> bytes" where
  "held_bytes pending rm = rm_written rm @ (if rm_phase rm = Finished then [] else concat (pending (rm_queue rm)))"

section \<open>Helpers\<close>

lemma subseq_right: "subseq (xs @ ys) us \<Longrightarrow> subseq zs (ys @ g) \<Longrightarrow> subseq (xs @ zs) (us @ g)"
  by (metis append.assoc list_emb_append_mono subseq_order.order_refl subseq_order.order_trans)

lemma subseq_drop_mid: "subseq (xs @ ys @ zs) us \<Longrightarrow> subseq (xs @ zs) us"
  by (meson list_emb_append_mono list_emb_append2 subseq_order.order_refl subseq_order.order_trans)

lemma send_frame_bytes:
  assumes "chan_laws co pending" and "send_frame co f px = Some (ok, px')"
  shows "stream_bytes i (pending (px_out px')) = stream_bytes i (pending (px_out px)) @ (if ok then chunk i f else [])"
  using assms by (auto simp: send_frame_def chan_send_def chan_laws_def channel_laws_def split: if_splits)

text \<open>A turn of a local task puts at most its input on the queue.\<close>

lemma local_turn_out:
  assumes laws: "chan_laws co pending" and run: "proxy_turn co cl ev px = Some px'" and can: "always_can ev"
  shows "subseq (stream_bytes i (pending (px_out px'))) (stream_bytes i (pending (px_out px)) @ local_input i ev px)"
proof -
  note sent = send_frame_bytes [OF laws]
  show ?thesis
  proof (cases ev)
    case (Accepts rs)
    with run show ?thesis
      by (auto simp: proxy_turn_def accept_local_def set_local_def local_input_def Let_def split: prod.splits sum.splits)
  next
    case (Opens n)
    with run obtain lc where "local_open co cl n lc px = Some px'"
      by (auto simp: proxy_turn_def on_local_def split: option.splits)
    with sent Opens show ?thesis
      by (fastforce simp: local_open_def set_local_def local_input_def Let_def split: local_phase.splits option.splits bool.splits)
  next
    case (Replies n w)
    with run obtain lc where lc: "px_locals px n = Some lc" and r: "local_reply co n lc w px = Some px'"
      by (auto simp: proxy_turn_def on_local_def split: option.splits)
    then obtain con fwd where ph: "lo_phase lc = Replying con fwd" by (auto simp: local_reply_def split: local_phase.splits)
    show ?thesis
    proof (cases "con \<or> fwd = []")
      case True
      with r ph Replies lc show ?thesis
        by (auto simp: local_reply_def set_local_def local_input_def split: sum.splits if_splits)
    next
      case False
      with r ph obtain b px1 where s: "send_frame co (StreamData (lo_id lc) fwd) px = Some (b, px1)" and "px_out px' = px_out px1"
        by (auto simp: local_reply_def set_local_def split: option.splits bool.splits)
      with sent [OF s] Replies lc ph False show ?thesis by (auto simp: local_input_def)
    qed
  next
    case (Reads n got)
    with run obtain lc where lc: "px_locals px n = Some lc" and r: "local_read co n lc got px = Some px'"
      by (auto simp: proxy_turn_def on_local_def split: option.splits)
    have eof: "stream_bytes i (pending (px_out z)) = stream_bytes i (pending (px_out y))" if "local_eof co n lc y = Some z" for y z
      using that by (auto simp: local_eof_def set_local_def dest: send_frame_bytes [OF laws, where i = i])
    show ?thesis
    proof (cases "\<exists>b bs. got = Inr (b # bs)")
      case True
      then obtain b bs where g: "got = Inr (b # bs)" by blast
      with r obtain ok px1 where s: "send_frame co (StreamData (lo_id lc) (b # bs)) px = Some (ok, px1)"
        and e: "if ok then px' = px1 else local_eof co n lc px1 = Some px'"
        by (auto simp: local_read_def split: option.splits bool.splits if_splits)
      have "stream_bytes i (pending (px_out px')) = stream_bytes i (pending (px_out px1))"
        using e eof [of px1 px'] by (cases ok) simp_all
      with sent [OF s] Reads lc g show ?thesis by (cases ok) (auto simp: local_input_def)
    next
      case False
      with r have "local_eof co n lc px = Some px'"
        by (auto simp: local_read_def split: sum.splits list.splits if_splits)
      from eof [OF this] show ?thesis by (simp add: subseq_grow)
    qed
  next
    case (Delivers n held w)
    with run obtain lc where "local_deliver cl n lc held w px = Some px'"
      by (auto simp: proxy_turn_def on_local_def split: option.splits)
    then have "px_out px' = px_out px"
      by (auto simp: local_deliver_def local_end_def set_local_def
          split: local_phase.splits option.splits prod.splits to_local.splits sum.splits if_splits)
    then show ?thesis by (simp add: subseq_grow)
  qed (use can in \<open>simp_all add: always_can_def\<close>)
qed

text \<open>Only data frames carry bytes of a stream, and the client's reader sends none.\<close>

lemma reader_frame_out:
  assumes "chan_laws co pending" and "reader_frame co cl f px = Some px'"
  shows "stream_bytes i (pending (px_out px')) = stream_bytes i (pending (px_out px))"
  using assms(2)
  by (cases f) (auto simp: send_local_def Let_def dest: send_frame_bytes [OF assms(1), where i = i] split: option.splits)

lemma offer_bytes:
  assumes "queue_laws rt pending" and "chunk i f = []"
  shows "stream_bytes i (pending (queues (offer rt k f st) k)) = stream_bytes i (pending (queues st k))"
proof (cases "try_send_f rt (queues st k) f")
  case (Some q)
  with assms(1) have "pending q = pending (queues st k) @ [f]"
    unfolding queue_laws_def channel_laws_def by blast
  with assms(2) Some show ?thesis by (simp add: offer_def push_frame_def)
qed (simp add: offer_def push_frame_def)

lemma session_frame_bytes:
  assumes "queue_laws rt pending" and "session_frame rt s f st = (s', st')"
  shows "stream_bytes i (pending (queues st' (ss_id s))) = stream_bytes i (pending (queues st (ss_id s)))"
proof (cases f)
  case (StreamOpen i target)
  with assms show ?thesis by (auto simp: offer_bytes open_remote_stream_def Let_def split: if_splits)
next
  case (StreamData i d)
  with assms show ?thesis by (auto simp: feed_remote_def set_remote_def count_up_def Let_def split: option.splits)
qed (use assms in \<open>auto simp: offer_bytes count_up_def Let_def\<close>)

lemma send_out_bytes:
  assumes "queue_laws rt pending" and "send_out rt k f st = Some (ok, st')"
  shows "stream_bytes i (pending (queues st' k)) = stream_bytes i (pending (queues st k)) @ (if ok then chunk i f else [])"
    and "remotes st' = remotes st" and "next_remote st' = next_remote st"
  using assms by (auto simp: send_out_def queue_laws_def channel_laws_def split: if_splits)
text \<open>A turn of remote task \<open>r\<close> replaces its record, keeps stream and session, gives up no byte but those of an end, and
  puts at most \<open>g\<close> on the queue of session \<open>k\<close>.\<close>

definition remote_moves ::
  "('q \<Rightarrow> frame list) \<Rightarrow> ('r \<Rightarrow> bytes list) \<Rightarrow> nat \<Rightarrow> nat \<Rightarrow> 'r remote \<Rightarrow> (u32 \<Rightarrow> bytes) \<Rightarrow> ('q, 'r) app_state \<Rightarrow>
   ('q, 'r) app_state \<Rightarrow> bool" where
  "remote_moves pq pd k r rm g st st' \<longleftrightarrow>
     (\<exists>rm'. remotes st' = (remotes st)(r \<mapsto> rm') \<and> rm_stream rm' = rm_stream rm \<and> rm_out rm' = rm_out rm \<and>
        subseq (held_bytes pd rm') (held_bytes pd rm)) \<and> next_remote st' = next_remote st \<and>
     (\<forall>i. subseq (stream_bytes i (pq (queues st' k))) (stream_bytes i (pq (queues st k)) @ g i))"

lemma remote_set_moves:
  assumes "rm_stream rm' = rm_stream rm" and "rm_out rm' = rm_out rm" and "subseq (held_bytes pd rm') (held_bytes pd rm)"
    and "remotes st1 = remotes st" and "next_remote st1 = next_remote st" and "\<And>i. subseq (stream_bytes i (pq (queues st1 k))) (stream_bytes i (pq (queues st k)) @ g i)"
  shows "remote_moves pq pd k r rm g st (set_remote r rm' st1)"
  using assms by (auto simp: remote_moves_def set_remote_def)

lemma remote_finish_moves:
  assumes "rm_phase rm \<noteq> Finished" and "rm_stream rm' = rm_stream rm" and "rm_out rm' = rm_out rm" and "rm_written rm' = rm_written rm"
    and "remotes st1 = remotes st" and "next_remote st1 = next_remote st" and "\<And>i. subseq (stream_bytes i (pq (queues st1 k))) (stream_bytes i (pq (queues st k)) @ g i)"
  shows "remote_moves pq pd k r rm g st (finish_remote rt r rm' st1)"
  unfolding finish_remote_def
  by (rule remote_set_moves) (use assms in \<open>simp_all add: held_bytes_def subseq_grow\<close>)

lemma remote_dial_moves:
  assumes "queue_laws rt pq" and "rm_phase rm = Dialing" and "remote_dial rt r rm connected st = Some st'"
  shows "remote_moves pq pd (rm_out rm) r rm (\<lambda>_. []) st st'"
proof (cases connected)
  case (Inl e)
  with assms(3) obtain ok st1 where
    s: "send_out rt (rm_out rm) (StreamClose (rm_stream rm) (Some (''dial '' @ dial_addr (rm_target rm) @ '': '' @ e))) st = Some (ok, st1)"
    and st': "st' = finish_remote rt r rm st1" by (auto simp: remote_dial_def)
  show ?thesis unfolding st'
    by (rule remote_finish_moves) (use assms(2) send_out_bytes [OF assms(1) s] in simp_all)
next
  case (Inr x)
  with assms(3) have st': "st' = set_remote r (rm\<lparr>rm_phase := Pumping True\<rparr>) st" by (simp add: remote_dial_def)
  show ?thesis unfolding st' by (rule remote_set_moves) (use assms(2) in \<open>simp_all add: held_bytes_def\<close>)
qed

lemma remote_eof_moves:
  assumes "queue_laws rt pq" and "rm_phase rm \<noteq> Finished" and "remote_eof rt r rm st1 = Some st'" and "remotes st1 = remotes st"
    and "next_remote st1 = next_remote st" and "\<And>i. stream_bytes i (pq (queues st1 (rm_out rm))) = stream_bytes i (pq (queues st (rm_out rm)))"
  shows "remote_moves pq pd (rm_out rm) r rm g st st'"
proof -
  from assms(3) obtain ok st2 where s: "send_out rt (rm_out rm) (StreamClose (rm_stream rm) None) st1 = Some (ok, st2)"
    and st': "st' = set_remote r (rm\<lparr>rm_phase := Pumping False\<rparr>) st2" by (auto simp: remote_eof_def)
  show ?thesis unfolding st'
    by (rule remote_set_moves) (use assms(2,4-6) send_out_bytes [OF assms(1) s] in \<open>simp_all add: held_bytes_def subseq_grow\<close>)
qed

lemma remote_read_moves:
  assumes "queue_laws rt pq" and "rm_phase rm = Pumping True" and "remotes st r = Some rm" and "remote_read rt r rm got st = Some st'"
  shows "remote_moves pq pd (rm_out rm) r rm (\<lambda>i. case got of Inr d \<Rightarrow> if rm_stream rm = i then d else [] | Inl _ \<Rightarrow> []) st st'"
proof (cases "\<exists>b bs. got = Inr (b # bs)")
  case True
  then obtain b bs where g: "got = Inr (b # bs)" by blast
  with assms(4) obtain ok st1 where s: "send_out rt (rm_out rm) (StreamData (rm_stream rm) (b # bs)) st = Some (ok, st1)"
    and e: "if ok then st' = st1 else remote_eof rt r rm st1 = Some st'"
    by (auto simp: remote_read_def split: option.splits bool.splits)
  note sent = send_out_bytes [OF assms(1) s]
  show ?thesis
  proof (cases ok)
    case True
    with e have "st' = st1" by simp
    moreover have "(remotes st)(r \<mapsto> rm) = remotes st" using assms(3) by (rule map_upd_triv)
    ultimately show ?thesis using sent True g by (auto simp: remote_moves_def intro!: exI [of _ rm])
  next
    case False
    show ?thesis
      by (rule remote_eof_moves [of rt pq rm r st1]) (use e False sent assms(1,2) in simp_all)
  qed
next
  case False
  with assms(4) have "remote_eof rt r rm st = Some st'" by (auto simp: remote_read_def split: sum.splits list.splits)
  with remote_eof_moves [OF assms(1) _ this] assms(2) show ?thesis by simp
qed

lemma remote_write_moves:
  assumes "data_laws rt pd" and "rm_phase rm = Pumping b" and "remote_write rt r rm held written st = Some st'"
  shows "remote_moves pq pd k r rm (\<lambda>_. []) st st'"
proof (cases "recv_d rt (rm_queue rm)")
  case None
  with assms(3) have "st' = finish_remote rt r rm st" by (auto simp: remote_write_def split: if_splits)
  with remote_finish_moves [of rm rm st st] assms(2) show ?thesis by simp
next
  case (Some dq)
  obtain data q where dq: "dq = (data, q)" by (cases dq)
  with Some assms(1) have p: "pd (rm_queue rm) = data # pd q" unfolding data_laws_def channel_laws_def by blast
  show ?thesis
  proof (cases written)
    case (Inl e)
    with assms(3) Some dq have st': "st' = finish_remote rt r (rm\<lparr>rm_queue := q\<rparr>) st" by (simp add: remote_write_def)
    show ?thesis unfolding st' by (rule remote_finish_moves) (use assms(2) in simp_all)
  next
    case (Inr x)
    with assms(3) Some dq have st': "st' = set_remote r (rm\<lparr>rm_queue := q, rm_written := rm_written rm @ data\<rparr>) st"
      by (simp add: remote_write_def)
    show ?thesis unfolding st' by (rule remote_set_moves) (use assms(2) p in \<open>simp_all add: held_bytes_def\<close>)
  qed
qed

section \<open>The flow of the streams\<close>

text \<open>The stream table of the session points at tasks of the same stream.\<close>

definition table_fits :: "session \<Rightarrow> ('q, 'r) app_state \<Rightarrow> bool" where
  "table_fits s st \<longleftrightarrow>
     (\<forall>i r. map_of (ss_streams s) i = Some r \<longrightarrow> (\<exists>rm. remotes st r = Some rm \<and> rm_stream rm = i)) \<and>
     (\<forall>r rm. remotes st r = Some rm \<longrightarrow> r < next_remote st)"

lemma table_fits_moves:
  assumes "table_fits s st" and "remotes st r = Some rm" and "remote_moves pq pd k r rm g st st'"
  shows "table_fits s st'"
  using assms unfolding table_fits_def remote_moves_def by (fastforce split: if_splits)

lemma table_fits_frame:
  assumes fits: "table_fits s st" and run: "session_frame rt s f st = (s', st')"
  shows "table_fits s' st'"
proof (cases f)
  case (StreamOpen i target)
  have "remotes st (next_remote st) = None" using fits unfolding table_fits_def by fastforce
  with StreamOpen fits run show ?thesis
    by (auto simp: table_fits_def open_remote_stream_def offer_def update_conv' Let_def less_Suc_eq split: if_splits; force)
next
  case (StreamData i d)
  with fits run show ?thesis
    by (auto simp: table_fits_def feed_remote_def set_remote_def count_up_def Let_def split: option.splits; fastforce split: if_splits)
next
  case (StreamClose i e)
  with fits run show ?thesis by (auto simp: table_fits_def delete_conv' split: if_splits)
qed (use fits run in \<open>auto simp: table_fits_def offer_def count_up_def Let_def\<close>)

text \<open>\<open>po\<close>, \<open>pl\<close>, \<open>pq\<close> and \<open>pd\<close> read the channels, \<open>fu\<close> and \<open>fd\<close> are the frames on the two links, \<open>feed i\<close> is what the
  client's reader has received for stream \<open>i\<close>, and \<open>upl i\<close> and \<open>dnl i\<close> what the two ends have taken in for it.\<close>

definition flow ::
  "('o \<Rightarrow> frame list) \<Rightarrow> ('l \<Rightarrow> to_local list) \<Rightarrow> ('q \<Rightarrow> frame list) \<Rightarrow> ('r \<Rightarrow> bytes list) \<Rightarrow> (u32 \<Rightarrow> bytes) \<Rightarrow> (u32 \<Rightarrow> bytes) \<Rightarrow>
   frame list \<Rightarrow> frame list \<Rightarrow> (u32 \<Rightarrow> bytes) \<Rightarrow> ('o, 'l) proxy \<Rightarrow> session \<Rightarrow> ('q, 'r) app_state \<Rightarrow> bool" where
  "flow po pl pq pd upl dnl fu fd feed px s st \<longleftrightarrow>
     proxy_ok pl feed px \<and> table_fits s st \<and>
     (\<forall>i. subseq (stream_bytes i fu @ stream_bytes i (po (px_out px))) (upl i)) \<and>
     (\<forall>r rm. remotes st r = Some rm \<longrightarrow> rm_out rm = ss_id s \<and>
        subseq (held_bytes pd rm @ stream_bytes (rm_stream rm) fu @ stream_bytes (rm_stream rm) (po (px_out px))) (upl (rm_stream rm))) \<and>
     (\<forall>i. subseq (feed i @ stream_bytes i fd @ stream_bytes i (pq (queues st (ss_id s)))) (dnl i))"

lemma flowD:
  assumes "flow po pl pq pd upl dnl fu fd feed px s st"
  shows "proxy_ok pl feed px" and "subseq (stream_bytes i fu @ stream_bytes i (po (px_out px))) (upl i)"
    and "remotes st r = Some rm \<Longrightarrow> rm_out rm = ss_id s"
    and "remotes st r = Some rm \<Longrightarrow>
      subseq (held_bytes pd rm @ stream_bytes (rm_stream rm) fu @ stream_bytes (rm_stream rm) (po (px_out px))) (upl (rm_stream rm))"
    and "subseq (feed i @ stream_bytes i fd @ stream_bytes i (pq (queues st (ss_id s)))) (dnl i)"
    and "table_fits s st"
  using assms unfolding flow_def by blast+

text \<open>The client side changes: its queue and the uplink carry at most \<open>g i\<close> more of stream \<open>i\<close>.\<close>

lemma flow_client:
  assumes ok: "flow po pl pq pd upl dnl fu fd feed px s st" and p: "proxy_ok pl feed px'"
    and out: "\<And>i. subseq (stream_bytes i fu' @ stream_bytes i (po (px_out px')))
      ((stream_bytes i fu @ stream_bytes i (po (px_out px))) @ g i)"
  shows "flow po pl pq pd (\<lambda>i. upl i @ g i) dnl fu' fd feed px' s st"
  unfolding flow_def
proof (intro conjI allI impI)
  show "proxy_ok pl feed px'" "table_fits s st" by (rule p, rule flowD(6) [OF ok])
  show "subseq (stream_bytes i fu' @ stream_bytes i (po (px_out px'))) (upl i @ g i)" for i
    using subseq_right [of "[]" "stream_bytes i fu @ stream_bytes i (po (px_out px))" "upl i", OF _ out [of i]] flowD(2) [OF ok, of i]
    by simp
  fix r rm assume r: "remotes st r = Some rm"
  show "rm_out rm = ss_id s" by (rule flowD(3) [OF ok r])
  show "subseq (held_bytes pd rm @ stream_bytes (rm_stream rm) fu' @ stream_bytes (rm_stream rm) (po (px_out px')))
      (upl (rm_stream rm) @ g (rm_stream rm))"
    by (rule subseq_right [OF flowD(4) [OF ok r] out])
qed (rule flowD(5) [OF ok])

lemma flow_local:
  assumes ok: "flow po pl pq pd upl dnl fu fd feed px s st" and laws: "chan_laws co po" "chan_laws cl pl"
    and run: "proxy_turn co cl ev px = Some px'" and can: "always_can ev"
  shows "flow po pl pq pd (\<lambda>i. upl i @ local_input i ev px) dnl fu fd feed px' s st"
proof (rule flow_client [OF ok])
  have "feed_after feed [ev] = feed" using can by (intro ext) (cases ev; simp add: feed_after_def always_can_def)
  with turn_ok [OF flowD(1) [OF ok] laws(2) run] show "proxy_ok pl feed px'" by simp
  show "subseq (stream_bytes i fu @ stream_bytes i (po (px_out px')))
      ((stream_bytes i fu @ stream_bytes i (po (px_out px))) @ local_input i ev px)" for i
    using local_turn_out [OF laws(1) run can, of i] by (simp add: list_emb_append_mono)
qed

text \<open>The client's writer moves a frame from the queue to the link.\<close>

lemma flow_write:
  assumes ok: "flow po pl pq pd upl dnl fu fd feed px s st" and laws: "chan_laws co po"
    and q: "ch_recv co (px_out px) = Some (f, px_out px')"
    and same: "px_streams px' = px_streams px" "px_chans px' = px_chans px" "px_locals px' = px_locals px" "px_next px' = px_next px"
  shows "flow po pl pq pd upl dnl (fu @ [f]) fd feed px' s st"
proof -
  have "po (px_out px) = f # po (px_out px')" using laws q unfolding chan_laws_def channel_laws_def by blast
  then have "flow po pl pq pd (\<lambda>i. upl i @ []) dnl (fu @ [f]) fd feed px' s st"
    by (intro flow_client [OF ok] proxy_ok_quiet [OF flowD(1) [OF ok] same]) simp
  then show ?thesis by simp
qed

lemma flow_ping: "flow po pl pq pd upl dnl fu fd feed px s st \<Longrightarrow> flow po pl pq pd upl dnl (fu @ [Ping]) fd feed px s st"
  by (simp add: flow_def)

text \<open>A remote task takes a turn.\<close>

lemma flow_remote:
  assumes ok: "flow po pl pq pd upl dnl fu fd feed px s st" and r: "remotes st r = Some rm"
    and moves: "remote_moves pq pd (ss_id s) r rm g st st'"
  shows "flow po pl pq pd upl (\<lambda>i. dnl i @ g i) fu fd feed px s st'"
proof -
  from moves obtain rm' where rm': "remotes st' = (remotes st)(r \<mapsto> rm')" "rm_stream rm' = rm_stream rm" "rm_out rm' = rm_out rm"
      "subseq (held_bytes pd rm') (held_bytes pd rm)"
    and out: "\<And>i. subseq (stream_bytes i (pq (queues st' (ss_id s)))) (stream_bytes i (pq (queues st (ss_id s))) @ g i)"
    unfolding remote_moves_def by blast
  show ?thesis
    unfolding flow_def
  proof (intro conjI allI impI)
    show "proxy_ok pl feed px" "table_fits s st'" by (rule flowD(1) [OF ok], rule table_fits_moves [OF flowD(6) [OF ok] r moves])
    show "subseq (stream_bytes i fu @ stream_bytes i (po (px_out px))) (upl i)" for i by (rule flowD(2) [OF ok])
    show "subseq (feed i @ stream_bytes i fd @ stream_bytes i (pq (queues st' (ss_id s)))) (dnl i @ g i)" for i
      using subseq_right [of "feed i @ stream_bytes i fd" "stream_bytes i (pq (queues st (ss_id s)))" "dnl i", OF _ out [of i]]
        flowD(5) [OF ok, of i] by simp
    fix j x assume j: "remotes st' j = Some x"
    show "rm_out x = ss_id s" using j rm'(1,3) flowD(3) [OF ok] r by (auto split: if_splits)
    show "subseq (held_bytes pd x @ stream_bytes (rm_stream x) fu @ stream_bytes (rm_stream x) (po (px_out px))) (upl (rm_stream x))"
    proof (cases "j = r")
      case True
      with j rm'(1) have x: "x = rm'" by simp
      let ?tail = "stream_bytes (rm_stream rm) fu @ stream_bytes (rm_stream rm) (po (px_out px))"
      have "subseq (held_bytes pd rm' @ ?tail) (held_bytes pd rm @ ?tail)"
        by (rule list_emb_append_mono [OF rm'(4) subseq_order.order_refl])
      with flowD(4) [OF ok r] show ?thesis unfolding x rm'(2) by (rule subseq_order.order_trans [rotated])
    next
      case False
      with j rm'(1) flowD(4) [OF ok, of j x] show ?thesis by simp
    qed
  qed
qed

text \<open>The server takes a frame off the link.\<close>

lemma flow_frame:
  assumes ok: "flow po pl pq pd upl dnl (f # fu) fd feed px s st" and laws: "queue_laws rt pq" "data_laws rt pd"
    and run: "session_frame rt s f st = (s', st')"
  shows "flow po pl pq pd upl dnl fu fd feed px s' st'"
proof -
  have id: "ss_id s' = ss_id s" by (rule session_frame_frame(5) [OF run])
  let ?rest = "\<lambda>i. stream_bytes i fu @ stream_bytes i (po (px_out px))"
  have after: "subseq (?rest i) (upl i)" for i
    using flowD(2) [OF ok, of i] subseq_drop_mid [of "[]" "chunk i f" "?rest i" "upl i"] by simp
  have keep: "subseq (held_bytes pd rm @ ?rest (rm_stream rm)) (upl (rm_stream rm))" if "remotes st r = Some rm" for r rm
    using flowD(4) [OF ok that] subseq_drop_mid [of "held_bytes pd rm" "chunk (rm_stream rm) f" "?rest (rm_stream rm)"] by simp
  have "rm_out rm = ss_id s \<and> subseq (held_bytes pd rm @ ?rest (rm_stream rm)) (upl (rm_stream rm))"
    if r: "remotes st' r = Some rm" for r rm
  proof (cases "remotes st r = Some rm")
    case True
    with keep flowD(3) [OF ok] show ?thesis by blast
  next
    case new: False
    show ?thesis
    proof (cases f)
      case (StreamOpen i target)
      have "pd (channel_d rt 256) = []" using laws(2) unfolding data_laws_def channel_laws_def by blast
      with StreamOpen run r new after show ?thesis
        by (auto simp: open_remote_stream_def offer_def held_bytes_def Let_def split: if_splits)
    next
      case (StreamData i d)
      with run r new obtain rm0 q where t: "map_of (ss_streams s) i = Some r" and r0: "remotes st r = Some rm0"
        and q: "try_send_d rt (rm_queue rm0) d = Some q" and rm: "rm = rm0\<lparr>rm_queue := q\<rparr>"
        by (auto simp: feed_remote_def set_remote_def count_up_def Let_def split: option.splits if_splits)
      from flowD(6) [OF ok] t r0 have i: "rm_stream rm0 = i" unfolding table_fits_def by fastforce
      have "pd q = pd (rm_queue rm0) @ [d]" using q laws(2) unfolding data_laws_def channel_laws_def by blast
      with flowD(4) [OF ok r0] flowD(3) [OF ok r0] keep [OF r0] rm i StreamData show ?thesis
        by (cases "rm_phase rm0 = Finished") (simp_all add: held_bytes_def)
    qed (use run r new in \<open>auto simp: offer_def count_up_def Let_def split: if_splits\<close>)
  qed
  moreover have "stream_bytes i (pq (queues st' (ss_id s))) = stream_bytes i (pq (queues st (ss_id s)))" for i
    by (rule session_frame_bytes [OF laws(1) run])
  ultimately show ?thesis
    using flowD(1,5) [OF ok] table_fits_frame [OF flowD(6) [OF ok] run] after unfolding flow_def id by simp
qed

text \<open>The server's writer moves a frame from the session queue to the link.\<close>

lemma flow_put:
  assumes ok: "flow po pl pq pd upl dnl fu fd feed px s st" and laws: "queue_laws rt pq"
    and q: "recv_f rt (queues st (ss_id s)) = Some (f, queues st' (ss_id s))"
    and same: "remotes st' = remotes st" "next_remote st' = next_remote st"
  shows "flow po pl pq pd upl dnl fu (fd @ [f]) feed px s st'"
proof -
  have "pq (queues st (ss_id s)) = f # pq (queues st' (ss_id s))"
    using laws q unfolding queue_laws_def channel_laws_def by blast
  with flowD(5) [OF ok] have "subseq (feed i @ stream_bytes i (fd @ [f]) @ stream_bytes i (pq (queues st' (ss_id s)))) (dnl i)" for i
    by (metis append.assoc append_Nil2 stream_bytes_simps)
  moreover have "table_fits s st'" using flowD(6) [OF ok] same by (simp add: table_fits_def)
  ultimately show ?thesis using ok same unfolding flow_def by simp
qed

text \<open>The client's reader takes a frame off the link.\<close>

lemma flow_get:
  assumes ok: "flow po pl pq pd upl dnl fu (f # fd) feed px s st" and laws: "chan_laws co po" "chan_laws cl pl"
    and run: "reader_frame co cl f px = Some px'"
  shows "flow po pl pq pd upl dnl fu fd (feed_after feed [Gets_frame f]) px' s st"
proof -
  have fed: "feed_after feed [Gets_frame f] i = feed i @ chunk i f" for i by (cases f) (simp_all add: feed_after_def)
  show ?thesis
    using ok frame_ok [OF flowD(1) [OF ok] laws(2) run] reader_frame_out [OF laws(1) run]
    unfolding flow_def fed by simp
qed

context tunnel_links
begin

definition relay_wired :: "('o, 'l2, 'l, 'k, 'q, 'r) relay_env \<Rightarrow> bool" where
  "relay_wired en \<longleftrightarrow> rv_up_send en = send_u \<and> rv_up_recv en = recv_u \<and> rv_down_send en = send_d \<and> rv_down_recv en = recv_d \<and>
     codec_laws (rv_ser en) (rv_de en)"

definition relay_ok ::
  "('o, 'l2, 'l, 'k, 'q, 'r) relay_env \<Rightarrow> ('o \<Rightarrow> frame list) \<Rightarrow> ('l2 \<Rightarrow> to_local list) \<Rightarrow> ('q \<Rightarrow> frame list) \<Rightarrow> ('r \<Rightarrow> bytes list) \<Rightarrow>
   (u32 \<Rightarrow> bytes) \<Rightarrow> (u32 \<Rightarrow> bytes) \<Rightarrow> ('o, 'l2, 'l, 'k, 'q, 'r) relay \<Rightarrow> bool" where
  "relay_ok en po pl pq pd upl dnl t \<longleftrightarrow>
     (\<exists>fu fd feed. u.carries_frames (rv_ser en) (re_up t) fu \<and> up_u (re_up t) \<and> d.carries_frames (rv_ser en) (re_down t) fd \<and>
        up_d (re_down t) \<and> flow po pl pq pd upl dnl fu fd feed (re_proxy t) (re_session t) (re_app t))"

lemma relay_okE:
  assumes "relay_ok en po pl pq pd upl dnl t"
  obtains fu fd feed where "u.carries_frames (rv_ser en) (re_up t) fu" "up_u (re_up t)"
    "d.carries_frames (rv_ser en) (re_down t) fd" "up_d (re_down t)"
    "flow po pl pq pd upl dnl fu fd feed (re_proxy t) (re_session t) (re_app t)"
  using assms unfolding relay_ok_def by blast

lemma relay_step_ok:
  assumes wired: "relay_wired en" and laws: "chan_laws (rv_co en) po" "chan_laws (rv_cl en) pl" "queue_laws (rv_rt en) pq" "data_laws (rv_rt en) pd"
    and ok: "relay_ok en po pl pq pd upl dnl t" and step: "relay_step en ev t = Some t'"
  shows "relay_ok en po pl pq pd (\<lambda>i. upl i @ taken_up i ev t) (\<lambda>i. dnl i @ taken_down i ev t) t'"
proof -
  from ok obtain fu fd feed where c: "u.carries_frames (rv_ser en) (re_up t) fu" "up_u (re_up t)"
    "d.carries_frames (rv_ser en) (re_down t) fd" "up_d (re_down t)"
    and fl: "flow po pl pq pd upl dnl fu fd feed (re_proxy t) (re_session t) (re_app t)" by (rule relay_okE)
  have codec: "codec_laws (rv_ser en) (rv_de en)" using wired by (simp add: relay_wired_def)
  have remote: ?thesis if r: "on_remote r phase f (re_app t) = Some st'" and t': "t' = t\<lparr>re_app := st'\<rparr>"
    and up: "\<And>i. taken_up i ev t = []"
    and moves: "\<And>rm. remotes (re_app t) r = Some rm \<Longrightarrow> phase (rm_phase rm) \<Longrightarrow> f rm (re_app t) = Some st' \<Longrightarrow>
      remote_moves pq pd (rm_out rm) r rm (\<lambda>i. taken_down i ev t) (re_app t) st'" for r phase f st'
  proof -
    from r obtain rm where rm: "remotes (re_app t) r = Some rm" "phase (rm_phase rm)" "f rm (re_app t) = Some st'"
      by (auto simp: on_remote_def split: option.splits if_splits)
    have "remote_moves pq pd (ss_id (re_session t)) r rm (\<lambda>i. taken_down i ev t) (re_app t) st'"
      using moves [OF rm] flowD(3) [OF fl rm(1)] by simp
    from flow_remote [OF fl rm(1) this] c t' up show ?thesis unfolding relay_ok_def by auto
  qed
  show ?thesis
  proof (cases ev)
    case (Local e)
    with step obtain px' where e: "proxy_turn (rv_co en) (rv_cl en) e (re_proxy t) = Some px'" "always_can e"
      and t': "t' = t\<lparr>re_proxy := px'\<rparr>" by (auto simp: relay_step_def Let_def split: if_splits)
    from flow_local [OF fl laws(1,2) e] c t' Local show ?thesis
      unfolding relay_ok_def by (auto simp: taken_up_def taken_down_def)
  next
    case Client_pings
    with step wired obtain x v where s: "frame_send (rv_ser en) send_u Ping (re_up t) = (Inr x, v)" and t': "t' = t\<lparr>re_up := v\<rparr>"
      by (auto simp: relay_step_def relay_wired_def writer_tick_def Let_def split: prod.splits sum.splits if_splits)
    from u.sent_frame [OF codec c(1,2) s] flow_ping [OF fl] c t' Client_pings show ?thesis
      unfolding relay_ok_def by (auto simp: taken_up_def taken_down_def)
  next
    case Client_writes
    with step wired obtain f q x v where q: "ch_recv (rv_co en) (px_out (re_proxy t)) = Some (f, q)"
      and s: "frame_send (rv_ser en) send_u f (re_up t) = (Inr x, v)"
      and t': "t' = t\<lparr>re_proxy := (re_proxy t)\<lparr>px_out := q, px_status := add_traffic_up (payload_len f) (px_status (re_proxy t))\<rparr>, re_up := v\<rparr>"
      by (auto simp: relay_step_def relay_wired_def writer_next_def Let_def split: option.splits prod.splits sum.splits bool.splits)
    have "flow po pl pq pd upl dnl (fu @ [f]) fd feed (re_proxy t') (re_session t) (re_app t)"
      by (rule flow_write [OF fl laws(1)]) (simp_all add: t' q)
    with u.sent_frame [OF codec c(1,2) s] c t' Client_writes show ?thesis
      unfolding relay_ok_def by (auto simp: taken_up_def taken_down_def)
  next
    case Server_gets
    with step wired obtain f v s' st' where r: "frame_recv (rv_de en) recv_u (re_up t) = (Inr f, v)"
      and sf: "session_frame (rv_rt en) (re_session t) f (re_app t) = (s', st')"
      and t': "t' = t\<lparr>re_up := v, re_session := s', re_app := st'\<rparr>"
      by (auto simp: relay_step_def relay_wired_def Let_def split: prod.splits sum.splits)
    from u.received_frame [OF codec c(1,2) r] obtain fu' where v: "fu = f # fu'" "up_u v" "u.carries_frames (rv_ser en) v fu'" by blast
    from flow_frame [OF fl [unfolded v(1)] laws(3,4) sf] v c t' Server_gets show ?thesis
      unfolding relay_ok_def by (auto simp: taken_up_def taken_down_def)
  next
    case (Remote_dials r connected)
    with step obtain st' where
      "on_remote r (\<lambda>p. p = Dialing) (\<lambda>rm. remote_dial (rv_rt en) r rm connected) (re_app t) = Some st'" "t' = t\<lparr>re_app := st'\<rparr>"
      by (auto simp: relay_step_def Let_def)
    then show ?thesis
      by (rule remote) (use Remote_dials remote_dial_moves [OF laws(3)] in \<open>auto simp: taken_up_def taken_down_def\<close>)
  next
    case (Remote_reads r got)
    with step obtain st' where
      "on_remote r (\<lambda>p. p = Pumping True) (\<lambda>rm. remote_read (rv_rt en) r rm got) (re_app t) = Some st'" "t' = t\<lparr>re_app := st'\<rparr>"
      by (auto simp: relay_step_def Let_def)
    then show ?thesis
    proof (rule remote)
      fix rm assume rm: "remotes (re_app t) r = Some rm" "rm_phase rm = Pumping True" "remote_read (rv_rt en) r rm got (re_app t) = Some st'"
      have "(\<lambda>i. taken_down i ev t) = (\<lambda>i. case got of Inr d \<Rightarrow> if rm_stream rm = i then d else [] | Inl _ \<Rightarrow> [])"
        using Remote_reads rm(1) by (auto simp: taken_down_def split: sum.split)
      with remote_read_moves [OF laws(3) rm(2,1,3), of pd]
      show "remote_moves pq pd (rm_out rm) r rm (\<lambda>i. taken_down i ev t) (re_app t) st'" by simp
    qed (simp add: Remote_reads taken_up_def)
  next
    case (Remote_writes r written)
    with step obtain st' where
      "on_remote r (\<lambda>p. \<exists>b. p = Pumping b)
        (\<lambda>rm. remote_write (rv_rt en) r rm (r \<in> snd ` set (ss_streams (re_session t))) written) (re_app t) = Some st'"
      "t' = t\<lparr>re_app := st'\<rparr>" by (auto simp: relay_step_def Let_def)
    then show ?thesis
      by (rule remote) (use Remote_writes remote_write_moves [OF laws(4)] in \<open>auto simp: taken_up_def taken_down_def\<close>)
  next
    case Server_puts
    with step wired obtain v st' where
      w: "writer_task (rv_rt en) (frame_send (rv_ser en) send_d) (\<lambda>d. d) (ss_id (re_session t)) (re_down t) (re_app t) = Some (True, v, st')"
      and t': "t' = t\<lparr>re_down := v, re_app := st'\<rparr>"
      by (auto simp: relay_step_def relay_wired_def Let_def split: option.splits prod.splits bool.splits)
    from w obtain f q x where q: "recv_f (rv_rt en) (queues (re_app t) (ss_id (re_session t))) = Some (f, q)"
      and s: "frame_send (rv_ser en) send_d f (re_down t) = (Inr x, v)"
      and st': "queues st' (ss_id (re_session t)) = q" "remotes st' = remotes (re_app t)" "next_remote st' = next_remote (re_app t)"
      by (auto simp: writer_task_def count_down_def Let_def split: option.splits prod.splits sum.splits if_splits)
    have "flow po pl pq pd upl dnl fu (fd @ [f]) feed (re_proxy t) (re_session t) st'"
      by (rule flow_put [OF fl laws(3)]) (simp_all add: q st')
    with d.sent_frame [OF codec c(3,4) s] c t' Server_puts show ?thesis
      unfolding relay_ok_def by (auto simp: taken_up_def taken_down_def)
  next
    case Client_gets
    with step wired obtain f v px' where r: "frame_recv (rv_de en) recv_d (re_down t) = (Inr f, v)"
      and g: "reader_frame (rv_co en) (rv_cl en) f (re_proxy t) = Some px'" and t': "t' = t\<lparr>re_proxy := px', re_down := v\<rparr>"
      by (auto simp: relay_step_def relay_wired_def Let_def split: prod.splits sum.splits)
    from d.received_frame [OF codec c(3,4) r] obtain fd' where v: "fd = f # fd'" "up_d v" "d.carries_frames (rv_ser en) v fd'" by blast
    from flow_get [OF fl [unfolded v(1)] laws(1,2) g] v c t' Client_gets show ?thesis
      unfolding relay_ok_def by (auto simp: taken_up_def taken_down_def)
  qed
qed

lemma relay_run_ok:
  assumes "relay_wired en" and "chan_laws (rv_co en) po" "chan_laws (rv_cl en) pl" "queue_laws (rv_rt en) pq" "data_laws (rv_rt en) pd"
    and "relay_ok en po pl pq pd upl dnl t" and "relay_run en evs t = Some t'"
  shows "relay_ok en po pl pq pd (\<lambda>i. upl i @ over_run (taken_up i) en evs t) (\<lambda>i. dnl i @ over_run (taken_down i) en evs t) t'"
  using assms(6,7)
proof (induction evs arbitrary: t upl dnl)
  case (Cons ev evs)
  then obtain t1 where s: "relay_step en ev t = Some t1" and r: "relay_run en evs t1 = Some t'"
    by (auto simp: bind_eq_Some_conv)
  from Cons.IH [OF relay_step_ok [OF assms(1-5) Cons.prems(1) s] r] s show ?case by simp
qed simp

end

section \<open>Fresh proxy sessions\<close>

lemma local_ok_sock: "local_ok pending feed n lc px \<Longrightarrow> subseq (lo_sock lc) (established_reply @ feed)"
  by (auto simp: local_ok_def split: local_phase.splits) (meson prefixI prefix_imp_subseq subseq_order.order_trans)

text \<open>Right after the welcome: no stream on either side, nothing on the links, in the queue of the proxy or of the session.\<close>

definition fresh_relay ::
  "('u \<Rightarrow> bool) \<Rightarrow> ('u \<Rightarrow> bytes list \<Rightarrow> bool) \<Rightarrow> ('d \<Rightarrow> bool) \<Rightarrow> ('d \<Rightarrow> bytes list \<Rightarrow> bool) \<Rightarrow> ('o \<Rightarrow> frame list) \<Rightarrow>
   ('q \<Rightarrow> frame list) \<Rightarrow> ('o, 'l, 'u, 'd, 'q, 'r) relay \<Rightarrow> bool" where
  "fresh_relay up_u carries_u up_d carries_d po pq t \<longleftrightarrow>
     up_u (re_up t) \<and> carries_u (re_up t) [] \<and> up_d (re_down t) \<and> carries_d (re_down t) [] \<and>
     px_streams (re_proxy t) = [] \<and> px_locals (re_proxy t) = Map.empty \<and> po (px_out (re_proxy t)) = [] \<and>
     ss_streams (re_session t) = [] \<and> remotes (re_app t) = Map.empty \<and> pq (queues (re_app t) (ss_id (re_session t))) = []"

lemma fresh_relay_ok:
  assumes "exact_link (rv_up_send en) (rv_up_recv en) fits_u up_u carries_u"
    and "exact_link (rv_down_send en) (rv_down_recv en) fits_d up_d carries_d"
    and "codec_laws (rv_ser en) (rv_de en)" and "fresh_relay up_u carries_u up_d carries_d po pq t"
  shows "tunnel_links (rv_up_send en) (rv_up_recv en) fits_u up_u carries_u
      (rv_down_send en) (rv_down_recv en) fits_d up_d carries_d"
    and "tunnel_links.relay_wired (rv_up_send en) (rv_up_recv en) (rv_down_send en) (rv_down_recv en) en"
    and "tunnel_links.relay_ok up_u carries_u up_d carries_d en po pl pq pd (\<lambda>_. []) (\<lambda>_. []) t"
proof -
  show l: "tunnel_links (rv_up_send en) (rv_up_recv en) fits_u up_u carries_u
      (rv_down_send en) (rv_down_recv en) fits_d up_d carries_d"
    by (rule tunnel_links.intro [OF assms(1,2)])
  show "tunnel_links.relay_wired (rv_up_send en) (rv_up_recv en) (rv_down_send en) (rv_down_recv en) en"
    using assms(3) by (simp add: tunnel_links.relay_wired_def [OF l])
  have "message_link.carries_frames carries_u (rv_ser en) x []" if "carries_u x []" for x
    using that message_link.carries_frames_def [OF exact_link.axioms(1) [OF assms(1)]] by auto
  moreover have "message_link.carries_frames carries_d (rv_ser en) x []" if "carries_d x []" for x
    using that message_link.carries_frames_def [OF exact_link.axioms(1) [OF assms(2)]] by auto
  moreover have "flow po pl pq pd (\<lambda>_. []) (\<lambda>_. []) [] [] (\<lambda>_. []) (re_proxy t) (re_session t) (re_app t)"
    using assms(4) by (simp add: flow_def fresh_relay_def proxy_ok_def table_ok_def table_fits_def)
  ultimately show "tunnel_links.relay_ok up_u carries_u up_d carries_d en po pl pq pd (\<lambda>_. []) (\<lambda>_. []) t"
    using assms(4) unfolding tunnel_links.relay_ok_def [OF l] fresh_relay_def by blast
qed

section \<open>A concrete proxy session\<close>

text \<open>A codec for the frames of one stream, over two WebSocket links.\<close>

fun relay_ser :: serializer where
  "relay_ser Ping = Inr [3]"
| "relay_ser (StreamOpen i target) = (if target = TargetDomain ''h'' 1 then Inr (6 # be32 i) else Inl ''unsupported'')"
| "relay_ser (StreamData i d) = Inr (7 # be32 i @ d)"
| "relay_ser _ = Inl ''unsupported''"

fun relay_de :: deserializer where
  "relay_de (b # p) =
     (if b = 3 then Inr Ping else if b = 6 then Inr (StreamOpen (un32 (take 4 p)) (TargetDomain ''h'' 1))
      else if b = 7 then Inr (StreamData (un32 (take 4 p)) (drop 4 p)) else Inl ''bad tag'')"
| "relay_de [] = Inl ''empty''"

lemma relay_codec: "codec_laws relay_ser relay_de"
proof -
  have "relay_de bs = Inr f" if "relay_ser f = Inr bs" for f bs
    using that by (cases f) (auto split: if_splits)
  then show ?thesis by (simp add: codec_laws_def)
qed

definition empty_ws :: ws_link where
  "empty_ws = \<lparr>ws_sent = [], ws_fault = \<lambda>_. None, ws_in = []\<rparr>"

definition relay_demo_env :: "(frame queue, to_local queue, ws_link, ws_link, frame queue, bytes queue) relay_env" where
  "relay_demo_env = \<lparr>rv_co = queue_chan, rv_cl = queue_chan, rv_rt = bounded_rt, rv_ser = relay_ser, rv_de = relay_de,
     rv_up_send = ws_send, rv_up_recv = ws_recv, rv_down_send = ws_send, rv_down_recv = ws_recv\<rparr>"

definition relay_demo :: "(frame queue, to_local queue, ws_link, ws_link, frame queue, bytes queue) relay" where
  "relay_demo = \<lparr>re_proxy = proxy_start (q_channel 8) (\<lambda>_. q_channel 0) None live_default, re_up = empty_ws, re_down = empty_ws,
     re_session = demo_session\<lparr>ss_streams := []\<rparr>, re_app = (app run_w0)\<lparr>queues := (\<lambda>_. q_channel 8)\<rparr>\<rparr>"

lemma relay_demo_links:
  "exact_link (rv_up_send relay_demo_env) (rv_up_recv relay_demo_env) (\<lambda>_. True) ws_up ws_carries"
  "exact_link (rv_down_send relay_demo_env) (rv_down_recv relay_demo_env) (\<lambda>_. True) ws_up ws_carries"
  "codec_laws (rv_ser relay_demo_env) (rv_de relay_demo_env)" "chan_laws (rv_co relay_demo_env) q_pending"
  "chan_laws (rv_cl relay_demo_env) q_pending" "queue_laws (rv_rt relay_demo_env) q_pending" "data_laws (rv_rt relay_demo_env) q_pending"
  using ws_exact.exact_link_axioms relay_codec queue_chan_laws bounded_rt_laws by (simp_all add: relay_demo_env_def)

lemma relay_demo_fresh: "fresh_relay ws_up ws_carries ws_up ws_carries q_pending q_pending relay_demo"
  by (simp add: fresh_relay_def relay_demo_def empty_ws_def ws_up_def ws_carries_def proxy_start_def q_channel_def q_pending_def run_w0_def)

text \<open>A tunnel is opened, the client sends two bytes, and the remote host answers with one.\<close>

definition relay_demo_events :: "relay_event list" where
  "relay_demo_events =
     [Local (Accepts [Inr tunnel_head]), Local (Opens 0), Local (Replies 0 (Inr ())), Client_writes, Server_gets,
      Remote_dials 0 (Inr ()), Local (Reads 0 (Inr [1, 2])), Client_writes, Server_gets, Remote_writes 0 (Inr ()),
      Remote_reads 0 (Inr [9]), Server_puts, Client_gets, Local (Delivers 0 True (Inr ()))]"

lemma relay_demo_run:
  "\<exists>t rm lc. relay_run relay_demo_env relay_demo_events relay_demo = Some t \<and> remotes (re_app t) 0 = Some rm \<and>
     rm_written rm = [1, 2] \<and> px_locals (re_proxy t) 0 = Some lc \<and> lo_sock lc = established_reply @ [9]"
  by (simp add: relay_demo_events_def relay_demo_def relay_demo_env_def relay_step_def always_can_def proxy_turn_def proxy_start_def
      tunnel_head_parsed accept_local_def on_local_def local_open_def local_reply_def local_read_def local_deliver_def set_local_def
      send_frame_def send_local_def chan_send_def queue_chan_def q_channel_def q_try_send_def q_recv_def writer_next_def
      frame_send_def frame_recv_def empty_ws_def ws_send_def ws_push_def ws_recv_def run_w0_def run_cfg_def template_def demo_session_id demo_session_peer
      open_remote_stream_def on_remote_def remote_dial_def remote_read_def remote_write_def send_out_def set_remote_def
      feed_remote_def count_up_def count_down_def writer_task_def bounded_rt_def payload_len_def Let_def) auto

section \<open>The property\<close>

text \<open>C3. End to end, over any transport and any interleaving of the tasks of both ends: what a remote socket is sent is, in
  order, part of what the local sockets of its stream number gave the proxy, and what a local socket is sent is, in
  order, part of the reply to its CONNECT followed by what the remote sockets of its stream number gave the server.
  Nothing crosses from one stream to another; bytes are lost only where a channel refuses them.\<close>

theorem streams_end_to_end:
  assumes "exact_link (rv_up_send en) (rv_up_recv en) fits_u up_u carries_u"
    and "exact_link (rv_down_send en) (rv_down_recv en) fits_d up_d carries_d"
    and "codec_laws (rv_ser en) (rv_de en)" and "chan_laws (rv_co en) po" and "chan_laws (rv_cl en) pl"
    and "queue_laws (rv_rt en) pq" and "data_laws (rv_rt en) pd"
    and "fresh_relay up_u carries_u up_d carries_d po pq t" and "relay_run en evs t = Some t'"
  shows "(\<forall>r rm. remotes (re_app t') r = Some rm \<longrightarrow> subseq (rm_written rm) (over_run (taken_up (rm_stream rm)) en evs t)) \<and>
    (\<forall>n lc. px_locals (re_proxy t') n = Some lc \<longrightarrow>
      subseq (lo_sock lc) (established_reply @ over_run (taken_down (lo_id lc)) en evs t))"
proof -
  note start = fresh_relay_ok(1,2) [OF assms(1-3,8)]
  have "tunnel_links.relay_ok up_u carries_u up_d carries_d en po pl pq pd (\<lambda>_. []) (\<lambda>_. []) t"
    by (rule fresh_relay_ok(3) [OF assms(1-3,8)])
  from tunnel_links.relay_run_ok [OF start assms(4-7) this assms(9)] obtain fu fd feed where
    f: "flow po pl pq pd (\<lambda>i. over_run (taken_up i) en evs t) (\<lambda>i. over_run (taken_down i) en evs t) fu fd feed
      (re_proxy t') (re_session t') (re_app t')"
    unfolding tunnel_links.relay_ok_def [OF start(1)] by auto
  have "subseq (rm_written rm) (over_run (taken_up (rm_stream rm)) en evs t)" if "remotes (re_app t') r = Some rm" for r rm
    using flowD(4) [OF f that] unfolding held_bytes_def append_assoc
    by (metis prefixI prefix_imp_subseq subseq_order.order_trans)
  moreover have "subseq (lo_sock lc) (established_reply @ over_run (taken_down (lo_id lc)) en evs t)"
    if "px_locals (re_proxy t') n = Some lc" for n lc
  proof -
    have "subseq (lo_sock lc) (established_reply @ feed (lo_id lc))"
      using local_ok_sock flowD(1) [OF f] that unfolding proxy_ok_def by blast
    moreover have "subseq (feed (lo_id lc)) (over_run (taken_down (lo_id lc)) en evs t)"
      using flowD(5) [OF f, of "lo_id lc"] by (metis prefixI prefix_imp_subseq subseq_order.order_trans)
    ultimately show ?thesis by (meson list_emb_append_mono subseq_order.order_refl subseq_order.order_trans)
  qed
  ultimately show ?thesis by blast
qed

theorem streams_end_to_end_witness:
  "\<exists>t rm lc. relay_run relay_demo_env relay_demo_events relay_demo = Some t \<and> remotes (re_app t) 0 = Some rm \<and>
     rm_written rm = [1, 2] \<and> subseq [1, 2] (over_run (taken_up (rm_stream rm)) relay_demo_env relay_demo_events relay_demo) \<and>
     px_locals (re_proxy t) 0 = Some lc \<and> lo_sock lc = established_reply @ [9] \<and>
     subseq (established_reply @ [9])
       (established_reply @ over_run (taken_down (lo_id lc)) relay_demo_env relay_demo_events relay_demo)"
proof -
  obtain t rm lc where r: "relay_run relay_demo_env relay_demo_events relay_demo = Some t"
    and e: "remotes (re_app t) 0 = Some rm" "rm_written rm = [1, 2]" "px_locals (re_proxy t) 0 = Some lc" "lo_sock lc = established_reply @ [9]"
    using relay_demo_run by blast
  from streams_end_to_end [OF relay_demo_links relay_demo_fresh r] e have
    "subseq (rm_written rm) (over_run (taken_up (rm_stream rm)) relay_demo_env relay_demo_events relay_demo)"
    "subseq (lo_sock lc) (established_reply @ over_run (taken_down (lo_id lc)) relay_demo_env relay_demo_events relay_demo)" by blast+
  with r e show ?thesis by metis
qed

end
