(* ===== verification/Tls.thy ===== *)
theory Tls
  imports Connect
begin

text \<open>
  \<open>core/core/src/crypto/tls.rs\<close>: certificates, keys and the TLS configurations of both ends. The PEM parsers, the
  trust anchors and the generator of certificates are third-party (\<open>rustls-pemfile\<close>, \<open>rustls\<close>, \<open>webpki-roots\<close>,
  \<open>rcgen\<close>) and arguments; a configuration is the record of what the builder was given. The facts: whose
  certificate a client accepts, and that the QUIC configurations differ in the protocol version only.
\<close>

section \<open>Definitions\<close>

text \<open>\<open>'c\<close> is a certificate, \<open>'k\<close> a private key, \<open>'a\<close> a trust anchor.\<close>

record ('c, 'k, 'a) pki =
  pk_certs :: "string \<Rightarrow> string + 'c list"
  pk_key :: "string \<Rightarrow> string + 'k option"
  pk_anchor :: "'c \<Rightarrow> string + 'a"
  pk_public :: "'a list"
  pk_matches :: "'c list \<Rightarrow> 'k \<Rightarrow> string + unit"
  pk_generate :: "string list \<Rightarrow> string + string \<times> string"

definition ALPN :: bytes where
  "ALPN = [101, 116, 49]"

definition generate_self_signed :: "('c, 'k, 'a) pki \<Rightarrow> string list \<Rightarrow> (string \<times> string) res" where
  "generate_self_signed pk sans = map_err (\<lambda>e. Crypto (''rcgen self-signed: '' @ e)) (pk_generate pk sans)"

definition parse_cert_chain :: "('c, 'k, 'a) pki \<Rightarrow> string \<Rightarrow> 'c list res" where
  "parse_cert_chain pk pem =
     bind_res (map_err (\<lambda>e. Crypto (''parse cert pem: '' @ e)) (pk_certs pk pem)) (\<lambda>certs.
       if certs = [] then Inl (Crypto ''no certificates in PEM'') else Inr certs)"

definition parse_private_key :: "('c, 'k, 'a) pki \<Rightarrow> string \<Rightarrow> 'k res" where
  "parse_private_key pk pem =
     bind_res (map_err (\<lambda>e. Crypto (''parse key pem: '' @ e)) (pk_key pk pem)) (\<lambda>key.
       case key of None \<Rightarrow> Inl (Crypto ''no private key in PEM'') | Some k \<Rightarrow> Inr k)"

record ('c, 'k) tls_server =
  ts_chain :: "'c list"
  ts_key :: 'k
  ts_alpn :: "bytes list"
  ts_only_13 :: bool

text \<open>Who is trusted: anyone (\<open>NoVerify\<close>), or chains up to one of the anchors.\<close>

datatype 'a verifier = No_verify | Roots "'a list"

record 'a tls_client =
  tl_verifier :: "'a verifier"
  tl_alpn :: "bytes list"
  tl_only_13 :: bool

definition tls_server_of :: "('c, 'k, 'a) pki \<Rightarrow> string \<Rightarrow> bool \<Rightarrow> string \<Rightarrow> string \<Rightarrow> ('c, 'k) tls_server res" where
  "tls_server_of pk what only13 cert_pem key_pem =
     bind_res (parse_cert_chain pk cert_pem) (\<lambda>certs.
     bind_res (parse_private_key pk key_pem) (\<lambda>key.
     bind_res (map_err (\<lambda>e. Crypto (what @ e)) (pk_matches pk certs key)) (\<lambda>_.
       Inr \<lparr>ts_chain = certs, ts_key = key, ts_alpn = [ALPN], ts_only_13 = only13\<rparr>)))"

definition tls_server_config :: "('c, 'k, 'a) pki \<Rightarrow> string \<Rightarrow> string \<Rightarrow> ('c, 'k) tls_server res" where
  "tls_server_config pk = tls_server_of pk ''server tls config: '' False"

definition quic_server_config :: "('c, 'k, 'a) pki \<Rightarrow> string \<Rightarrow> string \<Rightarrow> ('c, 'k) tls_server res" where
  "quic_server_config pk = tls_server_of pk ''quic server tls config: '' True"

text \<open>The anchors of a pinned PEM, one after the other; the first that is refused ends the loop.\<close>

fun add_roots :: "('c, 'k, 'a) pki \<Rightarrow> 'c list \<Rightarrow> 'a list res" where
  "add_roots pk [] = Inr []"
| "add_roots pk (c # cs) =
     bind_res (map_err (\<lambda>e. Crypto (''add pinned cert: '' @ e)) (pk_anchor pk c)) (\<lambda>a.
     bind_res (add_roots pk cs) (\<lambda>as. Inr (a # as)))"

definition client_roots :: "('c, 'k, 'a) pki \<Rightarrow> string option \<Rightarrow> 'a list res" where
  "client_roots pk pinned =
     (case pinned of
        Some pem \<Rightarrow> bind_res (parse_cert_chain pk pem) (add_roots pk)
      | None \<Rightarrow> Inr (pk_public pk))"

definition tls_client_of :: "('c, 'k, 'a) pki \<Rightarrow> bool \<Rightarrow> bool \<Rightarrow> string option \<Rightarrow> 'a tls_client res" where
  "tls_client_of pk only13 skip_verify pinned =
     bind_res (if skip_verify then Inr No_verify else bind_res (client_roots pk pinned) (\<lambda>rs. Inr (Roots rs))) (\<lambda>v.
       Inr \<lparr>tl_verifier = v, tl_alpn = [ALPN], tl_only_13 = only13\<rparr>)"

definition tls_client_config :: "('c, 'k, 'a) pki \<Rightarrow> bool \<Rightarrow> string option \<Rightarrow> 'a tls_client res" where
  "tls_client_config pk = tls_client_of pk False"

definition quic_client_config :: "('c, 'k, 'a) pki \<Rightarrow> bool \<Rightarrow> string option \<Rightarrow> 'a tls_client res" where
  "quic_client_config pk = tls_client_of pk True"

text \<open>\<open>NoVerify::verify_server_cert\<close> and the two signature checks say yes to everything; \<open>webpki\<close> is the
  verification of a chain and a name against anchors.\<close>

definition cert_accepted :: "('a list \<Rightarrow> 'c list \<Rightarrow> string \<Rightarrow> bool) \<Rightarrow> 'a verifier \<Rightarrow> 'c list \<Rightarrow> string \<Rightarrow> bool" where
  "cert_accepted webpki v chain name = (case v of No_verify \<Rightarrow> True | Roots rs \<Rightarrow> webpki rs chain name)"

section \<open>Facts\<close>

lemma add_roots_Inr: "add_roots pk cs = Inr as \<longleftrightarrow> list_all2 (\<lambda>c a. pk_anchor pk c = Inr a) cs as"
proof (induction cs arbitrary: as)
  case (Cons c cs)
  then show ?case by (cases as) (simp_all add: bind_res_Inr_iff)
qed auto

text \<open>The anchors a client trusts: those of the pinned PEM only, or the public ones only.\<close>

definition trusted :: "('c, 'k, 'a) pki \<Rightarrow> string option \<Rightarrow> 'a list \<Rightarrow> bool" where
  "trusted pk pinned rs \<longleftrightarrow>
     (case pinned of
        None \<Rightarrow> rs = pk_public pk
      | Some pem \<Rightarrow> \<exists>cs. cs \<noteq> [] \<and> pk_certs pk pem = Inr cs \<and> list_all2 (\<lambda>c a. pk_anchor pk c = Inr a) cs rs)"

lemma parse_cert_chain_Inr: "parse_cert_chain pk pem = Inr cs \<longleftrightarrow> pk_certs pk pem = Inr cs \<and> cs \<noteq> []"
  by (auto simp: parse_cert_chain_def bind_res_Inr_iff split: if_splits)

lemma client_roots_Inr: "client_roots pk pinned = Inr rs \<longleftrightarrow> trusted pk pinned rs"
  by (cases pinned) (auto simp: client_roots_def trusted_def parse_cert_chain_Inr bind_res_Inr_iff add_roots_Inr)

lemma tls_client_Inr:
  "tls_client_of pk only13 skip pinned = Inr cfg \<longleftrightarrow>
     tl_alpn cfg = [ALPN] \<and> tl_only_13 cfg = only13 \<and>
     (if skip then tl_verifier cfg = No_verify else \<exists>rs. trusted pk pinned rs \<and> tl_verifier cfg = Roots rs)"
proof (cases skip)
  case True
  then show ?thesis by (cases cfg) (auto simp: tls_client_of_def)
next
  case False
  then have "tls_client_of pk only13 skip pinned = Inr cfg \<longleftrightarrow>
      (\<exists>rs. trusted pk pinned rs \<and> cfg = \<lparr>tl_verifier = Roots rs, tl_alpn = [ALPN], tl_only_13 = only13\<rparr>)"
    unfolding tls_client_of_def bind_res_Inr_iff by (auto simp: bind_res_Inr_iff client_roots_Inr)
  then show ?thesis using False by (cases cfg) auto
qed

lemma client_accepts:
  assumes "tls_client_of pk only13 skip pinned = Inr cfg" and "cert_accepted webpki (tl_verifier cfg) chain name"
  shows "skip \<or> (\<exists>rs. trusted pk pinned rs \<and> webpki rs chain name)"
  using assms unfolding tls_client_Inr by (auto simp: cert_accepted_def split: if_splits)

text \<open>The QUIC configurations are the TLS ones with TLS 1.3 alone.\<close>

lemma quic_client_is_tls:
  "quic_client_config pk skip pinned = bind_res (tls_client_config pk skip pinned) (\<lambda>c. Inr (c\<lparr>tl_only_13 := True\<rparr>))"
  by (auto simp: quic_client_config_def tls_client_config_def tls_client_of_def bind_res_def split: sum.splits)

lemma quic_server_is_tls:
  "tls_server_config pk cert key = Inr c \<Longrightarrow> quic_server_config pk cert key = Inr (c\<lparr>ts_only_13 := True\<rparr>)"
  unfolding quic_server_config_def tls_server_config_def tls_server_of_def
  by (auto simp: bind_res_Inr_iff map_err_Inr_iff)

end
