(* ===== verification/Dial.thy ===== *)
theory Dial
  imports Tls Ip_Addr Frame_Channel
begin

text \<open>
  Setting up a link in \<open>core/core/src/transport\<close>: \<open>connect\<close>, \<open>connect_over\<close>, \<open>bind\<close>, \<open>accept\<close> and \<open>finish\<close> of
  \<open>tcp.rs\<close>, \<open>ws.rs\<close> and \<open>quic.rs\<close>, and the two halves of a link they return. Sockets, TLS, WebSockets and QUIC are
  records of what \<open>tokio\<close>, \<open>rustls\<close>, \<open>tungstenite\<close> and \<open>quinn\<close> answer. The facts: the sides of a TCP link agree
  after the handshakes and what one sends the other receives; a link over TLS was checked against the anchors
  the profile allows.
\<close>

section \<open>Sockets\<close>

text \<open>\<open>set_nodelay(true).ok()\<close>: when the option cannot be set the stream is used as it is.\<close>

record ('a, 'n, 's, 'tls, 'ws) dial_net =
  dn_tcp :: "string \<Rightarrow> u16 \<Rightarrow> io_error + 's"
  dn_nodelay :: "'s \<Rightarrow> io_error + 's"
  dn_server_name :: "string \<Rightarrow> string + 'n"
  dn_tls :: "'a tls_client \<Rightarrow> 'n \<Rightarrow> 's \<Rightarrow> string + 'tls"
  dn_ws :: "string \<Rightarrow> 'tls \<Rightarrow> ws_error + 'ws"

definition set_nodelay :: "('s \<Rightarrow> io_error + 's) \<Rightarrow> 's \<Rightarrow> 's" where
  "set_nodelay nodelay s = (case nodelay s of Inl _ \<Rightarrow> s | Inr s' \<Rightarrow> s')"

text \<open>A bound TCP socket answers \<open>accept\<close> with a stream and the address of the peer.\<close>

record ('s, 'tls, 'ws) accept_net =
  an_accept :: "io_error + 's \<times> socket_addr"
  an_nodelay :: "'s \<Rightarrow> io_error + 's"
  an_ws_plain :: "'s \<Rightarrow> ws_error + 'ws"
  an_ws_tls :: "'tls \<Rightarrow> ws_error + 'ws"

record 'l accepted =
  ac_peer :: socket_addr
  ac_link :: 'l

section \<open>Noise over TCP\<close>

text \<open>What \<open>wrap\<close> returns: the two halves of the stream and the transport state both of them lock.\<close>

record 'ts noise_channel =
  nc_w :: writer
  nc_r :: reader
  nc_ts :: 'ts

definition tcp_wrap :: "duplex \<Rightarrow> 'ts \<Rightarrow> 'ts noise_channel" where
  "tcp_wrap d ts = \<lparr>nc_w = dx_out d, nc_r = dx_in d, nc_ts = ts\<rparr>"

definition channel_send :: "'ts noise_fun \<Rightarrow> bytes \<Rightarrow> 'ts noise_channel \<Rightarrow> unit res \<times> 'ts noise_channel" where
  "channel_send wm msg c =
     (case noise_send wm msg (nc_w c, nc_ts c) of (x, w, ts) \<Rightarrow> (x, c\<lparr>nc_w := w, nc_ts := ts\<rparr>))"

definition channel_recv :: "'ts noise_fun \<Rightarrow> 'ts noise_channel \<Rightarrow> bytes res \<times> 'ts noise_channel" where
  "channel_recv rm c =
     (case noise_recv rm (nc_r c, nc_ts c) of (x, r, ts) \<Rightarrow> (x, c\<lparr>nc_r := r, nc_ts := ts\<rparr>))"

text \<open>\<open>close\<close> shuts the stream down and answers \<open>Ok\<close> whatever that says.\<close>

definition channel_close :: "(writer \<Rightarrow> (io_error + unit) \<times> writer) \<Rightarrow> 'ts noise_channel \<Rightarrow> unit res \<times> 'ts noise_channel" where
  "channel_close shutdown c = (Inr (), c\<lparr>nc_w := snd (shutdown (nc_w c))\<rparr>)"

definition tcp_connect_over ::
  "('p, 'hs, 'ts) snow \<Rightarrow> duplex \<Rightarrow> client_security \<Rightarrow> 'ts noise_channel res" where
  "tcp_connect_over sn stream sec =
     (case initiator_handshake sn (sec_noise_psk sec) stream of (r, stream) \<Rightarrow>
        bind_res r (\<lambda>ts. Inr (tcp_wrap stream ts)))"

definition tcp_connect ::
  "('a, 'n, duplex, 'tls, 'ws) dial_net \<Rightarrow> ('p, 'hs, 'ts) snow \<Rightarrow> endpoint \<Rightarrow> client_security \<Rightarrow> 'ts noise_channel res" where
  "tcp_connect net sn ep sec =
     bind_res (map_err Io (dn_tcp net (ep_host ep) (ep_port ep))) (\<lambda>stream.
       tcp_connect_over sn (set_nodelay (dn_nodelay net) stream) sec)"

record 'i tcp_listener =
  tn_inner :: 'i
  tn_sec :: server_security

definition tcp_bind :: "(socket_addr \<Rightarrow> io_error + 'i) \<Rightarrow> socket_addr \<Rightarrow> server_security \<Rightarrow> 'i tcp_listener res" where
  "tcp_bind bind_socket addr sec =
     bind_res (map_err Io (bind_socket addr)) (\<lambda>i. Inr \<lparr>tn_inner = i, tn_sec = sec\<rparr>)"

record 's tcp_incoming =
  ti_stream :: 's
  ti_peer :: socket_addr
  ti_sec :: server_security

definition tcp_accept :: "('i \<Rightarrow> ('s, 'tls, 'ws) accept_net) \<Rightarrow> 'i tcp_listener \<Rightarrow> 's tcp_incoming res" where
  "tcp_accept net l =
     bind_res (map_err Io (an_accept (net (tn_inner l)))) (\<lambda>(stream, peer).
       Inr \<lparr>ti_stream = set_nodelay (an_nodelay (net (tn_inner l))) stream, ti_peer = peer, ti_sec = tn_sec l\<rparr>)"

definition tcp_finish :: "('p, 'hs, 'ts) snow \<Rightarrow> duplex tcp_incoming \<Rightarrow> 'ts noise_channel accepted res" where
  "tcp_finish sn i =
     (case responder_handshake sn (svs_noise_psk (ti_sec i)) (ti_stream i) of (r, stream) \<Rightarrow>
        bind_res r (\<lambda>ts. Inr \<lparr>ac_peer = ti_peer i, ac_link = tcp_wrap stream ts\<rparr>))"

section \<open>WebSockets over TLS\<close>

definition ws_url :: "endpoint \<Rightarrow> string" where
  "ws_url ep = ''wss://'' @ ep_server_name ep @ '':'' @ show_u16 (ep_port ep) @ ep_ws_path ep"

text \<open>The part \<open>connect\<close> and \<open>connect_over\<close> share: the name, TLS on the stream, the upgrade on TLS.\<close>

definition ws_upgrade :: "('a, 'n, 's, 'tls, 'ws) dial_net \<Rightarrow> 'a tls_client \<Rightarrow> endpoint \<Rightarrow> 's \<Rightarrow> 'ws res" where
  "ws_upgrade net cfg ep stream =
     bind_res (map_err (\<lambda>e. Crypto (''invalid server name: '' @ e)) (dn_server_name net (ep_server_name ep))) (\<lambda>name.
     bind_res (map_err (\<lambda>e. Crypto (''tls connect: '' @ e)) (dn_tls net cfg name stream)) (\<lambda>tls.
     map_err ws_err (dn_ws net (ws_url ep) tls)))"

definition ws_connect ::
  "('a, 'n, 's, 'tls, 'ws) dial_net \<Rightarrow> ('c, 'k, 'a) pki \<Rightarrow> endpoint \<Rightarrow> client_security \<Rightarrow> 'ws res" where
  "ws_connect net pk ep sec =
     bind_res (tls_client_config pk (sec_tls_skip_verify sec) (sec_tls_pinned_cert_pem sec)) (\<lambda>cfg.
     bind_res (map_err Io (dn_tcp net (ep_host ep) (ep_port ep))) (\<lambda>tcp.
     ws_upgrade net cfg ep (set_nodelay (dn_nodelay net) tcp)))"

definition ws_connect_over ::
  "('a, 'n, 's, 'tls, 'ws) dial_net \<Rightarrow> ('c, 'k, 'a) pki \<Rightarrow> 's \<Rightarrow> endpoint \<Rightarrow> client_security \<Rightarrow> 'ws res" where
  "ws_connect_over net pk stream ep sec =
     bind_res (tls_client_config pk (sec_tls_skip_verify sec) (sec_tls_pinned_cert_pem sec)) (\<lambda>cfg.
     ws_upgrade net cfg ep stream)"

record ('i, 'c, 'k) ws_listener =
  wl_inner :: 'i
  wl_acceptor :: "('c, 'k) tls_server option"

definition ws_bind ::
  "(socket_addr \<Rightarrow> io_error + 'i) \<Rightarrow> ('c, 'k, 'a) pki \<Rightarrow> socket_addr \<Rightarrow> server_security \<Rightarrow> bool \<Rightarrow>
   ('i, 'c, 'k) ws_listener res" where
  "ws_bind bind_socket pk addr sec tls =
     bind_res
       (if tls then bind_res (tls_server_config pk (svs_tls_cert_pem sec) (svs_tls_key_pem sec)) (\<lambda>cfg. Inr (Some cfg))
        else Inr None) (\<lambda>acceptor.
     bind_res (map_err Io (bind_socket addr)) (\<lambda>i. Inr \<lparr>wl_inner = i, wl_acceptor = acceptor\<rparr>))"

record ('s, 'c, 'k) ws_incoming =
  wi_tcp :: 's
  wi_peer :: socket_addr
  wi_acceptor :: "('c, 'k) tls_server option"

definition ws_accept ::
  "('i \<Rightarrow> ('s, 'tls, 'ws) accept_net) \<Rightarrow> ('i, 'c, 'k) ws_listener \<Rightarrow> ('s, 'c, 'k) ws_incoming res" where
  "ws_accept net l =
     bind_res (map_err Io (an_accept (net (wl_inner l)))) (\<lambda>(tcp, peer).
       Inr \<lparr>wi_tcp = set_nodelay (an_nodelay (net (wl_inner l))) tcp, wi_peer = peer, wi_acceptor = wl_acceptor l\<rparr>)"

text \<open>\<open>tls_accept\<close> is the handshake of the acceptor with its certificate and key.\<close>

definition ws_finish ::
  "(('c, 'k) tls_server \<Rightarrow> 's \<Rightarrow> string + 'tls) \<Rightarrow> ('s, 'tls, 'ws) accept_net \<Rightarrow> ('s, 'c, 'k) ws_incoming \<Rightarrow>
   'ws accepted res" where
  "ws_finish tls_accept net i =
     bind_res
       (case wi_acceptor i of
          Some acceptor \<Rightarrow>
            bind_res (map_err (\<lambda>e. Crypto (''tls accept: '' @ e)) (tls_accept acceptor (wi_tcp i))) (\<lambda>tls.
              map_err ws_err (an_ws_tls net tls))
        | None \<Rightarrow> map_err ws_err (an_ws_plain net (wi_tcp i))) (\<lambda>link.
     Inr \<lparr>ac_peer = wi_peer i, ac_link = link\<rparr>)"

section \<open>QUIC\<close>

text \<open>What \<open>quinn\<close> offers: \<open>'qc\<close> and \<open>'qs\<close> are its configurations, \<open>'ep\<close> an endpoint, \<open>'inc\<close> an attempt that has
  arrived, \<open>'cn\<close> a connection.\<close>

record ('a, 'c, 'k, 'qc, 'qs, 'ep, 'inc, 'cn) quinn =
  qn_client_crypto :: "'a tls_client \<Rightarrow> string + 'qc"
  qn_client :: "string \<Rightarrow> string + 'ep"
  qn_set_default :: "'qc \<Rightarrow> 'ep \<Rightarrow> 'ep"
  qn_lookup :: "string \<Rightarrow> u16 \<Rightarrow> io_error + socket_addr list"
  qn_connect :: "'ep \<Rightarrow> socket_addr \<Rightarrow> string \<Rightarrow> string + 'inc"
  qn_connecting :: "'inc \<Rightarrow> string + 'cn"
  qn_open_bi :: "'cn \<Rightarrow> string + duplex"
  qn_server_crypto :: "('c, 'k) tls_server \<Rightarrow> string + 'qs"
  qn_server :: "'qs \<Rightarrow> socket_addr \<Rightarrow> string + 'ep"
  qn_accept :: "'ep \<Rightarrow> 'inc option"
  qn_incoming :: "'inc \<Rightarrow> string + 'cn"
  qn_remote :: "'cn \<Rightarrow> socket_addr"
  qn_accept_bi :: "'cn \<Rightarrow> string + duplex"

text \<open>A link keeps the endpoint and the connection alive (\<open>Keep\<close>) beside its two streams.\<close>

record ('ep, 'cn) quic_channel =
  qc_endpoint :: 'ep
  qc_conn :: 'cn
  qc_send :: writer
  qc_recv :: reader

definition quic_wrap :: "'ep \<Rightarrow> 'cn \<Rightarrow> duplex \<Rightarrow> ('ep, 'cn) quic_channel" where
  "quic_wrap endpoint conn d = \<lparr>qc_endpoint = endpoint, qc_conn = conn, qc_send = dx_out d, qc_recv = dx_in d\<rparr>"

definition quic_close :: "(writer \<Rightarrow> (string + unit) \<times> writer) \<Rightarrow> ('ep, 'cn) quic_channel \<Rightarrow> unit res \<times> ('ep, 'cn) quic_channel" where
  "quic_close finish c = (Inr (), c\<lparr>qc_send := snd (finish (qc_send c))\<rparr>)"

definition quic_connect ::
  "('a, 'c, 'k, 'qc, 'qs, 'ep, 'inc, 'cn) quinn \<Rightarrow> ('c, 'k, 'a) pki \<Rightarrow> endpoint \<Rightarrow> client_security \<Rightarrow>
   ('ep, 'cn) quic_channel res" where
  "quic_connect qn pk ep sec =
     bind_res (quic_client_config pk (sec_tls_skip_verify sec) (sec_tls_pinned_cert_pem sec)) (\<lambda>crypto.
     bind_res (map_err (\<lambda>e. Crypto (''quic client crypto: '' @ e)) (qn_client_crypto qn crypto)) (\<lambda>qcc.
     bind_res (map_err (\<lambda>e. Transport (''quic endpoint: '' @ e)) (qn_client qn ''0.0.0.0:0'')) (\<lambda>e0.
     let endpoint = qn_set_default qn qcc e0 in
     bind_res (map_err Io (qn_lookup qn (ep_host ep) (ep_port ep))) (\<lambda>addrs.
     bind_res (case addrs of [] \<Rightarrow> Inl (Config (''cannot resolve '' @ ep_host ep)) | a # _ \<Rightarrow> Inr a) (\<lambda>addr.
     bind_res (map_err (\<lambda>e. Transport (''quic connect: '' @ e)) (qn_connect qn endpoint addr (ep_server_name ep))) (\<lambda>connecting.
     bind_res (map_err (\<lambda>e. Transport (''quic handshake: '' @ e)) (qn_connecting qn connecting)) (\<lambda>conn.
     bind_res (map_err (\<lambda>e. Transport (''quic open_bi: '' @ e)) (qn_open_bi qn conn)) (\<lambda>streams.
     Inr (quic_wrap endpoint conn streams)))))))))"

definition quic_bind ::
  "('a, 'c, 'k, 'qc, 'qs, 'ep, 'inc, 'cn) quinn \<Rightarrow> ('c, 'k, 'a) pki \<Rightarrow> socket_addr \<Rightarrow> server_security \<Rightarrow> 'ep res" where
  "quic_bind qn pk addr sec =
     bind_res (quic_server_config pk (svs_tls_cert_pem sec) (svs_tls_key_pem sec)) (\<lambda>crypto.
     bind_res (map_err (\<lambda>e. Crypto (''quic server crypto: '' @ e)) (qn_server_crypto qn crypto)) (\<lambda>qsc.
     map_err (\<lambda>e. Transport (''quic bind: '' @ e)) (qn_server qn qsc addr)))"

definition quic_accept :: "('a, 'c, 'k, 'qc, 'qs, 'ep, 'inc, 'cn) quinn \<Rightarrow> 'ep \<Rightarrow> ('inc \<times> 'ep) res" where
  "quic_accept qn endpoint =
     (case qn_accept qn endpoint of
        None \<Rightarrow> Inl (Transport ''quic endpoint closed'')
      | Some incoming \<Rightarrow> Inr (incoming, endpoint))"

definition quic_finish ::
  "('a, 'c, 'k, 'qc, 'qs, 'ep, 'inc, 'cn) quinn \<Rightarrow> 'inc \<times> 'ep \<Rightarrow> ('ep, 'cn) quic_channel accepted res" where
  "quic_finish qn i =
     (case i of (incoming, endpoint) \<Rightarrow>
      bind_res (map_err (\<lambda>e. Transport (''quic accept: '' @ e)) (qn_incoming qn incoming)) (\<lambda>conn.
      let peer = qn_remote qn conn in
      bind_res (map_err (\<lambda>e. Transport (''quic accept_bi: '' @ e)) (qn_accept_bi qn conn)) (\<lambda>streams.
      Inr \<lparr>ac_peer = peer, ac_link = quic_wrap endpoint conn streams\<rparr>)))"

section \<open>The three behind one interface\<close>

text \<open>\<open>Box<dyn MessageSink>\<close> and \<open>Box<dyn MessageStream>\<close>: the halves of a link, whatever carries it.\<close>

datatype ('ts, 'ws, 'ep, 'cn) boxed_link =
    NoiseLink "'ts noise_channel"
  | WsLink 'ws
  | QuicLink "('ep, 'cn) quic_channel"

definition dialers_of ::
  "('a, 'n, duplex, 'tls, 'ws) dial_net \<Rightarrow> ('p, 'hs, 'ts) snow \<Rightarrow> ('c, 'k, 'a) pki \<Rightarrow>
   ('a, 'c, 'k, 'qc, 'qs, 'ep, 'inc, 'cn) quinn \<Rightarrow> ('ts, 'ws, 'ep, 'cn) boxed_link dialers" where
  "dialers_of net sn pk qn =
     \<lparr>d_tcp = \<lambda>ep sec. bind_res (tcp_connect net sn ep sec) (\<lambda>l. Inr (NoiseLink l)),
      d_ws = \<lambda>ep sec. bind_res (ws_connect net pk ep sec) (\<lambda>l. Inr (WsLink l)),
      d_quic = \<lambda>ep sec. bind_res (quic_connect qn pk ep sec) (\<lambda>l. Inr (QuicLink l))\<rparr>"

definition over_dialers_of ::
  "('a, 'n, duplex, 'tls, 'ws) dial_net \<Rightarrow> ('p, 'hs, 'ts) snow \<Rightarrow> ('c, 'k, 'a) pki \<Rightarrow>
   (duplex, ('ts, 'ws, 'ep, 'cn) boxed_link) over_dialers" where
  "over_dialers_of net sn pk =
     \<lparr>o_tcp = \<lambda>s sec. bind_res (tcp_connect_over sn s sec) (\<lambda>l. Inr (NoiseLink l)),
      o_ws = \<lambda>s ep sec. bind_res (ws_connect_over net pk s ep sec) (\<lambda>l. Inr (WsLink l))\<rparr>"

section \<open>The two sides of a TCP link\<close>

text \<open>What one side writes is what the other reads: the direction from \<open>c\<close> to \<open>s\<close> as a link of \<open>Transports\<close>.\<close>

definition one_way :: "'ts noise_channel \<Rightarrow> 'ts noise_channel \<Rightarrow> 'ts noise_link" where
  "one_way c s = \<lparr>n_pipe = \<lparr>p_out = nc_w c, p_in = nc_r s\<rparr>, n_tx = nc_ts c, n_rx = nc_ts s\<rparr>"

definition arrives :: "'ts noise_channel \<Rightarrow> 'ts noise_channel \<Rightarrow> 'ts noise_channel \<Rightarrow> 'ts noise_channel" where
  "arrives c c' s =
     s\<lparr>nc_r := (nc_r s)\<lparr>r_avail := r_avail (nc_r s) @ drop (length (w_sent (nc_w c))) (w_sent (nc_w c'))\<rparr>\<rparr>"

lemma channel_send_one_way:
  "channel_send wm m c = (x, c') \<Longrightarrow> noise_link_send wm m (one_way c s) = (x, one_way c' (arrives c c' s))"
  by (auto simp: channel_send_def noise_link_send_def one_way_def arrives_def pipe_write_def split: prod.splits)

lemma channel_recv_one_way:
  "channel_recv rm s = (x, s') \<Longrightarrow> noise_link_recv rm (one_way c s) = (x, one_way c s')"
  by (auto simp: channel_recv_def noise_link_recv_def one_way_def split: prod.splits)

text \<open>The streams of the two sides at the first byte, given what each will read of the other's handshake.\<close>

lemma tcp_sides_agree:
  assumes "snow_laws sn in_step"
  shows "\<exists>b1 b2. \<forall>(sec :: client_security) (ep :: endpoint) (net :: ('a, 'n, duplex, 'tls, 'ws) dial_net)
      (i :: duplex tcp_incoming) (wc :: writer) (ws :: writer) stream.
    sec_noise_psk sec = psk \<longrightarrow> svs_noise_psk (ti_sec i) = psk \<longrightarrow> healthy wc \<longrightarrow> healthy ws \<longrightarrow>
    dn_tcp net (ep_host ep) (ep_port ep) = Inr stream \<longrightarrow>
    set_nodelay (dn_nodelay net) stream = \<lparr>dx_in = \<lparr>r_avail = b2, r_end = e1\<rparr>, dx_out = wc\<rparr> \<longrightarrow>
    ti_stream i = \<lparr>dx_in = \<lparr>r_avail = b1, r_end = e2\<rparr>, dx_out = ws\<rparr> \<longrightarrow>
    (\<exists>c a. tcp_connect net sn ep sec = Inr c \<and> tcp_finish sn i = Inr a \<and> ac_peer a = ti_peer i \<and>
       w_sent (nc_w c) = w_sent wc @ b1 \<and> w_sent (nc_w (ac_link a)) = w_sent ws @ b2 \<and>
       healthy (nc_w c) \<and> healthy (nc_w (ac_link a)) \<and>
       r_avail (nc_r c) = [] \<and> r_avail (nc_r (ac_link a)) = [] \<and> in_step (nc_ts c) (nc_ts (ac_link a)))"
proof -
  from handshake_agrees [OF assms, of psk e1 e2] obtain b1 b2 ti tr where st: "in_step ti tr"
    and hi: "\<forall>w rest. healthy w \<longrightarrow>
       initiator_handshake sn psk \<lparr>dx_in = \<lparr>r_avail = b2 @ rest, r_end = e1\<rparr>, dx_out = w\<rparr> =
         (Inr ti, \<lparr>dx_in = \<lparr>r_avail = rest, r_end = e1\<rparr>, dx_out = w\<lparr>w_sent := w_sent w @ b1\<rparr>\<rparr>)"
    and hr: "\<forall>w rest. healthy w \<longrightarrow>
       responder_handshake sn psk \<lparr>dx_in = \<lparr>r_avail = b1 @ rest, r_end = e2\<rparr>, dx_out = w\<rparr> =
         (Inr tr, \<lparr>dx_in = \<lparr>r_avail = rest, r_end = e2\<rparr>, dx_out = w\<lparr>w_sent := w_sent w @ b2\<rparr>\<rparr>)"
    by blast
  show ?thesis
  proof (rule exI [of _ b1], rule exI [of _ b2], intro allI impI)
    fix sec :: client_security and ep :: endpoint and wc ws :: writer and stream
      and net :: "('a, 'n, duplex, 'tls, 'ws) dial_net" and i :: "duplex tcp_incoming"
    assume k: "sec_noise_psk sec = psk" "svs_noise_psk (ti_sec i) = psk" and h: "healthy wc" "healthy ws"
      and t: "dn_tcp net (ep_host ep) (ep_port ep) = Inr stream"
      and n: "set_nodelay (dn_nodelay net) stream = \<lparr>dx_in = \<lparr>r_avail = b2, r_end = e1\<rparr>, dx_out = wc\<rparr>"
      and s: "ti_stream i = \<lparr>dx_in = \<lparr>r_avail = b1, r_end = e2\<rparr>, dx_out = ws\<rparr>"
    from hi [rule_format, OF h(1), of "[]"] t n k(1) have
      "tcp_connect net sn ep sec =
         Inr (tcp_wrap \<lparr>dx_in = \<lparr>r_avail = [], r_end = e1\<rparr>, dx_out = wc\<lparr>w_sent := w_sent wc @ b1\<rparr>\<rparr> ti)"
      by (simp add: tcp_connect_def tcp_connect_over_def)
    moreover from hr [rule_format, OF h(2), of "[]"] s k(2) have
      "tcp_finish sn i = Inr \<lparr>ac_peer = ti_peer i, ac_link =
         tcp_wrap \<lparr>dx_in = \<lparr>r_avail = [], r_end = e2\<rparr>, dx_out = ws\<lparr>w_sent := w_sent ws @ b2\<rparr>\<rparr> tr\<rparr>"
      by (simp add: tcp_finish_def)
    ultimately show "\<exists>c a. tcp_connect net sn ep sec = Inr c \<and> tcp_finish sn i = Inr a \<and> ac_peer a = ti_peer i \<and>
       w_sent (nc_w c) = w_sent wc @ b1 \<and> w_sent (nc_w (ac_link a)) = w_sent ws @ b2 \<and>
       healthy (nc_w c) \<and> healthy (nc_w (ac_link a)) \<and>
       r_avail (nc_r c) = [] \<and> r_avail (nc_r (ac_link a)) = [] \<and> in_step (nc_ts c) (nc_ts (ac_link a))"
      using st h by (simp add: tcp_wrap_def healthy_def)
  qed
qed

text \<open>The pair of sides is a message link: sending happens at the first, receiving at the second.\<close>

definition side_send :: "'ts noise_fun \<Rightarrow> bytes \<Rightarrow> 'ts noise_channel \<times> 'ts noise_channel \<Rightarrow>
    unit res \<times> ('ts noise_channel \<times> 'ts noise_channel)" where
  "side_send wm m cs = (case channel_send wm m (fst cs) of (x, c') \<Rightarrow> (x, (c', arrives (fst cs) c' (snd cs))))"

definition side_recv :: "'ts noise_fun \<Rightarrow> 'ts noise_channel \<times> 'ts noise_channel \<Rightarrow>
    bytes res \<times> ('ts noise_channel \<times> 'ts noise_channel)" where
  "side_recv rm cs = (case channel_recv rm (snd cs) of (x, s') \<Rightarrow> (x, (fst cs, s')))"

definition side_up :: "'ts noise_channel \<times> 'ts noise_channel \<Rightarrow> bool" where
  "side_up cs = noise_up (one_way (fst cs) (snd cs))"

definition side_carries :: "'ts noise_fun \<Rightarrow> ('ts \<Rightarrow> 'ts \<Rightarrow> bool) \<Rightarrow> 'ts noise_channel \<times> 'ts noise_channel \<Rightarrow>
    bytes list \<Rightarrow> bool" where
  "side_carries wm in_step cs = noise_carries wm in_step (one_way (fst cs) (snd cs))"

lemma side_send_link:
  "noise_link_send wm m (one_way (fst cs) (snd cs)) =
     (case side_send wm m cs of (x, cs') \<Rightarrow> (x, one_way (fst cs') (snd cs')))"
proof -
  obtain x c' where "channel_send wm m (fst cs) = (x, c')" by (meson surj_pair)
  then show ?thesis by (simp add: side_send_def channel_send_one_way)
qed

lemma side_recv_link:
  "noise_link_recv rm (one_way (fst cs) (snd cs)) =
     (case side_recv rm cs of (x, cs') \<Rightarrow> (x, one_way (fst cs') (snd cs')))"
proof -
  obtain x s' where "channel_recv rm (snd cs) = (x, s')" by (meson surj_pair)
  then show ?thesis by (simp add: side_recv_def channel_recv_one_way)
qed

lemma side_send_refuses: "\<not> noise_fits m \<Longrightarrow> \<exists>e. side_send wm m cs = (Inl e, cs)"
  by (simp add: side_send_def channel_send_def noise_send_def noise_fits_def arrives_def)

lemma side_message_link:
  assumes "aead_laws wm rm in_step"
  shows "message_link (side_send wm) (side_recv rm) noise_fits side_up (side_carries wm in_step)"
proof
  fix cs ms m
  assume "side_carries wm in_step cs ms" "side_up cs" "noise_fits m"
  then obtain l where "noise_link_send wm m (one_way (fst cs) (snd cs)) = (Inr (), l)"
      "noise_up l" "noise_carries wm in_step l (ms @ [m])"
    using message_link.send_carries [OF noise_message_link [OF assms]]
    unfolding side_carries_def side_up_def by blast
  then show "\<exists>l'. side_send wm m cs = (Inr (), l') \<and> side_up l' \<and> side_carries wm in_step l' (ms @ [m])"
    unfolding side_send_link side_up_def side_carries_def by (auto split: prod.splits)
next
  fix cs m ms
  assume "side_carries wm in_step cs (m # ms)" "side_up cs"
  then obtain l where "noise_link_recv rm (one_way (fst cs) (snd cs)) = (Inr m, l)"
      "noise_up l" "noise_carries wm in_step l ms"
    using message_link.recv_carries [OF noise_message_link [OF assms]]
    unfolding side_carries_def side_up_def by blast
  then show "\<exists>l'. side_recv rm cs = (Inr m, l') \<and> side_up l' \<and> side_carries wm in_step l' ms"
    unfolding side_recv_link side_up_def side_carries_def by (auto split: prod.splits)
next
  fix m :: bytes and cs :: "'a noise_channel \<times> 'a noise_channel"
  assume "\<not> noise_fits m"
  then show "\<exists>e. side_send wm m cs = (Inl e, cs)" by (rule side_send_refuses)
qed

lemma sides_carry_nothing:
  assumes "aead_laws wm rm in_step" and "in_step (nc_ts c) (nc_ts s)" and "r_avail (nc_r s) = []" and "healthy (nc_w c)"
  shows "message_link.carries_frames (side_carries wm in_step) ser (c, s) []" and "side_up (c, s)"
  using assms
  by (auto simp: message_link.carries_frames_def [OF side_message_link [OF assms(1)]] side_carries_def noise_carries_def
      one_way_def side_up_def noise_up_def)

section \<open>What a TLS link was checked against\<close>

text \<open>\<open>rustls\<close> and \<open>quinn\<close> ask the configured verifier about the chain the server shows, for the name the client
  gave, before a connection is returned; \<open>valid\<close> is their verification of a chain against anchors.\<close>

definition tls_checks ::
  "('a list \<Rightarrow> 'c list \<Rightarrow> string \<Rightarrow> bool) \<Rightarrow> ('tls \<Rightarrow> 'c list) \<Rightarrow> ('a, 'n, 's, 'tls, 'ws) dial_net \<Rightarrow> bool" where
  "tls_checks valid shown net \<longleftrightarrow>
     (\<forall>cfg name n s t. dn_server_name net name = Inr n \<longrightarrow> dn_tls net cfg n s = Inr t \<longrightarrow>
        cert_accepted valid (tl_verifier cfg) (shown t) name)"

definition quinn_checks ::
  "('a list \<Rightarrow> 'c list \<Rightarrow> string \<Rightarrow> bool) \<Rightarrow> ('cn \<Rightarrow> 'c list) \<Rightarrow>
   ('a, 'c, 'k, 'qc, 'qs, 'ep, 'inc, 'cn) quinn \<Rightarrow> bool" where
  "quinn_checks valid shown qn \<longleftrightarrow>
     (\<forall>cfg qcc e0 addr name inc conn. qn_client_crypto qn cfg = Inr qcc \<longrightarrow>
        qn_connect qn (qn_set_default qn qcc e0) addr name = Inr inc \<longrightarrow> qn_connecting qn inc = Inr conn \<longrightarrow>
        cert_accepted valid (tl_verifier cfg) (shown conn) name)"

definition checked ::
  "('a list \<Rightarrow> 'c list \<Rightarrow> string \<Rightarrow> bool) \<Rightarrow> ('c, 'k, 'a) pki \<Rightarrow> client_security \<Rightarrow> 'c list \<Rightarrow> string \<Rightarrow> bool" where
  "checked valid pk sec chain name \<longleftrightarrow>
     sec_tls_skip_verify sec \<or> (\<exists>rs. trusted pk (sec_tls_pinned_cert_pem sec) rs \<and> valid rs chain name)"

lemma ws_upgrade_checked:
  assumes "tls_checks valid shown net" and "tls_client_config pk (sec_tls_skip_verify sec) (sec_tls_pinned_cert_pem sec) = Inr cfg"
    and "ws_upgrade net cfg ep s = Inr w"
  shows "\<exists>t. dn_ws net (ws_url ep) t = Inr w \<and> checked valid pk sec (shown t) (ep_server_name ep)"
proof -
  from assms(3) obtain n t where n: "dn_server_name net (ep_server_name ep) = Inr n" "dn_tls net cfg n s = Inr t"
    and w: "dn_ws net (ws_url ep) t = Inr w"
    by (auto simp: ws_upgrade_def bind_res_Inr_iff)
  from assms(1) n have "cert_accepted valid (tl_verifier cfg) (shown t) (ep_server_name ep)"
    unfolding tls_checks_def by blast
  from client_accepts [OF assms(2) [unfolded tls_client_config_def] this] w show ?thesis
    unfolding checked_def by blast
qed

lemma ws_connect_checked:
  assumes "tls_checks valid shown net" and "ws_connect net pk ep sec = Inr w"
  shows "\<exists>t. dn_ws net (ws_url ep) t = Inr w \<and> checked valid pk sec (shown t) (ep_server_name ep)"
  using assms(2) ws_upgrade_checked [OF assms(1)] unfolding ws_connect_def bind_res_Inr_iff by blast

lemma ws_connect_over_checked:
  assumes "tls_checks valid shown net" and "ws_connect_over net pk s ep sec = Inr w"
  shows "\<exists>t. dn_ws net (ws_url ep) t = Inr w \<and> checked valid pk sec (shown t) (ep_server_name ep)"
  using assms(2) ws_upgrade_checked [OF assms(1)] unfolding ws_connect_over_def bind_res_Inr_iff by blast

lemma quic_connect_checked:
  assumes "quinn_checks valid shown qn" and "quic_connect qn pk ep sec = Inr q"
  shows "checked valid pk sec (shown (qc_conn q)) (ep_server_name ep)"
proof -
  from assms(2) obtain cfg qcc e0 addr inc conn where
    cfg: "quic_client_config pk (sec_tls_skip_verify sec) (sec_tls_pinned_cert_pem sec) = Inr cfg"
    and q: "qn_client_crypto qn cfg = Inr qcc"
      "qn_connect qn (qn_set_default qn qcc e0) addr (ep_server_name ep) = Inr inc" "qn_connecting qn inc = Inr conn"
    and c: "qc_conn q = conn"
    unfolding quic_connect_def bind_res_Inr_iff map_err_Inr_iff Let_def quic_wrap_def by force
  from assms(1) q have "cert_accepted valid (tl_verifier cfg) (shown conn) (ep_server_name ep)"
    unfolding quinn_checks_def by blast
  from client_accepts [OF cfg [unfolded quic_client_config_def] this] c show ?thesis
    unfolding checked_def by blast
qed

lemma tcp_over_handshake:
  "tcp_connect_over sn s sec = Inr c \<Longrightarrow>
   \<exists>d0 d ts. initiator_handshake sn (sec_noise_psk sec) d0 = (Inr ts, d) \<and> c = tcp_wrap d ts"
  by (auto simp: tcp_connect_over_def bind_res_Inr_iff split: prod.splits)

lemma tcp_connect_handshake:
  "tcp_connect net sn ep sec = Inr c \<Longrightarrow>
   \<exists>d0 d ts. initiator_handshake sn (sec_noise_psk sec) d0 = (Inr ts, d) \<and> c = tcp_wrap d ts"
  using tcp_over_handshake by (fastforce simp: tcp_connect_def bind_res_Inr_iff)

text \<open>A TLS listener that was bound has a chain and a key.\<close>

lemma ws_bind_needs_material:
  assumes "ws_bind bind_socket pk addr sec True = Inr l"
  shows "\<exists>certs key. certs \<noteq> [] \<and> pk_certs pk (svs_tls_cert_pem sec) = Inr certs \<and>
    pk_key pk (svs_tls_key_pem sec) = Inr (Some key) \<and>
    wl_acceptor l = Some \<lparr>ts_chain = certs, ts_key = key, ts_alpn = [ALPN], ts_only_13 = False\<rparr>"
  using assms
  by (auto simp: ws_bind_def tls_server_config_def tls_server_of_def bind_res_Inr_iff parse_cert_chain_Inr
      parse_private_key_def split: option.splits)

section \<open>Concrete instances\<close>

text \<open>A handshake of two empty-payload messages, and its transport states at the first message.\<close>

definition short_snow :: "(unit, nat, nat) snow" where
  "short_snow = \<lparr>sn_params = (\<lambda>_. Inr ()), sn_initiator = (\<lambda>_ _. Inr 0), sn_responder = (\<lambda>_ _. Inr 0),
     sn_write = (\<lambda>hs m. Inr (replicate 48 1, Suc hs)), sn_read = (\<lambda>hs m. Inr ([], Suc hs)), sn_transport = (\<lambda>hs. Inr 0)\<rparr>"

lemma short_snow_laws: "snow_laws short_snow (=)"
  by (simp add: snow_laws_def short_snow_def)

text \<open>Certificates are their own text and their own anchors; the server shows \<open>ca\<close>.\<close>

definition text_pki :: "(string, string, string) pki" where
  "text_pki = \<lparr>pk_certs = (\<lambda>pem. Inr [pem]), pk_key = (\<lambda>pem. Inr (Some pem)), pk_anchor = Inr, pk_public = [''ca''],
     pk_matches = (\<lambda>_ _. Inr ()), pk_generate = (\<lambda>_. Inr (''ca'', ''key''))\<rparr>"

definition text_valid :: "string list \<Rightarrow> string list \<Rightarrow> string \<Rightarrow> bool" where
  "text_valid rs chain name \<longleftrightarrow> name \<noteq> [] \<and> list_ex (\<lambda>c. c \<in> set rs) chain"

definition text_net :: "duplex \<Rightarrow> (string, string, duplex, string, string) dial_net" where
  "text_net d = \<lparr>dn_tcp = (\<lambda>_ _. Inr d), dn_nodelay = Inr, dn_server_name = Inr,
     dn_tls = (\<lambda>cfg n _. if cert_accepted text_valid (tl_verifier cfg) [''ca''] n then Inr n else Inl ''bad certificate''),
     dn_ws = (\<lambda>url _. Inr url)\<rparr>"

definition text_quinn :: "(string, string, string, string verifier, unit, string verifier, string, string) quinn" where
  "text_quinn = \<lparr>qn_client_crypto = (\<lambda>cfg. Inr (tl_verifier cfg)), qn_client = (\<lambda>_. Inr No_verify),
     qn_set_default = (\<lambda>v _. v), qn_lookup = (\<lambda>_ p. Inr [SocketAddr (V4 1) p]),
     qn_connect = (\<lambda>v _ name. if cert_accepted text_valid v [''ca''] name then Inr name else Inl ''bad certificate''),
     qn_connecting = Inr, qn_open_bi = (\<lambda>_. Inl ''refused''), qn_server_crypto = (\<lambda>_. Inr ()),
     qn_server = (\<lambda>_ _. Inr No_verify), qn_accept = (\<lambda>_. None), qn_incoming = Inr,
     qn_remote = (\<lambda>_. SocketAddr (V4 1) 2), qn_accept_bi = (\<lambda>_. Inl ''refused'')\<rparr>"

lemma text_checks:
  "tls_checks text_valid (\<lambda>_. [''ca'']) (text_net d)" "quinn_checks text_valid (\<lambda>_. [''ca'']) text_quinn"
  by (simp_all add: tls_checks_def quinn_checks_def text_net_def text_quinn_def)

lemma text_net_simps [simp]: "dn_tcp (text_net d) h p = Inr d" "set_nodelay (dn_nodelay (text_net d)) s = s"
  by (simp_all add: text_net_def set_nodelay_def)

text \<open>The two sides of a TCP link, each with the bytes of the other waiting.\<close>

definition text_sec :: client_security where
  "text_sec = \<lparr>sec_noise_psk = [1], sec_tls_skip_verify = False, sec_tls_pinned_cert_pem = Some ''ca''\<rparr>"

definition text_ep :: "transport_kind \<Rightarrow> endpoint" where
  "text_ep k = \<lparr>ep_host = ''h'', ep_port = 443, ep_kind = k, ep_ws_path = ''/et'', ep_server_name = ''vpn''\<rparr>"

definition text_duplex :: "bytes \<Rightarrow> duplex" where
  "text_duplex b = \<lparr>dx_in = \<lparr>r_avail = b, r_end = UnexpectedEof\<rparr>, dx_out = p_out empty_pipe\<rparr>"

definition text_incoming :: "bytes \<Rightarrow> duplex tcp_incoming" where
  "text_incoming b = \<lparr>ti_stream = text_duplex b, ti_peer = SocketAddr (V4 1) 2,
     ti_sec = \<lparr>svs_noise_psk = [1], svs_tls_cert_pem = [], svs_tls_key_pem = []\<rparr>\<rparr>"

lemma text_incoming_facts:
  "svs_noise_psk (ti_sec (text_incoming b)) = [1]" "ti_stream (text_incoming b) = text_duplex b" "sec_noise_psk text_sec = [1]"
  by (simp_all add: text_incoming_def text_sec_def)

section \<open>The properties\<close>

text \<open>C4. A TCP link from the first byte: given the other's handshake bytes as its input, each of \<open>connect\<close> and
  \<open>accept\<close>-\<open>finish\<close> returns a link, has written exactly the bytes the other one needs, and any schedule of frames
  over the two sides arrives in order and unchanged.\<close>

theorem tcp_link_carries_frames:
  assumes "snow_laws sn in_step" and "aead_laws wm rm in_step"
    and "\<forall>f. Some f \<in> set ops \<longrightarrow> transportable ser de noise_fits f"
    and "frame_queue ops [] = Some (fs, rest)"
  shows "\<exists>b1 b2. \<forall>(sec :: client_security) (ep :: endpoint) (net :: ('a, 'n, duplex, 'tls, 'ws) dial_net)
      (i :: duplex tcp_incoming) (wc :: writer) (ws :: writer) stream.
    sec_noise_psk sec = psk \<longrightarrow> svs_noise_psk (ti_sec i) = psk \<longrightarrow> healthy wc \<longrightarrow> healthy ws \<longrightarrow>
    dn_tcp net (ep_host ep) (ep_port ep) = Inr stream \<longrightarrow>
    set_nodelay (dn_nodelay net) stream = \<lparr>dx_in = \<lparr>r_avail = b2, r_end = e1\<rparr>, dx_out = wc\<rparr> \<longrightarrow>
    ti_stream i = \<lparr>dx_in = \<lparr>r_avail = b1, r_end = e2\<rparr>, dx_out = ws\<rparr> \<longrightarrow>
    (\<exists>c a cs'. tcp_connect net sn ep sec = Inr c \<and> tcp_finish sn i = Inr a \<and> ac_peer a = ti_peer i \<and>
       w_sent (nc_w c) = w_sent wc @ b1 \<and> w_sent (nc_w (ac_link a)) = w_sent ws @ b2 \<and>
       frame_run (frame_send ser (side_send wm)) (frame_recv de (side_recv rm)) ops (c, ac_link a) = (Inr fs, cs'))"
proof -
  have run: "\<exists>cs'. frame_run (frame_send ser (side_send wm)) (frame_recv de (side_recv rm)) ops (c, s) = (Inr fs, cs')"
    if "in_step (nc_ts c) (nc_ts s)" "r_avail (nc_r s) = []" "healthy (nc_w c)" for c s
    using message_link.frames_refine_queue [OF side_message_link [OF assms(2)]
      sides_carry_nothing [OF assms(2) that] _ assms(4), where ser = ser and de = de] assms(3) by (metis UnE empty_iff empty_set mem_Collect_eq)
  from tcp_sides_agree [OF assms(1), of psk e1 e2] show ?thesis
    by (elim exE) (rule exI, rule exI, intro allI impI, drule_tac x = sec in spec, drule_tac x = ep in spec,
      drule_tac x = net in spec, drule_tac x = i in spec, drule_tac x = wc in spec, drule_tac x = ws in spec, drule_tac x = stream in spec,
      use run in blast)
qed

theorem tcp_link_carries_frames_witness:
  "\<exists>b1 b2 c a cs'.
    tcp_connect (text_net (text_duplex b2)) short_snow (text_ep Tcp) text_sec = Inr c \<and>
    tcp_finish short_snow (text_incoming b1) = Inr a \<and>
    w_sent (nc_w c) = b1 \<and> w_sent (nc_w (ac_link a)) = b2 \<and>
    frame_run (frame_send tag_ser (side_send seal)) (frame_recv tag_de (side_recv unseal))
      [Some (Packet [9]), Some Ping, None] (c, ac_link a) = (Inr [Packet [9]], cs')"
proof -
  have fits: "\<forall>f. Some f \<in> set [Some (Packet [9]), Some Ping, None] \<longrightarrow> transportable tag_ser tag_de noise_fits f"
    by (auto simp: transportable_def noise_fits_def NOISE_MAX_PLAINTEXT_def)
  have w: "healthy (p_out empty_pipe)" "w_sent (p_out empty_pipe) = []" by (simp_all add: healthy_def empty_pipe_def)
  have q: "frame_queue [Some (Packet [9]), Some Ping, None] [] = Some ([Packet [9]], [Ping])" by simp
  show ?thesis
    apply (insert tcp_link_carries_frames [OF short_snow_laws seal_laws fits q, of "[1]" UnexpectedEof UnexpectedEof])
    apply (elim exE)
    apply (drule_tac x = text_sec in spec, drule_tac x = "text_ep Tcp" in spec, drule_tac x = "text_net (text_duplex b2)" in spec,
        drule_tac x = "text_incoming b1" in spec, drule_tac x = "p_out empty_pipe" in spec,
        drule_tac x = "p_out empty_pipe" in spec, drule_tac x = "text_duplex b2" in spec)
    apply (simp add: w text_incoming_facts text_duplex_def [symmetric])
    apply blast
    done
qed

text \<open>C5. A link is never less protected than the profile asks: over plain TCP it went through the Noise handshake
  with the profile's key; over TLS or QUIC either the profile skips verification or the chain the server showed is
  valid for the profile's server name against the anchors of the pinned certificate, or, without one, the public
  ones. The same holds for every hop of a chain.\<close>

theorem link_is_verified:
  assumes "tls_checks valid shown net" and "quinn_checks valid qshown qn"
    and "connect ft (dialers_of net sn pk qn) ep sec = Inr l \<or>
         (\<exists>stream. connect_over ft (over_dialers_of net sn pk) stream ep sec = Inr l)"
  shows "case l of
      NoiseLink c \<Rightarrow> \<exists>d0 d ts. initiator_handshake sn (sec_noise_psk sec) d0 = (Inr ts, d) \<and> c = tcp_wrap d ts
    | WsLink w \<Rightarrow> \<exists>t. dn_ws net (ws_url ep) t = Inr w \<and> checked valid pk sec (shown t) (ep_server_name ep)
    | QuicLink q \<Rightarrow> checked valid pk sec (qshown (qc_conn q)) (ep_server_name ep)"
  using assms(3)
proof (elim disjE exE)
  assume "connect ft (dialers_of net sn pk qn) ep sec = Inr l"
  then show ?thesis
    using ws_connect_checked [OF assms(1)] quic_connect_checked [OF assms(2)] tcp_connect_handshake
    by (cases "ep_kind ep") (fastforce simp: connect_def dialers_of_def bind_res_Inr_iff split: if_splits)+
next
  fix stream
  assume "connect_over ft (over_dialers_of net sn pk) stream ep sec = Inr l"
  then show ?thesis
    using ws_connect_over_checked [OF assms(1)] tcp_over_handshake
    by (cases "ep_kind ep") (fastforce simp: connect_over_def over_dialers_of_def bind_res_Inr_iff split: if_splits)+
qed

definition text_link :: "(nat, string, string verifier, string) boxed_link res" where
  "text_link = connect \<lparr>ft_tcp = True, ft_ws = True, ft_quic = True\<rparr>
     (dialers_of (text_net (text_duplex [])) short_snow text_pki text_quinn) (text_ep Ws) text_sec"

theorem link_is_verified_witness:
  "text_link = Inr (WsLink (ws_url (text_ep Ws))) \<and>
   (\<exists>rs. trusted text_pki (Some ''ca'') rs \<and> text_valid rs [''ca''] ''vpn'')"
proof -
  have l: "text_link = Inr (WsLink (ws_url (text_ep Ws)))"
    by (simp add: text_link_def connect_def dialers_of_def ws_connect_def ws_upgrade_def tls_client_config_def
        tls_client_of_def client_roots_def parse_cert_chain_def text_net_def text_pki_def cert_accepted_def
        text_valid_def text_ep_def text_sec_def set_nodelay_def)
  from link_is_verified [OF text_checks disjI1 [OF l [unfolded text_link_def]]] l show ?thesis
    by (auto simp: checked_def text_sec_def text_ep_def)
qed

end
