(* ===== verification/Netcfg_Mac.thy ===== *)
theory Netcfg_Mac
  imports Netcfg
begin

text \<open>
  \<open>client-core/src/netcfg.rs\<close> on macOS: \<open>ifconfig\<close> for the utun, \<open>route\<close> for the split-tunnel and capture
  routes, \<open>networksetup\<close> for DNS and the IPv6 kill-switch of the physical service. The host, the rule targets
  and the guard are those of \<open>Netcfg\<close>. The facts are about the commands that run: no rule names the address
  of the server, and a capture route that cannot be added loses the undo list.
\<close>

section \<open>Definitions\<close>

definition mac_run :: "'o exec \<Rightarrow> string \<Rightarrow> string list \<Rightarrow> 'o \<Rightarrow> unit res \<times> 'o" where
  "mac_run exec c args st = run_command exec c args st"

definition gateway_line :: "string \<Rightarrow> string option" where
  "gateway_line out = map_option trim (find_map (\<lambda>l. strip_prefix ''gateway:'' (trim l)) (lines out))"

definition mac_default_gateway :: "'o exec \<Rightarrow> 'o \<Rightarrow> string res \<times> 'o" where
  "mac_default_gateway exec st =
     (case exec (''route'', [''-n'', ''get'', ''default'']) st of
        (Inl e, st') \<Rightarrow> (Inl (Transport (''route get default: '' @ e)), st')
      | (Inr out, st') \<Rightarrow>
          (case gateway_line (out_stdout out) of
             Some g \<Rightarrow> Inr g | None \<Rightarrow> Inl (Transport ''no default gateway''), st'))"

definition mac_default_gateway6 :: "'o exec \<Rightarrow> 'o \<Rightarrow> string option \<times> 'o" where
  "mac_default_gateway6 exec st =
     (case cmd_out exec ''route'' [''-n'', ''get'', ''-inet6'', ''default''] st of
        (r, st') \<Rightarrow> (Option.bind r gateway_line, st'))"

text \<open>The name before the block of the device \<open>dev\<close> in the listing of the services.\<close>

fun mac_service_of :: "string \<Rightarrow> string option \<Rightarrow> string list \<Rightarrow> string option" where
  "mac_service_of dev name [] = None"
| "mac_service_of dev name (line # ls) =
     (let t = trim line
      in case strip_prefix ''('' t of
           None \<Rightarrow> mac_service_of dev name ls
         | Some rest \<Rightarrow>
             if strip_prefix ''Hardware Port:'' rest \<noteq> None then
               (if contains t (''Device: '' @ dev @ '')'') then name else mac_service_of dev name ls)
             else (case after_str '') '' rest of
                     Some n \<Rightarrow> mac_service_of dev (Some (trim n)) ls
                   | None \<Rightarrow> mac_service_of dev name ls))"

definition mac_primary_service :: "'o exec \<Rightarrow> 'o \<Rightarrow> string option \<times> 'o" where
  "mac_primary_service exec st =
     (case cmd_out exec ''route'' [''-n'', ''get'', ''default''] st of
        (None, st1) \<Rightarrow> (None, st1)
      | (Some def, st1) \<Rightarrow>
          (case map_option trim (find_map (\<lambda>l. strip_prefix ''interface:'' (trim l)) (lines def)) of
             None \<Rightarrow> (None, st1)
           | Some dev \<Rightarrow>
               (case cmd_out exec ''networksetup'' [''-listnetworkserviceorder''] st1 of
                  (None, st2) \<Rightarrow> (None, st2)
                | (Some order, st2) \<Rightarrow> (mac_service_of dev None (lines order), st2))))"

text \<open>\<open>Ipv4Net::new(ip, prefix).network()\<close>, which a prefix over 32 refuses.\<close>

definition subnet_text :: "welcome_msg \<Rightarrow> string" where
  "subnet_text wel =
     show_ipv4 (if w_prefix_len wel \<le> 32 then w_assigned_ip wel AND net_mask (w_prefix_len wel) else w_assigned_ip wel)
     @ ''/'' @ show_nat (unat (w_prefix_len wel))"

definition mac_address :: "'o exec \<Rightarrow> welcome_msg \<Rightarrow> string \<Rightarrow> 'o \<Rightarrow> unit res \<times> 'o" where
  "mac_address exec wel ifname st =
     bind_st (mac_run exec ''ifconfig'' [ifname, ''inet'', show_ipv4 (w_assigned_ip wel), show_ipv4 (w_gateway wel), ''up''] st)
       (\<lambda>_ st1. (Inr (), snd (mac_run exec ''ifconfig'' [ifname, ''mtu'', show_u16 (w_mtu wel)] st1)))"

definition mac_address6 :: "'o exec \<Rightarrow> welcome_msg \<Rightarrow> string \<Rightarrow> 'o \<Rightarrow> 'o" where
  "mac_address6 exec wel ifname st =
     (case w_assigned_ip6 wel of
        None \<Rightarrow> st
      | Some ip6 \<Rightarrow> snd (mac_run exec ''ifconfig''
          [ifname, ''inet6'', show_ipv6 ip6, ''prefixlen'', show_nat (unat (max (w_prefix6 wel) 1))] st))"

text \<open>A command whose result is ignored, and its push on the undo list.\<close>

definition mac_try :: "'o exec \<Rightarrow> cmd \<Rightarrow> cmd \<Rightarrow> cmd list \<times> 'o \<Rightarrow> cmd list \<times> 'o" where
  "mac_try exec add del s = (case s of (undo, st) \<Rightarrow> (undo @ [del], snd (mac_run exec (fst add) (snd add) st)))"

text \<open>The arguments of \<open>route\<close> for one rule; \<open>None\<close> for a \<open>direct\<close> rule without a gateway.\<close>

definition mac_route_args :: "string \<Rightarrow> string option \<Rightarrow> route_rule \<Rightarrow> string \<Rightarrow> string list option" where
  "mac_route_args peer_gw orig_gw rule route =
     (if rr_via rule = ''tunnel'' then Some [''add'', ''-net'', route, peer_gw]
      else if rr_via rule = ''direct'' then
        (case orig_gw of Some gw \<Rightarrow> Some [''add'', ''-net'', route, gw] | None \<Rightarrow> None)
      else Some ([''add'', ''-net'', route] @
             (case rr_gateway rule of
                Some gw \<Rightarrow> [show_ipv4 gw, ''-ifscope'', rr_via rule]
              | None \<Rightarrow> [''-interface'', rr_via rule])))"

definition mac_route_step ::
  "'o exec \<Rightarrow> string \<Rightarrow> string option \<Rightarrow> string \<Rightarrow> route_rule \<Rightarrow> string \<Rightarrow> 'o rules_state \<Rightarrow> 'o rules_state" where
  "mac_route_step exec peer_gw orig_gw server_route rule route s =
     (case s of (seen, undo, st) \<Rightarrow>
        if route = server_route \<or> route \<in> set seen then s
        else
          (case mac_route_args peer_gw orig_gw rule route of
             None \<Rightarrow> (route # seen, undo, st)
           | Some add \<Rightarrow>
               (case mac_run exec ''route'' add st of
                  (Inr _, st') \<Rightarrow> (route # seen, undo @ [(''route'', add[0 := ''delete''])], st')
                | (Inl _, st') \<Rightarrow> (route # seen, undo, st'))))"

definition mac_rule_step ::
  "net_parser \<Rightarrow> 'o host \<Rightarrow> string \<Rightarrow> string option \<Rightarrow> string \<Rightarrow> route_rule \<Rightarrow> 'o rules_state \<Rightarrow> 'o rules_state" where
  "mac_rule_step np h peer_gw orig_gw server_route rule s =
     (case s of (seen, undo, st) \<Rightarrow>
        (case resolve_rule_targets np h (rr_target rule) st of
           (targets, st') \<Rightarrow>
             fold (mac_route_step (hs_exec h) peer_gw orig_gw server_route rule) targets (seen, undo, st')))"

definition mac_apply_route_rules ::
  "net_parser \<Rightarrow> 'o host \<Rightarrow> client_config \<Rightarrow> string \<Rightarrow> string option \<Rightarrow> ip_addr \<Rightarrow> cmd list \<Rightarrow> 'o \<Rightarrow> cmd list \<times> 'o" where
  "mac_apply_route_rules np h cfg peer_gw orig_gw server_ip undo st =
     snd (fold (mac_rule_step np h peer_gw orig_gw (pin_route server_ip)) (cl_routes cfg) ([], undo, st))"

definition mac_pin_server :: "'o exec \<Rightarrow> ip_addr \<Rightarrow> cmd list \<times> 'o \<Rightarrow> cmd list \<times> 'o" where
  "mac_pin_server exec server_ip s =
     (case s of (undo, st) \<Rightarrow>
        (case mac_default_gateway exec st of
           (Inl _, st1) \<Rightarrow> (undo, st1)
         | (Inr gw, st1) \<Rightarrow>
             mac_try exec (''route'', [''add'', ''-host'', show_ip server_ip, gw])
               (''route'', [''delete'', ''-host'', show_ip server_ip]) (undo, st1)))"

definition mac_pin_server6 :: "'o exec \<Rightarrow> ip_addr \<Rightarrow> cmd list \<times> 'o \<Rightarrow> cmd list \<times> 'o" where
  "mac_pin_server6 exec server_ip s =
     (case server_ip of
        V4 _ \<Rightarrow> s
      | V6 s6 \<Rightarrow>
          (case s of (undo, st) \<Rightarrow>
             (case mac_default_gateway6 exec st of
                (None, st1) \<Rightarrow> (undo, st1)
              | (Some gw6, st1) \<Rightarrow>
                  mac_try exec (''route'', [''add'', ''-inet6'', ''-host'', show_ipv6 s6, gw6])
                    (''route'', [''delete'', ''-inet6'', ''-host'', show_ipv6 s6]) (undo, st1))))"

definition mac_net6 :: "'o exec \<Rightarrow> string \<Rightarrow> string \<Rightarrow> cmd list \<times> 'o \<Rightarrow> cmd list \<times> 'o" where
  "mac_net6 exec ifname net =
     mac_try exec (''route'', [''add'', ''-inet6'', ''-net'', net, ''-interface'', ifname])
       (''route'', [''delete'', ''-inet6'', ''-net'', net])"

definition mac_capture_v6 ::
  "'o exec \<Rightarrow> client_config \<Rightarrow> welcome_msg \<Rightarrow> string \<Rightarrow> ip_addr \<Rightarrow> string option \<Rightarrow> cmd list \<times> 'o \<Rightarrow> cmd list \<times> 'o" where
  "mac_capture_v6 exec cfg wel ifname server_ip service s =
     (if w_assigned_ip6 wel \<noteq> None then
        mac_net6 exec ifname ''8000::/1'' (mac_net6 exec ifname ''::/1'' (mac_pin_server6 exec server_ip s))
      else if \<not> cl_ipv6_killswitch cfg then s
      else (case service of
              Some svc \<Rightarrow> mac_try exec (''networksetup'', [''-setv6off'', svc]) (''networksetup'', [''-setv6automatic'', svc]) s
            | None \<Rightarrow> s))"

definition dns_texts :: "welcome_msg \<Rightarrow> string list" where
  "dns_texts wel = map show_ipv4 (w_dns wel) @ map show_ipv6 (w_dns6 wel)"

definition mac_service_dns :: "'o exec \<Rightarrow> welcome_msg \<Rightarrow> string option \<Rightarrow> cmd list \<times> 'o \<Rightarrow> cmd list \<times> 'o" where
  "mac_service_dns exec wel service s =
     (case service of
        None \<Rightarrow> s
      | Some svc \<Rightarrow>
          (case s of (undo, st) \<Rightarrow>
             (case cmd_out exec ''networksetup'' [''-getdnsservers'', svc] st of
                (prev, st1) \<Rightarrow>
                  (let prev_list = filter (\<lambda>t. parse_ip t \<noteq> None) (map trim (lines (case prev of Some p \<Rightarrow> p | None \<Rightarrow> [])))
                   in mac_try exec (''networksetup'', [''-setdnsservers'', svc] @ dns_texts wel)
                        (''networksetup'', [''-setdnsservers'', svc] @ (if prev_list = [] then [''empty''] else prev_list))
                        (undo, st1)))))"

definition mac_set_dns ::
  "'o host \<Rightarrow> welcome_msg \<Rightarrow> string option \<Rightarrow> cmd list \<times> 'o \<Rightarrow> string option \<times> cmd list \<times> 'o" where
  "mac_set_dns h wel service s =
     (case s of (undo, st) \<Rightarrow>
        if w_dns wel = [] \<and> w_dns6 wel = [] then (None, s)
        else ((case hs_read_resolv h st of Inr prev \<Rightarrow> Some prev | Inl _ \<Rightarrow> None),
              mac_service_dns (hs_exec h) wel service (undo, snd (hs_write_resolv h (resolv_body wel) st))))"

text \<open>The arm \<open>SessionMode::GlobalProxy\<close>.\<close>

definition mac_apply_global ::
  "'o host \<Rightarrow> client_config \<Rightarrow> welcome_msg \<Rightarrow> string \<Rightarrow> ip_addr \<Rightarrow> string option \<Rightarrow> cmd list \<Rightarrow> 'o \<Rightarrow> net_guard res \<times> 'o" where
  "mac_apply_global h cfg wel ifname server_ip service undo st =
     (let exec = hs_exec h in
      case mac_pin_server exec server_ip (undo, st) of (undo1, st1) \<Rightarrow>
        if cl_split_mode cfg = Whitelist then (Inr \<lparr>ng_undo = undo1, ng_resolv_backup = None\<rparr>, st1)
        else
          bind_st (mac_run exec ''route'' [''add'', ''-net'', ''0.0.0.0/1'', ''-interface'', ifname] st1) (\<lambda>_ st2.
          bind_st (mac_run exec ''route'' [''add'', ''-net'', ''128.0.0.0/1'', ''-interface'', ifname] st2) (\<lambda>_ st3.
            case mac_set_dns h wel service
                   (mac_capture_v6 exec cfg wel ifname server_ip service
                     (undo1 @ [(''route'', [''delete'', ''-net'', ''0.0.0.0/1'']), (''route'', [''delete'', ''-net'', ''128.0.0.0/1''])], st3))
            of (backup, undo2, st4) \<Rightarrow> (Inr \<lparr>ng_undo = undo2, ng_resolv_backup = backup\<rparr>, st4))))"

definition mac_subnet_route :: "'o exec \<Rightarrow> welcome_msg \<Rightarrow> string \<Rightarrow> cmd list \<times> 'o \<Rightarrow> cmd list \<times> 'o" where
  "mac_subnet_route exec wel ifname =
     mac_try exec (''route'', [''add'', ''-net'', subnet_text wel, ''-interface'', ifname])
       (''route'', [''delete'', ''-net'', subnet_text wel])"

definition mac_apply ::
  "net_parser \<Rightarrow> 'o host \<Rightarrow> client_config \<Rightarrow> welcome_msg \<Rightarrow> string \<Rightarrow> ip_addr \<Rightarrow> 'o \<Rightarrow> net_guard res \<times> 'o" where
  "mac_apply np h cfg wel ifname server_ip st =
     bind_st (mac_address (hs_exec h) wel ifname st) (\<lambda>_ st1.
       case mac_default_gateway (hs_exec h) (mac_address6 (hs_exec h) wel ifname st1) of (r, st2) \<Rightarrow>
         (let orig_gw = (case r of Inr g \<Rightarrow> Some g | Inl _ \<Rightarrow> None) in
          case mac_apply_route_rules np h cfg (show_ipv4 (w_gateway wel)) orig_gw server_ip [] st2 of (undo, st3) \<Rightarrow>
          case mac_primary_service (hs_exec h) st3 of (service, st4) \<Rightarrow>
            (case cl_mode cfg of
               GlobalProxy \<Rightarrow> mac_apply_global h cfg wel ifname server_ip service undo st4
             | Vpn \<Rightarrow>
                 (case mac_subnet_route (hs_exec h) wel ifname (undo, st4) of
                    (undo1, st5) \<Rightarrow> (Inr \<lparr>ng_undo = undo1, ng_resolv_backup = None\<rparr>, st5))
             | _ \<Rightarrow> (Inr \<lparr>ng_undo = undo, ng_resolv_backup = None\<rparr>, st4))))"

definition mac_apply_vpn_lan :: "'o exec \<Rightarrow> welcome_msg \<Rightarrow> string \<Rightarrow> 'o \<Rightarrow> net_guard res \<times> 'o" where
  "mac_apply_vpn_lan exec wel ifname st =
     bind_st (mac_address exec wel ifname st) (\<lambda>_ st1.
       (case mac_subnet_route exec wel ifname ([], st1) of
          (undo, st2) \<Rightarrow> (Inr \<lparr>ng_undo = undo, ng_resolv_backup = None\<rparr>, st2)))"

section \<open>The commands that run\<close>

text \<open>The host's list of commands; the resolver and the file leave it alone.\<close>

definition host_records :: "'o host \<Rightarrow> ('o \<Rightarrow> cmd list) \<Rightarrow> bool" where
  "host_records h hist \<longleftrightarrow> records (hs_exec h) hist \<and>
     (\<forall>d st. hist (snd (hs_lookup h d st)) = hist st) \<and> (\<forall>b st. hist (snd (hs_write_resolv h b st)) = hist st)"

lemma host_recordsD:
  assumes "host_records h hist"
  shows "records (hs_exec h) hist" "hist (snd (hs_lookup h d st)) = hist st" "hist (snd (hs_write_resolv h b st)) = hist st"
  using assms unfolding host_records_def by blast+

lemma resolve_ran:
  assumes "host_records h hist"
  shows "ran hist P st (snd (resolve_rule_targets np h target st))"
proof -
  obtain r st' where l: "hs_lookup h target st = (r, st')" by (meson surj_pair)
  then have "hist st' = hist st" using host_recordsD(2) [OF assms, of target st] by simp
  then show ?thesis by (cases r) (auto simp: resolve_rule_targets_def l ran_same split: option.split)
qed

text \<open>A \<open>route\<close> command on the \<open>/32\<close> network of an address, and one that takes something back.\<close>

definition routes_host :: "ip_addr \<Rightarrow> cmd \<Rightarrow> bool" where
  "routes_host ip c \<longleftrightarrow> (\<exists>a rest. c = (''route'', a # ''-net'' # pin_route ip # rest))"

definition undoing :: "cmd \<Rightarrow> bool" where
  "undoing c \<longleftrightarrow> fst c = ''route'' \<and> take 1 (snd c) = [''delete''] \<or> fst c = ''networksetup'' \<and> take 1 (snd c) = [''-setv6automatic'']"

lemma mac_route_args_form:
  "mac_route_args gw orig rule route = Some add \<Longrightarrow> \<exists>rest. add = ''add'' # ''-net'' # route # rest"
  by (auto simp: mac_route_args_def split: if_splits option.splits)

lemma mac_route_step_ran:
  assumes "records exec hist" and "\<And>rest. route \<noteq> server_route \<Longrightarrow> P (''route'', ''add'' # ''-net'' # route # rest)"
  shows "ran hist P (snd (snd s)) (snd (snd (mac_route_step exec gw orig server_route rule route s)))"
proof -
  obtain seen undo st where s: "s = (seen, undo, st)" by (cases s) auto
  show ?thesis
  proof (cases "route = server_route \<or> route \<in> set seen \<or> mac_route_args gw orig rule route = None")
    case True
    then show ?thesis by (auto simp: mac_route_step_def s)
  next
    case False
    then obtain add where a: "mac_route_args gw orig rule route = Some add" by auto
    from mac_route_args_form [OF a] False assms(2) have "P (''route'', add)" by auto
    then have "ran hist P st (snd (mac_run exec ''route'' add st))"
      by (simp add: mac_run_def ran_exec [OF assms(1)])
    moreover have "snd (snd (mac_route_step exec gw orig server_route rule route s)) = snd (mac_run exec ''route'' add st)"
      using False a by (auto simp: mac_route_step_def s split: prod.split sum.split)
    ultimately show ?thesis by (simp add: s)
  qed
qed

lemma mac_rules_ran:
  assumes "host_records h hist"
    and "\<And>route rest. route \<noteq> pin_route ip \<Longrightarrow> P (''route'', ''add'' # ''-net'' # route # rest)"
  shows "ran hist P st (snd (mac_apply_route_rules np h cfg gw orig ip undo st))"
proof -
  have step: "ran hist P (snd (snd s)) (snd (snd (fold (mac_route_step (hs_exec h) gw orig (pin_route ip) rule) targets s)))"
    for rule targets s
  proof (induction targets arbitrary: s)
    case (Cons t ts)
    from mac_route_step_ran [OF host_recordsD(1) [OF assms(1)], of t "pin_route ip" P s gw orig rule] assms(2)
    have "ran hist P (snd (snd s)) (snd (snd (mac_route_step (hs_exec h) gw orig (pin_route ip) rule t s)))" by blast
    from ran_trans [OF this Cons.IH] show ?case by simp
  qed simp
  have "ran hist P (snd (snd s)) (snd (snd (fold (mac_rule_step np h gw orig (pin_route ip)) rules s)))" for rules s
  proof (induction rules arbitrary: s)
    case (Cons r rs)
    obtain seen undo st where s: "s = (seen, undo, st)" by (cases s) auto
    obtain targets st' where t: "resolve_rule_targets np h (rr_target r) st = (targets, st')" by (meson surj_pair)
    have "ran hist P st st'" using resolve_ran [OF assms(1), of P st np "rr_target r"] t by simp
    from ran_trans [OF this] step [of "(seen, undo, st')" r targets]
    have "ran hist P st (snd (snd (mac_rule_step np h gw orig (pin_route ip) r s)))"
      by (simp add: mac_rule_step_def s t)
    from ran_trans [OF this Cons.IH] show ?case by (simp add: s)
  qed simp
  from this [of "([], undo, st)" "cl_routes cfg"] show ?thesis by (simp add: mac_apply_route_rules_def)
qed

text \<open>The commands that neither name the server's \<open>/32\<close> in a \<open>route\<close> nor take something back.\<close>

definition harmless :: "ip_addr \<Rightarrow> cmd \<Rightarrow> bool" where
  "harmless ip c \<longleftrightarrow> \<not> routes_host ip c \<and> \<not> undoing c"

lemma pin_route_last: "last (pin_route ip) = CHR ''2''"
  by (simp add: pin_route_def)

lemma harmless_route [simp]:
  "harmless ip (''route'', ''add'' # ''-net'' # route # rest) \<longleftrightarrow> route \<noteq> pin_route ip"
  "harmless ip (''route'', ''add'' # ''-host'' # rest)"
  "harmless ip (''route'', ''add'' # ''-inet6'' # rest)"
  "harmless ip (''route'', ''-n'' # ''get'' # rest)"
  "harmless ip (''ifconfig'', args)"
  "harmless ip (''networksetup'', ''-setv6off'' # rest)"
  "harmless ip (''networksetup'', ''-setdnsservers'' # rest)"
  "harmless ip (''networksetup'', ''-getdnsservers'' # rest)"
  "harmless ip (''networksetup'', ''-listnetworkserviceorder'' # rest)"
  by (auto simp: harmless_def routes_host_def undoing_def)

lemma not_pinned [simp]: "''0.0.0.0/1'' \<noteq> pin_route ip" "''128.0.0.0/1'' \<noteq> pin_route ip"
  by (rule notI, drule arg_cong [where f = last], simp add: pin_route_last)+

lemma snd_mac_run [simp]: "snd (mac_run exec c args st) = snd (exec (c, args) st)"
  by (simp add: mac_run_def)

lemma mac_try_ran: "records exec hist \<Longrightarrow> P add \<Longrightarrow> ran hist P a (snd s) \<Longrightarrow> ran hist P a (snd (mac_try exec add del s))"
  by (cases s; cases add) (auto simp: mac_try_def intro: ran_step)

lemma mac_gateway_ran:
  "records exec hist \<Longrightarrow> P (''route'', [''-n'', ''get'', ''default'']) \<Longrightarrow> mac_default_gateway exec st = (r, st') \<Longrightarrow> ran hist P st st'"
  using ran_exec [of exec hist P "(''route'', [''-n'', ''get'', ''default''])" st]
  by (auto simp: mac_default_gateway_def split: prod.splits sum.splits)

lemma cmd_out_ran: "records exec hist \<Longrightarrow> P (c, args) \<Longrightarrow> cmd_out exec c args st = (r, st') \<Longrightarrow> ran hist P st st'"
  by (metis ran_exec snd_cmd_out snd_conv)

lemma mac_gateway6_ran:
  "records exec hist \<Longrightarrow> mac_default_gateway6 exec st = (r, st') \<Longrightarrow> ran hist (harmless ip) st st'"
  by (auto simp: mac_default_gateway6_def split: prod.splits dest: cmd_out_ran [where P = "harmless ip", rotated 2])

lemma mac_run_ran: "records exec hist \<Longrightarrow> P (c, args) \<Longrightarrow> mac_run exec c args st = (r, st') \<Longrightarrow> ran hist P st st'"
  by (metis ran_exec snd_mac_run snd_conv)

lemma mac_service_ran:
  assumes "records exec hist" and "mac_primary_service exec st = (r, st')"
  shows "ran hist (harmless ip) st st'"
proof -
  have c: "harmless ip (''route'', [''-n'', ''get'', ''default''])" "harmless ip (''networksetup'', [''-listnetworkserviceorder''])"
    by simp_all
  show ?thesis
    using assms(2)
    by (auto simp: mac_primary_service_def split: prod.splits option.splits
        dest!: cmd_out_ran [OF assms(1), where P = "harmless ip", OF c(1)] cmd_out_ran [OF assms(1), where P = "harmless ip", OF c(2)]
        intro: ran_trans)
qed

lemma mac_address_ran:
  assumes "records exec hist"
  shows "ran hist (harmless ip) st (snd (mac_address exec wel ifname st))"
  using assms by (auto simp: mac_address_def bind_st_def split: prod.splits sum.splits
      dest!: mac_run_ran [OF assms, where P = "harmless ip", rotated] intro: ran_step)

lemma mac_pin_server_ran:
  assumes "records exec hist" and "ran hist (harmless ip) a (snd s)"
  shows "ran hist (harmless ip) a (snd (mac_pin_server exec sip s))"
proof -
  obtain undo st where s: "s = (undo, st)" by (cases s)
  obtain r st1 where g: "mac_default_gateway exec st = (r, st1)" by (meson surj_pair)
  from mac_gateway_ran [OF assms(1) _ g, of "harmless ip"] assms(2)
  have "ran hist (harmless ip) a st1" by (auto simp: s intro: ran_trans)
  then show ?thesis by (cases r) (auto simp: mac_pin_server_def s g intro: mac_try_ran [OF assms(1)])
qed

lemma mac_pin_server6_ran:
  assumes "records exec hist" and "ran hist (harmless ip) a (snd s)"
  shows "ran hist (harmless ip) a (snd (mac_pin_server6 exec sip s))"
proof -
  obtain undo st where s: "s = (undo, st)" by (cases s)
  obtain r st1 where g: "mac_default_gateway6 exec st = (r, st1)" by (meson surj_pair)
  from mac_gateway6_ran [OF assms(1) g] assms(2)
  have "ran hist (harmless ip) a st1" by (auto simp: s intro: ran_trans)
  then show ?thesis using assms(2)
    by (cases r; cases sip) (auto simp: mac_pin_server6_def s g intro: mac_try_ran [OF assms(1)])
qed

lemma mac_capture_v6_ran:
  assumes "records exec hist" and "ran hist (harmless ip) a (snd s)"
  shows "ran hist (harmless ip) a (snd (mac_capture_v6 exec cfg wel ifname sip service s))"
  using assms(2) by (cases service)
    (auto simp: mac_capture_v6_def mac_net6_def intro!: mac_try_ran [OF assms(1)] mac_pin_server6_ran [OF assms(1)])

lemma mac_dns_ran:
  assumes "host_records h hist" and "ran hist (harmless ip) a (snd s)"
  shows "ran hist (harmless ip) a (snd (snd (mac_set_dns h wel service s)))"
proof -
  note ex = host_recordsD(1) [OF assms(1)]
  obtain undo st where s: "s = (undo, st)" by (cases s)
  let ?st = "snd (hs_write_resolv h (resolv_body wel) st)"
  have w: "ran hist (harmless ip) a ?st"
    by (rule ran_trans [OF _ ran_same]) (use assms(2) host_recordsD(3) [OF assms(1)] in \<open>simp_all add: s\<close>)
  have "ran hist (harmless ip) a (snd (mac_service_dns (hs_exec h) wel service (undo, ?st)))"
  proof (cases service)
    case None
    with w show ?thesis by (simp add: mac_service_dns_def)
  next
    case (Some svc)
    obtain r st1 where g: "cmd_out (hs_exec h) ''networksetup'' [''-getdnsservers'', svc] ?st = (r, st1)" by (meson surj_pair)
    from cmd_out_ran [OF ex _ g, of "harmless ip"] w have "ran hist (harmless ip) a st1" by (auto intro: ran_trans)
    then show ?thesis by (auto simp: mac_service_dns_def Some g Let_def intro: mac_try_ran [OF ex])
  qed
  with assms(2) show ?thesis by (simp add: mac_set_dns_def s)
qed

lemma mac_global_ran:
  assumes "host_records h hist" and "ran hist (harmless ip) a st"
  shows "ran hist (harmless ip) a (snd (mac_apply_global h cfg wel ifname sip service undo st))"
proof -
  note ex = host_recordsD(1) [OF assms(1)]
  obtain undo1 st1 where p: "mac_pin_server (hs_exec h) sip (undo, st) = (undo1, st1)" by (meson surj_pair)
  from mac_pin_server_ran [OF ex, of ip a "(undo, st)" sip] assms(2) have r1: "ran hist (harmless ip) a st1" by (simp add: p)
  obtain x2 st2 where m2: "mac_run (hs_exec h) ''route'' [''add'', ''-net'', ''0.0.0.0/1'', ''-interface'', ifname] st1 = (x2, st2)"
    by (meson surj_pair)
  have r2: "ran hist (harmless ip) a st2" by (rule ran_trans [OF r1 mac_run_ran [OF ex _ m2]]) simp
  obtain x3 st3 where m3: "mac_run (hs_exec h) ''route'' [''add'', ''-net'', ''128.0.0.0/1'', ''-interface'', ifname] st2 = (x3, st3)"
    by (meson surj_pair)
  have r3: "ran hist (harmless ip) a st3" by (rule ran_trans [OF r2 mac_run_ran [OF ex _ m3]]) simp
  have d: "ran hist (harmless ip) a (snd (snd (mac_set_dns h wel service (mac_capture_v6 (hs_exec h) cfg wel ifname sip service (u, st3)))))" for u
    using mac_dns_ran [OF assms(1) mac_capture_v6_ran [OF ex, of ip a "(u, st3)"]] r3 by simp
  show ?thesis
    using r1 r2 r3 d by (auto simp: mac_apply_global_def Let_def p m2 m3 bind_st_def split: sum.split prod.splits)
      (metis snd_conv)
qed

lemma mac_apply_ran:
  assumes h: "host_records h hist" and "subnet_text wel \<noteq> pin_route sip"
  shows "ran hist (harmless sip) st (snd (mac_apply np h cfg wel ifname sip st))"
proof -
  note ex = host_recordsD(1) [OF h]
  obtain x1 st1 where m: "mac_address (hs_exec h) wel ifname st = (x1, st1)" by (meson surj_pair)
  have r1: "ran hist (harmless sip) st st1" using mac_address_ran [OF ex, of sip st wel ifname] by (simp add: m)
  have r1': "ran hist (harmless sip) st (mac_address6 (hs_exec h) wel ifname st1)"
    using r1 by (auto simp: mac_address6_def intro: ran_step [OF ex] split: option.split)
  obtain r st2 where g: "mac_default_gateway (hs_exec h) (mac_address6 (hs_exec h) wel ifname st1) = (r, st2)" by (meson surj_pair)
  have r2: "ran hist (harmless sip) st st2" by (rule ran_trans [OF r1' mac_gateway_ran [OF ex _ g]]) simp
  define orig where "orig = (case r of Inr g \<Rightarrow> Some g | Inl _ \<Rightarrow> None)"
  obtain undo st3 where a: "mac_apply_route_rules np h cfg (show_ipv4 (w_gateway wel)) orig sip [] st2 = (undo, st3)" by (meson surj_pair)
  from mac_rules_ran [OF h, of sip "harmless sip" st2 np cfg "show_ipv4 (w_gateway wel)" orig "[]"]
  have "ran hist (harmless sip) st2 st3" by (simp add: a)
  with r2 have r3: "ran hist (harmless sip) st st3" by (rule ran_trans)
  obtain service st4 where p: "mac_primary_service (hs_exec h) st3 = (service, st4)" by (meson surj_pair)
  have r4: "ran hist (harmless sip) st st4" by (rule ran_trans [OF r3 mac_service_ran [OF ex p]])
  have "ran hist (harmless sip) st (snd (mac_subnet_route (hs_exec h) wel ifname (undo, st4)))"
    using r4 assms(2) by (simp add: mac_subnet_route_def mac_try_ran [OF ex])
  with r1 r4 mac_global_ran [OF h r4, of cfg wel ifname sip service undo] show ?thesis
    by (cases x1; cases "cl_mode cfg")
       (auto simp: mac_apply_def bind_st_def Let_def m g a p orig_def [symmetric] split: prod.split)
qed

section \<open>Properties\<close>

definition mac_demo :: "cmd list host" where
  "mac_demo =
     \<lparr>hs_exec = (\<lambda>c st. (Inr \<lparr>out_ok = (snd c \<noteq> [''add'', ''-net'', ''128.0.0.0/1'', ''-interface'', ''utun4'']), out_stdout = [], out_stderr = []\<rparr>, st @ [c])),
      hs_lookup = (\<lambda>d st. (Inr [V4 0xCB007105], st)), hs_read_resolv = (\<lambda>st. Inr []), hs_write_resolv = (\<lambda>b st. (Inr (), st))\<rparr>"

definition mac_demo_cfg :: client_config where
  "mac_demo_cfg = home_cfg\<lparr>cl_routes := [\<lparr>rr_target = ''203.0.113.5/32'', rr_via = ''tunnel'', rr_gateway = None\<rparr>]\<rparr>"

definition mac_demo_nets :: net_parser where
  "mac_demo_nets = \<lparr>np_net4 = (\<lambda>s. Some (0xCB007105, 32)), np_net = (\<lambda>s. True)\<rparr>"

definition mac_demo_run :: "net_guard res \<times> cmd list" where
  "mac_demo_run = mac_apply mac_demo_nets mac_demo mac_demo_cfg home_welcome ''utun4'' (V4 0xCB007105) []"

lemma mac_demo_run_eq:
  "mac_run (hs_exec mac_demo) c args st =
     (if args = [''add'', ''-net'', ''128.0.0.0/1'', ''-interface'', ''utun4''] then fst (mac_run (hs_exec mac_demo) c args st) else Inr (),
      st @ [(c, args)])"
  by (simp add: mac_run_def run_command_def mac_demo_def)

lemma mac_demo_fails:
  "mac_run (hs_exec mac_demo) c [''add'', ''-net'', ''128.0.0.0/1'', ''-interface'', ''utun4''] st \<noteq> (Inr u, s)"
  by (simp add: mac_run_def run_command_def mac_demo_def)

lemma mac_demo_asks:
  "mac_default_gateway (hs_exec mac_demo) st = (Inl (Transport ''no default gateway''), st @ [(''route'', [''-n'', ''get'', ''default''])])"
  "mac_primary_service (hs_exec mac_demo) st = (None, st @ [(''route'', [''-n'', ''get'', ''default''])])"
proof -
  have "lines [] = []" by code_simp
  then show "mac_default_gateway (hs_exec mac_demo) st = (Inl (Transport ''no default gateway''), st @ [(''route'', [''-n'', ''get'', ''default''])])"
    "mac_primary_service (hs_exec mac_demo) st = (None, st @ [(''route'', [''-n'', ''get'', ''default''])])"
    by (simp_all add: mac_default_gateway_def gateway_line_def mac_primary_service_def cmd_out_def mac_demo_def)
qed

lemma mac_demo_rules:
  "mac_apply_route_rules mac_demo_nets mac_demo mac_demo_cfg gw orig (V4 0xCB007105) undo st = (undo, st)"
proof -
  have "show_nat (unat (32 :: u8)) = ''32''" by code_simp
  then have "resolve_rule_targets mac_demo_nets mac_demo target st = ([pin_route (V4 0xCB007105)], st)" for target
    by (simp add: resolve_rule_targets_def mac_demo_nets_def pin_route_def)
  then show ?thesis by (simp add: mac_apply_route_rules_def mac_demo_cfg_def mac_rule_step_def mac_route_step_def)
qed

lemma mac_demo_eval:
  "isl (fst mac_demo_run) \<and> (''route'', [''add'', ''-net'', ''0.0.0.0/1'', ''-interface'', ''utun4'']) \<in> set (snd mac_demo_run)"
proof -
  have a: "fst (mac_address (hs_exec mac_demo) home_welcome ''utun4'' st) = Inr ()" for st
    by (simp add: mac_address_def bind_st_def mac_demo_run_eq [of _ "''utun4'' # _"])
  have c: "cl_mode mac_demo_cfg = GlobalProxy" "cl_split_mode mac_demo_cfg = Blacklist" "w_assigned_ip6 home_welcome = None"
    by (simp_all add: mac_demo_cfg_def home_cfg_def home_welcome_def)
  have g: "isl (fst (mac_apply_global mac_demo mac_demo_cfg home_welcome ''utun4'' (V4 0xCB007105) None undo st)) \<and>
      (''route'', [''add'', ''-net'', ''0.0.0.0/1'', ''-interface'', ''utun4'']) \<in>
        set (snd (mac_apply_global mac_demo mac_demo_cfg home_welcome ''utun4'' (V4 0xCB007105) None undo st))" for undo st
  proof -
    define st1 where "st1 = st @ [(''route'', [''-n'', ''get'', ''default''])]"
    define bad where "bad = [''add'', ''-net'', ''128.0.0.0/1'', ''-interface'', ''utun4'']"
    define good where "good = [''add'', ''-net'', ''0.0.0.0/1'', ''-interface'', ''utun4'']"
    have "good \<noteq> bad" by (simp add: good_def bad_def)
    then have 1: "mac_run (hs_exec mac_demo) ''route'' good st1 = (Inr (), st1 @ [(''route'', good)])"
      using mac_demo_run_eq [of "''route''" good st1] by (simp add: bad_def)
    obtain e where 2: "mac_run (hs_exec mac_demo) ''route'' bad (st1 @ [(''route'', good)]) = (Inl e, st1 @ [(''route'', good), (''route'', bad)])"
      using mac_demo_fails [of "''route''" "st1 @ [(''route'', good)]"] mac_demo_run_eq [of "''route''" bad "st1 @ [(''route'', good)]"]
      by (cases "fst (mac_run (hs_exec mac_demo) ''route'' bad (st1 @ [(''route'', good)]))") (auto simp: bad_def [symmetric])
    show ?thesis
      unfolding mac_apply_global_def Let_def mac_pin_server_def mac_demo_asks prod.case sum.case c good_def [symmetric] bad_def [symmetric]
        st1_def [symmetric] using 1 2 by (simp add: bind_st_def)
  qed
  obtain st1 where m: "mac_address (hs_exec mac_demo) home_welcome ''utun4'' [] = (Inr (), st1)"
    using a [of "[]"] by (metis prod.collapse)
  show ?thesis
    unfolding mac_demo_run_def mac_apply_def bind_st_def m prod.case sum.case mac_demo_asks Let_def mac_demo_rules c
    using g by (simp add: bind_st_def)
qed

text \<open>C36. On macOS \<open>apply\<close> never reroutes its own carrier and never takes anything back: whatever the rules say and
  their names resolve to, no \<open>route -net\<close> command it runs names the server's \<open>/32\<close>, and no command deletes a
  route or restores IPv6, so that an \<open>apply\<close> that fails at a capture route leaves what it had installed (the
  guard that would undo it is lost with the error, as the witness shows).\<close>

theorem mac_apply_spares_server:
  assumes "host_records h hist" and "subnet_text wel \<noteq> pin_route sip"
  shows "ran hist (\<lambda>c. \<not> routes_host sip c \<and> \<not> undoing c) st (snd (mac_apply np h cfg wel ifname sip st))"
  using mac_apply_ran [OF assms] by (simp add: harmless_def [abs_def])

theorem mac_apply_spares_server_witness:
  "list_all (\<lambda>c. \<not> routes_host (V4 0xCB007105) c \<and> \<not> undoing c) (snd mac_demo_run) \<and> isl (fst mac_demo_run) \<and>
     (''route'', [''add'', ''-net'', ''0.0.0.0/1'', ''-interface'', ''utun4'']) \<in> set (snd mac_demo_run)"
proof -
  have "subnet_text home_welcome \<noteq> pin_route (V4 0xCB007105)" by code_simp
  moreover have "host_records mac_demo id" by (auto simp: host_records_def records_def mac_demo_def)
  ultimately have "ran id (\<lambda>c. \<not> routes_host (V4 0xCB007105) c \<and> \<not> undoing c) [] (snd mac_demo_run)"
    using mac_apply_spares_server [of mac_demo id home_welcome "V4 0xCB007105" "[]" mac_demo_nets mac_demo_cfg "''utun4''"]
    by (simp add: mac_demo_run_def)
  with mac_demo_eval show ?thesis by (simp add: ran_def)
qed

end
