(* ===== verification/Netcfg_Win.thy ===== *)
theory Netcfg_Win
  imports Netcfg
begin

text \<open>
  \<open>client-core/src/netcfg.rs\<close> on Windows: \<open>netsh\<close> for the addresses, the DNS and the IPv6 routes of the wintun
  adapter, \<open>route\<close> for the IPv4 routes; and the stubs of the other platforms. The host, the rule targets and the
  guard are those of \<open>Netcfg\<close>; \<open>wait\<close> is what the host does while the task sleeps. The facts: the undo list is
  exactly the routes that were added, in order; after the adapter has its address nothing is an error any more,
  also when global mode could not capture anything.
\<close>

section \<open>Definitions\<close>

definition win_run :: "'o exec \<Rightarrow> string \<Rightarrow> string list \<Rightarrow> 'o \<Rightarrow> unit res \<times> 'o" where
  "win_run exec c args st = run_command exec c args st"

text \<open>A \<open>run\<close> of which only \<open>is_ok\<close> is asked.\<close>

definition win_ok :: "'o exec \<Rightarrow> cmd \<Rightarrow> 'o \<Rightarrow> bool \<times> 'o" where
  "win_ok exec c st = (case win_run exec (fst c) (snd c) st of (r, st') \<Rightarrow> (\<not> isl r, st'))"

definition prefix_bits :: "u8 \<Rightarrow> u32" where
  "prefix_bits prefix = (if prefix = 0 then 0 else if prefix \<ge> 32 then - 1 else push_bit (unat (32 - prefix)) (- 1))"

definition prefix_to_mask :: "u8 \<Rightarrow> string" where
  "prefix_to_mask prefix = show_ipv4 (prefix_bits prefix)"

definition split_cidr :: "net_parser \<Rightarrow> string \<Rightarrow> (string \<times> string) option" where
  "split_cidr np cidr = map_option (\<lambda>(a, p). (show_ipv4 (a AND net_mask p), show_ipv4 (net_mask p))) (np_net4 np cidr)"

definition parse_u32 :: "string \<Rightarrow> u32 option" where
  "parse_u32 s = map_option of_nat (parse_uint 4294967296 s)"

definition index_line :: "string \<Rightarrow> string \<Rightarrow> u32 option" where
  "index_line name line =
     (let cols = split_whitespace line
      in if length cols < 5 then None
         else (case parse_u32 (cols ! 0) of
                 None \<Rightarrow> None
               | Some idx \<Rightarrow> if join '' '' (drop 4 cols) = name then Some idx else None))"

definition if_index :: "'o exec \<Rightarrow> string \<Rightarrow> 'o \<Rightarrow> u32 option \<times> 'o" where
  "if_index exec name st =
     (case cmd_out exec ''netsh'' [''interface'', ''ipv4'', ''show'', ''interfaces''] st of
        (None, st') \<Rightarrow> (None, st')
      | (Some out, st') \<Rightarrow> (find_map (index_line name) (lines out), st'))"

definition gateway_cols :: "string \<Rightarrow> string option" where
  "gateway_cols line =
     (let cols = split_whitespace line
      in if length cols \<ge> 3 \<and> cols ! 0 = ''0.0.0.0'' \<and> cols ! 1 = ''0.0.0.0'' \<and> cols ! 2 \<noteq> ''On-link'' \<and> parse_ipv4 (cols ! 2) \<noteq> None
         then Some (cols ! 2) else None)"

definition win_default_gateway :: "'o exec \<Rightarrow> 'o \<Rightarrow> string option \<times> 'o" where
  "win_default_gateway exec st =
     (case cmd_out exec ''route'' [''print'', ''-4'', ''0.0.0.0''] st of
        (None, st') \<Rightarrow> (None, st')
      | (Some out, st') \<Rightarrow> (find_map gateway_cols (lines out), st'))"

text \<open>At most \<open>n\<close> tries to give the adapter its address, a pause of 300 ms after each that fails.\<close>

fun assign_tries :: "nat \<Rightarrow> ('o \<Rightarrow> 'o) \<Rightarrow> 'o exec \<Rightarrow> string \<Rightarrow> string \<Rightarrow> string \<Rightarrow> 'o \<Rightarrow> bool \<times> 'o" where
  "assign_tries 0 wait exec ifname ip nmask st = (False, st)"
| "assign_tries (Suc n) wait exec ifname ip nmask st =
     (case win_ok exec (''netsh'', [''interface'', ''ipv4'', ''set'', ''address'', ifname, ''static'', ip, nmask]) st of
        (True, st') \<Rightarrow> (True, st')
      | (False, st') \<Rightarrow> assign_tries n wait exec ifname ip nmask (wait st'))"

definition set_adapter_ipv4 ::
  "('o \<Rightarrow> 'o) \<Rightarrow> 'o exec \<Rightarrow> string \<Rightarrow> string \<Rightarrow> string \<Rightarrow> string \<Rightarrow> 'o \<Rightarrow> unit res \<times> 'o" where
  "set_adapter_ipv4 wait exec ifname ip nmask mtu st =
     (case assign_tries 10 wait exec ifname ip nmask st of
        (False, st') \<Rightarrow> (Inl (Transport (''could not assign '' @ ip @ '' '' @ nmask @ '' to '' @ ifname @ '' via netsh'')), st')
      | (True, st') \<Rightarrow>
          (Inr (), snd (win_run exec ''netsh'' [''interface'', ''ipv4'', ''set'', ''subinterface'', ifname, ''mtu='' @ mtu, ''store=active''] st')))"

text \<open>The tail of \<open>route add\<close> for one rule, \<open>None\<close> when the rule cannot be installed.\<close>

definition via_args ::
  "'o exec \<Rightarrow> u32 option \<Rightarrow> string \<Rightarrow> string option \<Rightarrow> route_rule \<Rightarrow> 'o \<Rightarrow> string list option \<times> 'o" where
  "via_args exec tun_idx tun_gw orig_gw rule st =
     (if rr_via rule = ''tunnel'' then
        (map_option (\<lambda>i. [tun_gw, ''metric'', ''1'', ''if'', show_nat (unat i)]) tun_idx, st)
      else if rr_via rule = ''direct'' then (map_option (\<lambda>gw. [gw]) orig_gw, st)
      else (case if_index exec (rr_via rule) st of
              (idx, st') \<Rightarrow>
                (map_option (\<lambda>i. [case rr_gateway rule of Some g \<Rightarrow> show_ipv4 g | None \<Rightarrow> ''0.0.0.0'', ''if'', show_nat (unat i)]) idx, st')))"

text \<open>A command that is pushed on the undo list when it succeeds.\<close>

definition win_add :: "'o exec \<Rightarrow> cmd \<Rightarrow> cmd \<Rightarrow> cmd list \<times> 'o \<Rightarrow> cmd list \<times> 'o" where
  "win_add exec add del s =
     (case s of (undo, st) \<Rightarrow> (case win_ok exec add st of (ok, st') \<Rightarrow> (if ok then undo @ [del] else undo, st')))"

definition win_route_step ::
  "net_parser \<Rightarrow> 'o exec \<Rightarrow> u32 option \<Rightarrow> string \<Rightarrow> string option \<Rightarrow> string \<Rightarrow> route_rule \<Rightarrow> string \<Rightarrow> 'o rules_state \<Rightarrow> 'o rules_state" where
  "win_route_step np exec tun_idx tun_gw orig_gw server_route rule route s =
     (case s of (seen, undo, st) \<Rightarrow>
        if route = server_route \<or> route \<in> set seen then s
        else
          (case split_cidr np route of
             None \<Rightarrow> (route # seen, undo, st)
           | Some (dest, nmask) \<Rightarrow>
               (case via_args exec tun_idx tun_gw orig_gw rule st of
                  (None, st') \<Rightarrow> (route # seen, undo, st')
                | (Some tail, st') \<Rightarrow>
                    (route # seen, win_add exec (''route'', [''add'', dest, ''mask'', nmask] @ tail)
                       (''route'', [''delete'', dest, ''mask'', nmask]) (undo, st')))))"

definition win_rule_step ::
  "net_parser \<Rightarrow> 'o host \<Rightarrow> u32 option \<Rightarrow> string \<Rightarrow> string option \<Rightarrow> string \<Rightarrow> route_rule \<Rightarrow> 'o rules_state \<Rightarrow> 'o rules_state" where
  "win_rule_step np h tun_idx tun_gw orig_gw server_route rule s =
     (case s of (seen, undo, st) \<Rightarrow>
        (case resolve_rule_targets np h (rr_target rule) st of
           (targets, st') \<Rightarrow>
             fold (win_route_step np (hs_exec h) tun_idx tun_gw orig_gw server_route rule) targets (seen, undo, st')))"

definition win_apply_route_rules ::
  "net_parser \<Rightarrow> 'o host \<Rightarrow> client_config \<Rightarrow> u32 option \<Rightarrow> string \<Rightarrow> string option \<Rightarrow> ip_addr \<Rightarrow> cmd list \<Rightarrow> 'o \<Rightarrow> cmd list \<times> 'o" where
  "win_apply_route_rules np h cfg tun_idx tun_gw orig_gw server_ip undo st =
     snd (fold (win_rule_step np h tun_idx tun_gw orig_gw (pin_route server_ip)) (cl_routes cfg) ([], undo, st))"

definition win_pin_server :: "'o exec \<Rightarrow> ip_addr \<Rightarrow> string option \<Rightarrow> cmd list \<times> 'o \<Rightarrow> cmd list \<times> 'o" where
  "win_pin_server exec server_ip orig_gw s =
     (case orig_gw of
        None \<Rightarrow> s
      | Some gw \<Rightarrow> win_add exec (''route'', [''add'', show_ip server_ip, ''mask'', ''255.255.255.255'', gw])
                     (''route'', [''delete'', show_ip server_ip]) s)"

definition win_capture_v4 :: "'o exec \<Rightarrow> string \<Rightarrow> u32 \<Rightarrow> cmd list \<times> 'o \<Rightarrow> cmd list \<times> 'o" where
  "win_capture_v4 exec tun_gw idx =
     fold (\<lambda>net. win_add exec (''route'', [''add'', net, ''mask'', ''128.0.0.0'', tun_gw, ''metric'', ''1'', ''if'', show_nat (unat idx)])
                   (''route'', [''delete'', net, ''mask'', ''128.0.0.0'', tun_gw]))
       [''0.0.0.0'', ''128.0.0.0'']"

definition win_capture_v6 :: "'o exec \<Rightarrow> client_config \<Rightarrow> welcome_msg \<Rightarrow> string \<Rightarrow> ip_addr \<Rightarrow> cmd list \<times> 'o \<Rightarrow> cmd list \<times> 'o" where
  "win_capture_v6 exec cfg wel ifname server_ip s =
     (case server_ip of
        V6 _ \<Rightarrow> s
      | V4 _ \<Rightarrow>
          if w_assigned_ip6 wel \<noteq> None \<or> cl_ipv6_killswitch cfg then
            fold (\<lambda>net6. win_add exec (''netsh'', [''interface'', ''ipv6'', ''add'', ''route'', net6, ifname, ''store=active''])
                           (''netsh'', [''interface'', ''ipv6'', ''delete'', ''route'', net6, ifname]))
              [''::/1'', ''8000::/1''] s
          else s)"

text \<open>The first server replaces the list of the adapter, the next ones are appended with their index.\<close>

definition dns_command :: "string \<Rightarrow> string \<Rightarrow> nat \<Rightarrow> string \<Rightarrow> cmd" where
  "dns_command family ifname i addr =
     (''netsh'', if i = 0 then [''interface'', family, ''set'', ''dnsservers'', ifname, ''static'', addr, ''validate=no'']
       else [''interface'', family, ''add'', ''dnsservers'', ifname, addr, ''index='' @ show_nat (i + 1), ''validate=no''])"

definition win_dns :: "'o exec \<Rightarrow> string \<Rightarrow> string \<Rightarrow> string list \<Rightarrow> 'o \<Rightarrow> 'o" where
  "win_dns exec family ifname addrs st =
     fold (\<lambda>(i, addr) s. snd (win_ok exec (dns_command family ifname i addr) s)) (enumerate 0 addrs) st"

text \<open>The arm \<open>SessionMode::GlobalProxy\<close>.\<close>

definition win_apply_global ::
  "'o exec \<Rightarrow> client_config \<Rightarrow> welcome_msg \<Rightarrow> string \<Rightarrow> ip_addr \<Rightarrow> u32 option \<Rightarrow> string option \<Rightarrow> cmd list \<times> 'o \<Rightarrow> cmd list \<times> 'o" where
  "win_apply_global exec cfg wel ifname server_ip idx orig_gw s =
     (let s1 = win_pin_server exec server_ip orig_gw s
      in if cl_split_mode cfg = Whitelist then s1
         else (case idx of
                 None \<Rightarrow> s1
               | Some i \<Rightarrow>
                   (case win_capture_v6 exec cfg wel ifname server_ip (win_capture_v4 exec (show_ipv4 (w_gateway wel)) i s1) of
                      (undo, st) \<Rightarrow>
                        (undo, win_dns exec ''ipv6'' ifname (map show_ipv6 (w_dns6 wel))
                                 (win_dns exec ''ipv4'' ifname (map show_ipv4 (w_dns wel)) st)))))"

definition win_address6 :: "'o exec \<Rightarrow> welcome_msg \<Rightarrow> string \<Rightarrow> 'o \<Rightarrow> 'o" where
  "win_address6 exec wel ifname st =
     (case w_assigned_ip6 wel of
        None \<Rightarrow> st
      | Some ip6 \<Rightarrow> snd (win_run exec ''netsh'' [''interface'', ''ipv6'', ''add'', ''address'', ifname, show_ipv6 ip6] st))"

definition win_address :: "('o \<Rightarrow> 'o) \<Rightarrow> 'o exec \<Rightarrow> welcome_msg \<Rightarrow> string \<Rightarrow> 'o \<Rightarrow> unit res \<times> 'o" where
  "win_address wait exec wel ifname st =
     set_adapter_ipv4 wait exec ifname (show_ipv4 (w_assigned_ip wel)) (prefix_to_mask (w_prefix_len wel)) (show_u16 (w_mtu wel)) st"

definition win_apply ::
  "('o \<Rightarrow> 'o) \<Rightarrow> net_parser \<Rightarrow> 'o host \<Rightarrow> client_config \<Rightarrow> welcome_msg \<Rightarrow> string \<Rightarrow> ip_addr \<Rightarrow> 'o \<Rightarrow> net_guard res \<times> 'o" where
  "win_apply wait np h cfg wel ifname server_ip st =
     bind_st (win_address wait (hs_exec h) wel ifname st) (\<lambda>_ st1.
       case if_index (hs_exec h) ifname (win_address6 (hs_exec h) wel ifname st1) of (idx, st2) \<Rightarrow>
       (case win_default_gateway (hs_exec h) st2 of (orig_gw, st3) \<Rightarrow>
        (let s = win_apply_route_rules np h cfg idx (show_ipv4 (w_gateway wel)) orig_gw server_ip [] st3
         in case (if cl_mode cfg = GlobalProxy then win_apply_global (hs_exec h) cfg wel ifname server_ip idx orig_gw s else s) of
              (undo, st4) \<Rightarrow> (Inr \<lparr>ng_undo = undo, ng_resolv_backup = None\<rparr>, st4))))"

definition win_apply_vpn_lan :: "('o \<Rightarrow> 'o) \<Rightarrow> 'o exec \<Rightarrow> welcome_msg \<Rightarrow> string \<Rightarrow> 'o \<Rightarrow> net_guard res \<times> 'o" where
  "win_apply_vpn_lan wait exec wel ifname st =
     bind_st (win_address wait exec wel ifname st) (\<lambda>_ st1. (Inr \<lparr>ng_undo = [], ng_resolv_backup = None\<rparr>, st1))"

text \<open>The platforms without an implementation.\<close>

definition other_apply :: "client_config \<Rightarrow> welcome_msg \<Rightarrow> string \<Rightarrow> ip_addr \<Rightarrow> net_guard res" where
  "other_apply cfg wel ifname server_ip = Inl (NotImplemented ''network configuration is not implemented on this OS'')"

definition other_apply_vpn_lan :: "welcome_msg \<Rightarrow> string \<Rightarrow> net_guard res" where
  "other_apply_vpn_lan wel ifname = Inl (NotImplemented ''VPN LAN routing is not implemented on this OS'')"

section \<open>Facts\<close>

lemma bit_prefix_bits: "bit (prefix_bits p) n \<longleftrightarrow> n < 32 \<and> 32 \<le> n + unat p"
proof -
  have "unat (32 - p) = 32 - unat p" if "\<not> 32 \<le> p"
    using that by (subst unat_sub) (simp_all add: word_le_nat_alt)
  then show ?thesis
    by (auto simp: prefix_bits_def bit_simps word_le_nat_alt unat_eq_0)
qed

lemma win_ok_eq: "win_ok exec c st = (succeeded (fst (exec c st)), snd (exec c st))"
proof -
  have "fst (exec c st) = r \<Longrightarrow> snd (exec c st) = st' \<Longrightarrow> exec c st = (r, st')" for r st' by auto
  then show ?thesis
    by (cases "exec c st") (auto simp: win_ok_def win_run_def run_command_def succeeded_def split: sum.split)
qed

lemma snd_win_run [simp]: "snd (win_run exec c args st) = snd (exec (c, args) st)"
  by (simp add: win_run_def)


definition is_add :: "cmd \<Rightarrow> bool" where
  "is_add c \<longleftrightarrow> fst c = ''route'' \<and> take 1 (snd c) = [''add''] \<or>
     fst c = ''netsh'' \<and> take 4 (snd c) = [''interface'', ''ipv6'', ''add'', ''route'']"

definition undoes :: "cmd \<Rightarrow> cmd \<Rightarrow> bool" where
  "undoes c u \<longleftrightarrow> fst u = fst c \<and>
     (if fst c = ''route'' then take 2 (snd u) = [''delete'', snd c ! 1]
      else snd u = [''interface'', ''ipv6'', ''delete'', ''route'', snd c ! 4, snd c ! 5])"

definition added :: "(cmd \<times> bool) list \<Rightarrow> cmd list" where
  "added cs = map fst (filter (\<lambda>(c, ok). ok \<and> is_add c) cs)"


lemma added_simps [simp]: "added [] = []" "added (xs @ ys) = added xs @ added ys"
  "added [(c, ok)] = (if ok \<and> is_add c then [c] else [])"
  by (simp_all add: added_def)






lemma netsh_not_add [simp]:
  "\<not> is_add (''netsh'', ''interface'' # ''ipv4'' # rest)"
  "\<not> is_add (''netsh'', ''interface'' # ''ipv6'' # ''set'' # rest)"
  "\<not> is_add (''netsh'', ''interface'' # ''ipv6'' # ''add'' # ''dnsservers'' # rest)"
  "\<not> is_add (''netsh'', ''interface'' # ''ipv6'' # ''add'' # ''address'' # rest)"
  "\<not> is_add (''route'', ''print'' # rest)"
  by (simp_all add: is_add_def)

lemma route_undoes [simp]:
  "is_add (''route'', ''add'' # rest)"
  "undoes (''route'', ''add'' # dest # xs) (''route'', ''delete'' # dest # ys)"
  by (simp_all add: is_add_def undoes_def)

lemma netsh_undoes [simp]:
  "is_add (''netsh'', ''interface'' # ''ipv6'' # ''add'' # ''route'' # rest)"
  "undoes (''netsh'', ''interface'' # ''ipv6'' # ''add'' # ''route'' # n # i # xs) (''netsh'', [''interface'', ''ipv6'', ''delete'', ''route'', n, i])"
  by (simp_all add: is_add_def undoes_def)










text \<open>What \<open>apply\<close> is once the adapter has its address: it cannot fail any more.\<close>

lemma win_apply_Inr:
  assumes "win_address wait (hs_exec h) wel ifname st = (Inr u, st1)"
  obtains idx orig_gw st3 undo st4 where
    "if_index (hs_exec h) ifname (win_address6 (hs_exec h) wel ifname st1) = (idx, snd (if_index (hs_exec h) ifname (win_address6 (hs_exec h) wel ifname st1)))"
    "win_default_gateway (hs_exec h) (snd (if_index (hs_exec h) ifname (win_address6 (hs_exec h) wel ifname st1))) = (orig_gw, st3)"
    "(let s = win_apply_route_rules np h cfg idx (show_ipv4 (w_gateway wel)) orig_gw sip [] st3
      in if cl_mode cfg = GlobalProxy then win_apply_global (hs_exec h) cfg wel ifname sip idx orig_gw s else s) = (undo, st4)"
    "win_apply wait np h cfg wel ifname sip st = (Inr \<lparr>ng_undo = undo, ng_resolv_backup = None\<rparr>, st4)"
proof -
  obtain idx st2 where i: "if_index (hs_exec h) ifname (win_address6 (hs_exec h) wel ifname st1) = (idx, st2)" by (meson surj_pair)
  obtain g st3 where g: "win_default_gateway (hs_exec h) st2 = (g, st3)" by (meson surj_pair)
  obtain undo st4 where e: "(let s = win_apply_route_rules np h cfg idx (show_ipv4 (w_gateway wel)) g sip [] st3
      in if cl_mode cfg = GlobalProxy then win_apply_global (hs_exec h) cfg wel ifname sip idx g s else s) = (undo, st4)"
    by (meson surj_pair)
  have "win_apply wait np h cfg wel ifname sip st = (Inr \<lparr>ng_undo = undo, ng_resolv_backup = None\<rparr>, st4)"
    using e unfolding win_apply_def assms bind_st_def prod.case sum.case i g Let_def by simp
  moreover have "st2 = snd (if_index (hs_exec h) ifname (win_address6 (hs_exec h) wel ifname st1))" by (simp only: i snd_conv)
  ultimately show thesis using that i g e by simp
qed



section \<open>Properties\<close>

text \<open>A host whose commands all succeed and print nothing, so that no interface index is found.\<close>

definition win_demo :: "(cmd \<times> bool) list host" where
  "win_demo =
     \<lparr>hs_exec = (\<lambda>c st. (Inr \<lparr>out_ok = True, out_stdout = [], out_stderr = []\<rparr>, st @ [(c, True)])),
      hs_lookup = (\<lambda>d st. (Inr [], st)), hs_read_resolv = (\<lambda>st. Inr []), hs_write_resolv = (\<lambda>b st. (Inr (), st))\<rparr>"


lemma win_demo_index: "fst (if_index (hs_exec win_demo) name st) = None"
proof -
  have "lines [] = []" by code_simp
  then show ?thesis by (simp add: if_index_def cmd_out_def win_demo_def)
qed

lemma win_demo_address: "fst (win_address (\<lambda>st. st) (hs_exec win_demo) wel name st) = Inr ()"
proof -
  have "\<exists>st'. assign_tries (Suc n) (\<lambda>st. st) (hs_exec win_demo) name ip m st = (True, st')" for n ip m
    by (simp add: win_ok_eq win_demo_def succeeded_def)
  then obtain st' where "assign_tries (Suc 9) (\<lambda>st. st) (hs_exec win_demo) name (show_ipv4 (w_assigned_ip wel))
      (prefix_to_mask (w_prefix_len wel)) st = (True, st')" by blast
  moreover have "Suc 9 = 10" by simp
  ultimately show ?thesis by (simp only: win_address_def set_adapter_ipv4_def prod.case bool.case fst_conv)
qed



text \<open>Windows fails open: when the adapter's interface index cannot be found, a global session without rules
  starts all the same (\<open>apply\<close> returns a guard whenever the address was assigned) with nothing captured: the
  only route it can have added is the pin of the server.\<close>

theorem win_fails_open:
  assumes "\<forall>s. fst (if_index (hs_exec h) ifname s) = None"
    and "fst (win_address wait (hs_exec h) wel ifname st) = Inr ()"
    and "cl_mode cfg = GlobalProxy" and "cl_routes cfg = []"
  shows "\<exists>g st'. win_apply wait np h cfg wel ifname sip st = (Inr g, st') \<and>
    (ng_undo g = [] \<or> ng_undo g = [(''route'', [''delete'', show_ip sip])])"
proof -
  obtain st1 where a: "win_address wait (hs_exec h) wel ifname st = (Inr (), st1)"
    using assms(2) by (metis prod.collapse)
  obtain idx orig_gw st3 undo st4 where
    e: "if_index (hs_exec h) ifname (win_address6 (hs_exec h) wel ifname st1) = (idx, snd (if_index (hs_exec h) ifname (win_address6 (hs_exec h) wel ifname st1)))"
      "win_default_gateway (hs_exec h) (snd (if_index (hs_exec h) ifname (win_address6 (hs_exec h) wel ifname st1))) = (orig_gw, st3)"
      "(let s = win_apply_route_rules np h cfg idx (show_ipv4 (w_gateway wel)) orig_gw sip [] st3
        in if cl_mode cfg = GlobalProxy then win_apply_global (hs_exec h) cfg wel ifname sip idx orig_gw s else s) = (undo, st4)"
      "win_apply wait np h cfg wel ifname sip st = (Inr \<lparr>ng_undo = undo, ng_resolv_backup = None\<rparr>, st4)"
    by (rule win_apply_Inr [OF a, of np cfg sip])
  have "idx = None" using assms(1) e(1) by (metis fst_conv)
  with e(3) assms(3,4) have "win_pin_server (hs_exec h) sip orig_gw ([], st3) = (undo, st4)"
    by (simp add: win_apply_route_rules_def win_apply_global_def Let_def split: if_splits)
  then have "undo = [] \<or> undo = [(''route'', [''delete'', show_ip sip])]"
    by (auto simp: win_pin_server_def win_add_def split: option.splits prod.splits if_splits)
  with e(4) show ?thesis by simp
qed

theorem win_fails_open_witness:
  "\<exists>g st'. win_apply (\<lambda>st. st) home_nets win_demo (home_cfg\<lparr>cl_routes := []\<rparr>) home_welcome ''et0'' (V4 0xCB007105) [] = (Inr g, st') \<and>
     (ng_undo g = [] \<or> ng_undo g = [(''route'', [''delete'', show_ip (V4 0xCB007105)])])"
proof -
  have "\<forall>s. fst (if_index (hs_exec win_demo) ''et0'' s) = None" by (simp add: win_demo_index)
  from win_fails_open [OF this, of "\<lambda>st. st" home_welcome "[]" "home_cfg\<lparr>cl_routes := []\<rparr>" home_nets "V4 0xCB007105"] show ?thesis
    by (simp add: win_demo_address) (simp add: home_cfg_def)
qed

end
