(* ===== verification/Tun_Native.thy ===== *)
theory Tun_Native
  imports Tun
begin

text \<open>
  \<open>tun.rs\<close> on macOS, on Windows and on the other platforms. The utun device of macOS puts a four-byte address
  family in front of each packet, which \<open>send\<close> adds and \<open>recv\<close> removes; the Wintun device of Windows has a
  reader thread that moves packets into a channel of 1024. System calls and the Wintun library are function
  arguments. The facts: framing round trips, a failed \<open>create\<close> closes its socket, the reader's channel is a
  bounded queue, and no packet is cut on the way to the ring.
\<close>

section \<open>macOS\<close>

definition UTUN_CONTROL_NAME :: string where
  "UTUN_CONTROL_NAME = ''com.apple.net.utun_control''"

text \<open>The constants of the platform's headers.\<close>

definition AF_INET :: u32 where "AF_INET = 2"
definition AF_INET6 :: u32 where "AF_INET6 = 30"
definition AF_SYSTEM :: u8 where "AF_SYSTEM = 32"
definition AF_SYS_CONTROL :: u16 where "AF_SYS_CONTROL = 2"
definition O_NONBLOCK :: "32 word" where "O_NONBLOCK = 4"

record sockaddr_ctl =
  sc_len :: u8
  sc_family :: u8
  ss_sysaddr :: u16
  sc_id :: u32
  sc_unit :: u32

record 'o utun_kernel =
  u_socket :: "'o \<Rightarrow> (io_error + int) \<times> 'o"
  u_ctl_id :: "int \<Rightarrow> bytes \<Rightarrow> 'o \<Rightarrow> (io_error + u32) \<times> 'o"
  u_connect :: "int \<Rightarrow> sockaddr_ctl \<Rightarrow> 'o \<Rightarrow> (io_error + unit) \<times> 'o"
  u_ifname :: "int \<Rightarrow> 'o \<Rightarrow> (io_error + bytes) \<times> 'o"
  u_getfl :: "int \<Rightarrow> 'o \<Rightarrow> 32 word \<times> 'o"
  u_setfl :: "int \<Rightarrow> 32 word \<Rightarrow> 'o \<Rightarrow> 'o"
  u_register :: "int \<Rightarrow> 'o \<Rightarrow> (io_error + unit) \<times> 'o"
  u_close :: "int \<Rightarrow> 'o \<Rightarrow> 'o"

text \<open>The zeroed \<open>ctl_info\<close> with the name copied in: 96 bytes.\<close>

definition ctl_name :: bytes where
  "ctl_name = bytes_of UTUN_CONTROL_NAME @ replicate (96 - length UTUN_CONTROL_NAME) 0"

definition utun_addr :: "u32 \<Rightarrow> sockaddr_ctl" where
  "utun_addr ctl_id = \<lparr>sc_len = 32, sc_family = AF_SYSTEM, ss_sysaddr = AF_SYS_CONTROL, sc_id = ctl_id, sc_unit = 0\<rparr>"

text \<open>The bytes before the first NUL of the buffer; nothing when there is none (\<open>unwrap_or(0)\<close>).\<close>

definition utun_name :: "io_error + bytes \<Rightarrow> string" where
  "utun_name r =
     (case r of
        Inl _ \<Rightarrow> ''utun''
      | Inr buf \<Rightarrow> if 0 \<in> set buf then text_of (takeWhile (\<lambda>b. b \<noteq> 0) buf) else '''')"

definition utun_create :: "'o utun_kernel \<Rightarrow> 'o \<Rightarrow> tun_device res \<times> 'o" where
  "utun_create k st =
     (case u_socket k st of
        (Inl e, st1) \<Rightarrow> (Inl (Io e), st1)
      | (Inr fd, st1) \<Rightarrow>
          (case u_ctl_id k fd ctl_name st1 of
             (Inl e, st2) \<Rightarrow> (Inl (Io e), u_close k fd st2)
           | (Inr ctl_id, st2) \<Rightarrow>
               (case u_connect k fd (utun_addr ctl_id) st2 of
                  (Inl e, st3) \<Rightarrow> (Inl (Io e), u_close k fd st3)
                | (Inr _, st3) \<Rightarrow>
                    (let (nm, st4) = u_ifname k fd st3;
                         (flags, st5) = u_getfl k fd st4;
                         st6 = u_setfl k fd (flags OR O_NONBLOCK) st5
                     in case u_register k fd st6 of
                          (Inl e, st7) \<Rightarrow> (Inl (Io e), u_close k fd st7)
                        | (Inr _, st7) \<Rightarrow> (Inr \<lparr>td_fd = fd, td_name = utun_name nm\<rparr>, st7)))))"

text \<open>A turn of the read completes with the datagram of the kernel, cut to the buffer of \<open>buf_len + 4\<close> bytes.\<close>

definition utun_recv :: "nat \<Rightarrow> bytes io_turn list \<Rightarrow> bytes res option" where
  "utun_recv buf_len turns =
     (case tun_io turns of
        None \<Rightarrow> None
      | Some (Inl e) \<Rightarrow> Some (Inl e)
      | Some (Inr datagram) \<Rightarrow>
          (let tmp = take (buf_len + 4) datagram
           in Some (Inr (if length tmp < 4 then [] else drop 4 tmp))))"

definition utun_framed :: "bytes \<Rightarrow> bytes" where
  "utun_framed pkt = be32 (if drop_bit 4 (hd pkt) = 6 then AF_INET6 else AF_INET) @ pkt"

text \<open>\<open>write\<close> gives the turns of the loop for the framed bytes.\<close>

definition utun_send :: "(bytes \<Rightarrow> nat io_turn list) \<Rightarrow> bytes \<Rightarrow> nat res option" where
  "utun_send write pkt =
     (if pkt = [] then Some (Inr 0)
      else case tun_io (write (utun_framed pkt)) of
             None \<Rightarrow> None
           | Some (Inl e) \<Rightarrow> Some (Inl e)
           | Some (Inr n) \<Rightarrow> Some (Inr (n - 4)))"

section \<open>Windows\<close>

text \<open>The Wintun library: \<open>'w\<close> is the loaded DLL, \<open>'a\<close> an adapter, \<open>'s\<close> a session.\<close>

record ('w, 'a, 's) wintun_lib =
  wl_exe_dir :: "string option"
  wl_exists :: "string \<Rightarrow> bool"
  wl_load_from :: "string \<Rightarrow> string + 'w"
  wl_load :: "string + 'w"
  wl_open :: "'w \<Rightarrow> string \<Rightarrow> string + 'a"
  wl_create :: "'w \<Rightarrow> string \<Rightarrow> string \<Rightarrow> string + 'a"
  wl_start :: "'a \<Rightarrow> u32 \<Rightarrow> string + 's"
  wl_alloc :: "'s \<Rightarrow> u16 \<Rightarrow> string + unit"

definition RING_CAPACITY :: u32 where
  "RING_CAPACITY = 4 * 1024 * 1024"

definition dll_candidates :: "string \<Rightarrow> string list" where
  "dll_candidates dir = (let sep = [CHR 0x5C] in [dir @ sep @ ''wintun.dll'', dir @ sep @ ''resources'' @ sep @ ''wintun.dll''])"

definition load_wintun :: "('w, 'a, 's) wintun_lib \<Rightarrow> 'w res" where
  "load_wintun k =
     (let found = (case wl_exe_dir k of
          None \<Rightarrow> None
        | Some dir \<Rightarrow> find_map (\<lambda>cand. if wl_exists k cand
              then (case wl_load_from k cand of Inr w \<Rightarrow> Some w | Inl _ \<Rightarrow> None) else None) (dll_candidates dir))
      in case found of
           Some w \<Rightarrow> Inr w
         | None \<Rightarrow> map_err (\<lambda>e. Transport (''load wintun.dll: '' @ e @
             ''. Put wintun.dll (amd64, from https://www.wintun.net) next to the EntroTunnel executable.'')) (wl_load k))"

text \<open>The device: its session, the packets in the channel of the reader thread, whether that thread still runs,
  and the packets written to the ring.\<close>

record 's wintun_device =
  wt_session :: 's
  wt_name :: string
  wt_queue :: "bytes list"
  wt_reader :: bool
  wt_ring :: "bytes list"

definition wintun_create :: "('w, 'a, 's) wintun_lib \<Rightarrow> tun_config \<Rightarrow> 's wintun_device res" where
  "wintun_create k cfg =
     (let name = (if tc_name cfg = '''' then ''et0'' else tc_name cfg)
      in bind_res (load_wintun k) (\<lambda>w.
         bind_res (case wl_open k w name of
              Inr a \<Rightarrow> Inr a
            | Inl _ \<Rightarrow> map_err (\<lambda>e. Transport (''create wintun adapter: '' @ e)) (wl_create k w name ''EntroTunnel'')) (\<lambda>a.
         bind_res (map_err (\<lambda>e. Transport (''start wintun session: '' @ e)) (wl_start k a RING_CAPACITY)) (\<lambda>s.
           Inr \<lparr>wt_session = s, wt_name = name, wt_queue = [], wt_reader = True, wt_ring = []\<rparr>))))"

definition WINTUN_CHANNEL :: nat where
  "WINTUN_CHANNEL = 1024"

text \<open>One round of the reader thread, given what \<open>receive_blocking\<close> returns; it waits (\<open>None\<close>) while the channel
  is full.\<close>

definition reader_round :: "string + bytes \<Rightarrow> 's wintun_device \<Rightarrow> 's wintun_device option" where
  "reader_round got d =
     (if \<not> wt_reader d then None
      else case got of
             Inl _ \<Rightarrow> Some (d\<lparr>wt_reader := False\<rparr>)
           | Inr packet \<Rightarrow> if length (wt_queue d) < WINTUN_CHANNEL
               then Some (d\<lparr>wt_queue := wt_queue d @ [packet]\<rparr>) else None)"

text \<open>\<open>recv\<close> waits (\<open>None\<close>) while the channel is empty and its sender lives.\<close>

definition wintun_recv :: "nat \<Rightarrow> 's wintun_device \<Rightarrow> (bytes res \<times> 's wintun_device) option" where
  "wintun_recv buf_len d =
     (case wt_queue d of
        [] \<Rightarrow> if wt_reader d then None else Some (Inl (Transport ''wintun reader stopped''), d)
      | pkt # q \<Rightarrow>
          Some (if length pkt > buf_len
                then Inl (Transport (''tun recv: packet '' @ show_nat (length pkt) @ '' bytes exceeds buffer '' @ show_nat buf_len))
                else Inr pkt, d\<lparr>wt_queue := q\<rparr>))"

definition wintun_send :: "('w, 'a, 's) wintun_lib \<Rightarrow> bytes \<Rightarrow> 's wintun_device \<Rightarrow> nat res \<times> 's wintun_device" where
  "wintun_send k pkt d =
     (if length pkt > 65535
      then (Inl (Transport (''wintun send: packet '' @ show_nat (length pkt) @ '' bytes exceeds 65535'')), d)
      else case wl_alloc k (wt_session d) (of_nat (length pkt)) of
             Inl e \<Rightarrow> (Inl (Transport (''wintun alloc: '' @ e)), d)
           | Inr _ \<Rightarrow> (Inr (length pkt), d\<lparr>wt_ring := wt_ring d @ [pkt]\<rparr>))"

text \<open>\<open>shutdown\<close> ends the reader's wait, and \<open>join\<close> waits for the thread.\<close>

definition wintun_drop :: "'s wintun_device \<Rightarrow> 's wintun_device" where
  "wintun_drop d = d\<lparr>wt_reader := False\<rparr>"

section \<open>Other platforms\<close>

definition other_create :: "tun_config \<Rightarrow> tun_device res" where
  "other_create cfg = Inl (NotImplemented ''TUN device not implemented for this OS'')"

definition other_recv :: "nat \<Rightarrow> nat res" where
  "other_recv buf_len = Inl (NotImplemented ''tun recv on this OS'')"

definition other_send :: "bytes \<Rightarrow> nat res" where
  "other_send pkt = Inl (NotImplemented ''tun send on this OS'')"

section \<open>Facts\<close>

lemma length_ctl_name: "length ctl_name = 96"
  by (simp add: ctl_name_def UTUN_CONTROL_NAME_def)

lemma length_utun_framed [simp]: "length (utun_framed pkt) = length pkt + 4"
  by (simp add: utun_framed_def)

lemma tun_io_waits: "tun_io (replicate n Would_block @ ts) = tun_io ts"
  by (induction n) auto

lemma drop_utun_framed: "drop 4 (utun_framed pkt) = pkt"
  by (simp add: utun_framed_def)

lemma utun_recv_framed:
  assumes "length pkt \<le> buf_len"
  shows "utun_recv buf_len (replicate n Would_block @ Call_done (utun_framed pkt) # ts) = Some (Inr pkt)"
  using assms by (simp add: utun_recv_def tun_io_waits drop_utun_framed)

lemma utun_create_closes:
  assumes "u_socket k st = (Inr fd, st1)" and "utun_create k st = (Inl e, st')"
  shows "\<exists>s. st' = u_close k fd s"
  using assms by (auto simp: utun_create_def split_beta Let_def split: prod.splits sum.splits)

lemma utun_create_name:
  assumes "u_socket k st = (Inr fd, st1)" and "utun_create k st = (Inr d, st')"
  shows "td_fd d = fd"
  using assms by (auto simp: utun_create_def split_beta Let_def split: prod.splits sum.splits)

text \<open>A packet goes through the device unchanged: what \<open>send\<close> writes, \<open>recv\<close> of the other end returns.\<close>

theorem utun_round_trip:
  assumes "pkt \<noteq> []" and "length pkt \<le> buf_len"
  shows "utun_send (\<lambda>framed. replicate n Would_block @ [Call_done (length framed)]) pkt = Some (Inr (length pkt)) \<and>
    utun_recv buf_len (replicate m Would_block @ [Call_done (utun_framed pkt)]) = Some (Inr pkt)"
  using assms utun_recv_framed [OF assms(2), of m "[]"] by (simp add: utun_send_def tun_io_waits)

lemma wintun_queue_bounded:
  assumes "reader_round got d = Some d'" and "length (wt_queue d) \<le> WINTUN_CHANNEL"
  shows "length (wt_queue d') \<le> WINTUN_CHANNEL"
  using assms by (auto simp: reader_round_def split: if_splits sum.splits)

lemma wintun_send_whole:
  assumes "wintun_send k pkt d = (Inr n, d')"
  shows "n = length pkt \<and> wt_ring d' = wt_ring d @ [pkt] \<and> unat (of_nat (length pkt) :: u16) = length pkt"
  using assms by (auto simp: wintun_send_def unat_of_nat split: if_splits sum.splits)

end
