(* ===== verification/Latency.thy ===== *)
theory Latency
  imports Chain
begin

text \<open>
  \<open>client-core/src/latency.rs\<close>: timing a TCP connect or a QUIC handshake to a server. The clock and the
  sockets are a record of functions over the state of the world; \<open>None\<close> is the timeout. Also the texts of
  the error type (\<open>error.rs\<close>), which the front ends show. The fact: the probe of a TCP or WebSocket server opens
  and drops one connection.
\<close>

section \<open>Texts of errors\<close>

text \<open>\<open>show_io\<close> is the text of an error of the standard library.\<close>

fun show_error :: "(io_error \<Rightarrow> string) \<Rightarrow> error \<Rightarrow> string" where
  "show_error show_io (Io e) = ''io: '' @ show_io e"
| "show_error show_io (Codec s) = ''codec: '' @ s"
| "show_error show_io (Crypto s) = ''crypto: '' @ s"
| "show_error show_io (Protocol s) = ''protocol: '' @ s"
| "show_error show_io (Auth s) = ''auth: '' @ s"
| "show_error show_io (Transport s) = ''transport: '' @ s"
| "show_error show_io (Config s) = ''config: '' @ s"
| "show_error show_io Closed = ''connection closed''"
| "show_error show_io (NotImplemented s) = ''not implemented: '' @ s"

section \<open>The probe\<close>

text \<open>The time in the results is what the clock shows between the start and the end of the connect.\<close>

record ('l, 'o) probes =
  pb_tcp :: "string \<Rightarrow> u16 \<Rightarrow> nat \<Rightarrow> 'o \<Rightarrow> ((io_error + nat) option) \<times> 'o"
  pb_quic :: "endpoint \<Rightarrow> client_security \<Rightarrow> nat \<Rightarrow> 'o \<Rightarrow> (('l \<times> nat) res option) \<times> 'o"
  pb_drop :: "'o \<Rightarrow> 'o"
  pb_close :: "'l \<Rightarrow> 'o \<Rightarrow> 'o"

definition timed_out :: error where
  "timed_out = Transport ''latency probe timed out''"

definition measure_latency ::
  "(io_error \<Rightarrow> string) \<Rightarrow> (string \<Rightarrow> string + bytes) \<Rightarrow> ('l, 'o) probes \<Rightarrow> server_entry \<Rightarrow> nat \<Rightarrow> 'o \<Rightarrow> nat res \<times> 'o" where
  "measure_latency show_io base64 pb server timeout st =
     (case se_transport server of
        Quic \<Rightarrow>
          (case security_of base64 server of
             Inl e \<Rightarrow> (Inl e, st)
           | Inr security \<Rightarrow>
               (case pb_quic pb (endpoint_of server) security timeout st of
                  (None, st1) \<Rightarrow> (Inl timed_out, st1)
                | (Some (Inl e), st1) \<Rightarrow> (Inl e, st1)
                | (Some (Inr (sink, rtt)), st1) \<Rightarrow> (Inr rtt, pb_close pb sink st1)))
      | _ \<Rightarrow>
          (case pb_tcp pb (se_host server) (se_port server) timeout st of
             (None, st1) \<Rightarrow> (Inl timed_out, st1)
           | (Some (Inl e), st1) \<Rightarrow> (Inl (Transport (''connect: '' @ show_io e)), st1)
           | (Some (Inr rtt), st1) \<Rightarrow> (Inr rtt, pb_drop pb st1)))"

lemma measure_latency_tcp:
  assumes "se_transport server \<noteq> Quic" and "pb_tcp pb (se_host server) (se_port server) timeout st = (Some (Inr rtt), st1)"
  shows "measure_latency show_io base64 pb server timeout st = (Inr rtt, pb_drop pb st1)"
  using assms by (cases "se_transport server") (simp_all add: measure_latency_def)

lemma measure_latency_bad_key:
  assumes "se_transport server = Quic" and "parse_psk base64 (se_noise_psk server) = Inl e"
  shows "measure_latency show_io base64 pb server timeout st = (Inl e, st)"
  using assms by (simp add: measure_latency_def security_of_def)

end
