(* ===== verification/Cli.thy ===== *)
theory Cli
  imports Latency Shell
begin

text \<open>
  \<open>desktop/cli/src/main.rs\<close>: the commands of the headless client. Each command is a function from what it
  reads to the lines it prints, or an error with the context the code attaches; files, links and TOML are
  arguments, as in \<open>Client_Config\<close>. The facts: the modes \<open>import\<close> accepts, the profile and the mode an
  import stores, and which servers \<open>ping\<close> marks as the fastest.
\<close>

section \<open>Output\<close>

text \<open>The arrow and the ellipsis of the messages, in UTF-8, and \<open>{:<16}\<close>.\<close>

definition arrow :: string where
  "arrow = [CHR 0xE2, CHR 0x86, CHR 0x92]"

definition ellipsis :: string where
  "ellipsis = [CHR 0xE2, CHR 0x80, CHR 0xA6]"

definition pad :: "nat \<Rightarrow> string \<Rightarrow> string" where
  "pad n s = s @ replicate (n - length s) CHR '' ''"

definition host_colon_port :: "server_entry \<Rightarrow> string" where
  "host_colon_port s = se_host s @ '':'' @ show_u16 (se_port s)"

definition server_line :: "server_entry \<Rightarrow> string" where
  "server_line s = pad 16 (se_name s) @ '' '' @ host_colon_port s @ ''  ['' @ show_transport (se_transport s) @ '']''"

section \<open>Commands\<close>

definition import_mode :: "string \<Rightarrow> session_mode option" where
  "import_mode m =
     (if m = ''global_proxy'' \<or> m = ''global'' then Some GlobalProxy
      else if m = ''system_proxy'' \<or> m = ''system'' then Some SystemProxy
      else if m = ''http_proxy'' \<or> m = ''http'' then Some HttpProxy
      else if m = ''vpn'' then Some Vpn
      else None)"

text \<open>The files of the host as a function state: \<open>write\<close> may fail.\<close>

definition save_config ::
  "(client_config \<Rightarrow> string + string) \<Rightarrow> (string \<Rightarrow> string \<Rightarrow> 'o \<Rightarrow> (io_error + unit) \<times> 'o) \<Rightarrow>
   client_config \<Rightarrow> string \<Rightarrow> 'o \<Rightarrow> (anyhow + unit) \<times> 'o" where
  "save_config to_toml write cfg path st =
     (case client_to_toml to_toml cfg of
        Inl e \<Rightarrow> (Inl (Context (''writing '' @ path) (Source e)), st)
      | Inr text \<Rightarrow> (case write path text st of (r, st') \<Rightarrow> (with_context (''writing '' @ path) (map_err Io r), st')))"

definition cli_import ::
  "link_codec \<Rightarrow> (client_config \<Rightarrow> string + string) \<Rightarrow> (string \<Rightarrow> string \<Rightarrow> 'o \<Rightarrow> (io_error + unit) \<times> 'o) \<Rightarrow>
   string \<Rightarrow> string \<Rightarrow> string \<Rightarrow> 'o \<Rightarrow> (anyhow + string list) \<times> 'o" where
  "cli_import k to_toml write config link mode_text st =
     (case with_context ''decoding config link'' (decode_link k link) of
        Inl e \<Rightarrow> (Inl e, st)
      | Inr profile \<Rightarrow>
          (case import_mode mode_text of
             None \<Rightarrow> (Inl (Message (''unknown mode '' @ [CHR 0x27] @ mode_text @ [CHR 0x27] @
                '' (use global_proxy|system_proxy|http_proxy|vpn)'')), st)
           | Some mode \<Rightarrow>
               (let settings = default_settings\<lparr>cs_mode := mode, cs_client_name := Some ''cli''\<rparr>
                in bind_st (save_config to_toml write (compose profile settings) config st) (\<lambda>_ st'.
                     (Inr ((''imported '' @ [CHR 0x27] @ pr_name profile @ [CHR 0x27] @ '' '' @ arrow @ '' '' @ config)
                         # map (\<lambda>s. ''  server '' @ server_line s) (pr_servers profile)
                         @ [''mode: '' @ show_mode mode]), st')))))"

definition starter_config :: "string \<Rightarrow> string \<Rightarrow> string \<Rightarrow> u16 \<Rightarrow> client_config" where
  "starter_config token psk host port =
     \<lparr>cl_name = ''default'', cl_selected_server = Some ''main'', cl_mode = GlobalProxy, cl_requested_ip = None,
      cl_client_name = Some ''cli'', cl_tun_name = ''et0'', cl_http_listen = ''127.0.0.1:7890'', cl_join_vpn = False,
      cl_server_host = [], cl_server_port = 0, cl_transport = Tcp, cl_token = [], cl_noise_psk = [],
      cl_tls_skip_verify = False, cl_server_name = None,
      cl_servers = [\<lparr>se_name = ''main'', se_host = host, se_port = port, se_transport = Tcp, se_token = token,
        se_noise_psk = psk, se_tls_skip_verify = False, se_server_name = None\<rparr>],
      cl_routes = [\<lparr>rr_target = ''192.168.0.0/16'', rr_via = ''direct'', rr_gateway = None\<rparr>,
        \<lparr>rr_target = ''10.0.0.0/8'', rr_via = ''direct'', rr_gateway = None\<rparr>],
      cl_split_mode = Blacklist, cl_chain = [], cl_ipv6_killswitch = True\<rparr>"

definition cli_gen_config ::
  "(client_config \<Rightarrow> string + string) \<Rightarrow> (string \<Rightarrow> string \<Rightarrow> 'o \<Rightarrow> (io_error + unit) \<times> 'o) \<Rightarrow>
   string \<Rightarrow> string \<Rightarrow> string \<Rightarrow> string \<Rightarrow> u16 \<Rightarrow> 'o \<Rightarrow> (anyhow + string list) \<times> 'o" where
  "cli_gen_config to_toml write config token psk host port st =
     bind_st (save_config to_toml write (starter_config token psk host port) config st) (\<lambda>_ st'.
       (Inr [''wrote '' @ config,
             ''NOTE: each server's token + noise_psk must match a peer record on that server.''], st'))"

definition load_config ::
  "(string \<Rightarrow> io_error + string) \<Rightarrow> (string \<Rightarrow> string + client_config) \<Rightarrow> string \<Rightarrow> anyhow + client_config" where
  "load_config read_file from_toml config = with_context (''loading '' @ config) (client_load read_file from_toml config)"

definition servers_lines :: "string \<Rightarrow> client_config \<Rightarrow> string list" where
  "servers_lines config cfg =
     (let active = (case active_server cfg of Inr s \<Rightarrow> Some s | Inl _ \<Rightarrow> None);
          active_name = map_option se_name active
      in [''servers in '' @ config @ '':'']
         @ (if cl_servers cfg = [] then [''  (legacy single-server config '' @ [CHR 0xE2, CHR 0x80, CHR 0x94] @ '' no named servers)''] else [])
         @ map (\<lambda>s. ''  '' @ (if Some (se_name s) = active_name then ''*'' else '' '') @ '' '' @ server_line s) (cl_servers cfg)
         @ (case active of
              Some s \<Rightarrow> [''active: '' @ se_name s @ '' ('' @ host_colon_port s @ '' via '' @ show_transport (se_transport s) @ '')'']
            | None \<Rightarrow> []))"

text \<open>The servers \<open>ping\<close> probes; a probe whose task panics has no result.\<close>

definition ping_servers :: "client_config \<Rightarrow> server_entry list" where
  "ping_servers cfg =
     (if cl_servers cfg = [] then (case active_server cfg of Inr s \<Rightarrow> [s] | Inl _ \<Rightarrow> []) else cl_servers cfg)"

definition best_ms :: "(server_entry \<times> (error + nat)) list \<Rightarrow> nat option" where
  "best_ms results =
     (case List.map_filter (\<lambda>(_, r). case r of Inr d \<Rightarrow> Some d | Inl _ \<Rightarrow> None) results of
        [] \<Rightarrow> None | d # ds \<Rightarrow> Some (fold min ds d))"

definition ping_line :: "(error \<Rightarrow> string) \<Rightarrow> nat option \<Rightarrow> server_entry \<times> (error + nat) \<Rightarrow> string" where
  "ping_line show_err best sr =
     (case sr of (s, r) \<Rightarrow>
        ''  '' @ pad 16 (se_name s) @ '' '' @ host_colon_port s @ '' ['' @ show_transport (se_transport s) @ '']'' @
        (case r of
           Inr ms \<Rightarrow> '' '' @ show_nat ms @ '' ms'' @ (if Some ms = best then ''  *fastest'' else [])
         | Inl e \<Rightarrow> ''  unreachable ('' @ show_err e @ '')''))"

definition cli_ping :: "(error \<Rightarrow> string) \<Rightarrow> (server_entry \<Rightarrow> (error + nat) option) \<Rightarrow> client_config \<Rightarrow> string list" where
  "cli_ping show_err probe cfg =
     (let servers = ping_servers cfg;
          results = List.map_filter (\<lambda>s. map_option (Pair s) (probe s)) servers
      in (''pinging '' @ show_nat (length servers) @ '' server(s)'' @ ellipsis)
         # map (ping_line show_err (best_ms results)) results)"

text \<open>\<open>run\<close>: the configuration the engine starts with.\<close>

definition run_config :: "string option \<Rightarrow> client_config \<Rightarrow> client_config" where
  "run_config server cfg = (case server of Some name \<Rightarrow> cfg\<lparr>cl_selected_server := Some name\<rparr> | None \<Rightarrow> cfg)"

section \<open>Facts\<close>

lemma import_mode_show: "import_mode (show_mode m) = Some m"
  by (cases m) (simp_all add: import_mode_def)

lemma fold_min_le: "fold min ds (d::nat) \<le> d \<and> (\<forall>x \<in> set ds. fold min ds d \<le> x) \<and> fold min ds d \<in> insert d (set ds)"
proof (induction ds arbitrary: d)
  case (Cons x ds)
  from Cons [of "min x d"] show ?case by (auto simp: min_def split: if_splits)
qed simp

lemma best_ms_Some:
  "best_ms results = Some m \<longleftrightarrow>
    (\<exists>s. (s, Inr m) \<in> set results) \<and> (\<forall>s d. (s, Inr d) \<in> set results \<longrightarrow> m \<le> d)"
proof -
  define ds where "ds = List.map_filter (\<lambda>(_, r). case r of Inr d \<Rightarrow> Some d | Inl _ \<Rightarrow> None) results"
  have mem: "d \<in> set ds \<longleftrightarrow> (\<exists>s. (s, Inr d) \<in> set results)" for d
    by (force simp: ds_def map_filter_def split: sum.splits)
  show ?thesis
  proof (cases ds)
    case Nil
    with mem show ?thesis by (auto simp: best_ms_def ds_def [symmetric])
  next
    case (Cons x xs)
    with fold_min_le [of xs x] have "fold min xs x \<in> set ds" "\<forall>y \<in> set ds. fold min xs x \<le> y" by auto
    then have "m = fold min xs x \<longleftrightarrow> m \<in> set ds \<and> (\<forall>y \<in> set ds. m \<le> y)" by (metis antisym)
    moreover have "best_ms results = Some m \<longleftrightarrow> m = fold min xs x"
      by (auto simp: best_ms_def ds_def [symmetric] Cons)
    ultimately show ?thesis using mem by blast
  qed
qed

text \<open>C37. From the admin panel to a running client: importing the link of a profile with the text of a mode writes a
  configuration that, loaded again, runs in that mode on the server the profile selects.\<close>

theorem imported_link_runs:
  assumes "link_laws k p" and "pr_servers p \<noteq> []"
    and "\<forall>c text. to_toml c = Inr text \<longrightarrow> from_toml text = Inr c"
    and "\<forall>path text st. fst (write path text st) = Inr () \<longrightarrow> read (snd (write path text st)) path = Inr text"
    and "cli_import k to_toml write config (encode_link k p) (show_mode m) st = (Inr out, st')"
  shows "\<exists>cfg. load_config (read st') from_toml config = Inr cfg \<and> cl_mode cfg = m \<and>
    active_server (run_config None cfg) = profile_active_server p"
proof -
  define cfg where "cfg = compose p (default_settings\<lparr>cs_mode := m, cs_client_name := Some ''cli''\<rparr>)"
  have saved: "save_config to_toml write cfg config st = (Inr (), st')"
    using assms(5) by (auto simp: cli_import_def decode_encode_link [OF assms(1)] with_context_def import_mode_show
        cfg_def bind_st_Inr_iff)
  then obtain body where t: "to_toml cfg = Inr body" "write config body st = (Inr (), st')"
    by (auto simp: save_config_def client_to_toml_def with_context_def map_err_def split: sum.splits prod.splits)
  have "read st' config = Inr body" using assms(4) t(2) by (metis fst_conv snd_conv)
  then have "load_config (read st') from_toml config = Inr cfg"
    using assms(3) t(1) by (simp add: load_config_def client_load_def with_context_def)
  moreover have "cl_mode cfg = m" by (simp add: cfg_def compose_def)
  moreover have "active_server (run_config None cfg) = profile_active_server p"
    by (simp add: run_config_def cfg_def compose_active [OF assms(2)])
  ultimately show ?thesis by blast
qed

text \<open>A TOML printer that knows one configuration.\<close>

definition one_config :: client_config where
  "one_config = compose one_profile (default_settings\<lparr>cs_mode := Vpn, cs_client_name := Some ''cli''\<rparr>)"

theorem imported_link_runs_witness:
  "\<exists>cfg. load_config (get_file (snd (cli_import letter_codec (\<lambda>c. if c = one_config then Inr ''toml'' else Inl ''?'')
       put_file ''client.toml'' (encode_link letter_codec one_profile) ''vpn'' Map.empty)))
     (\<lambda>_. Inr one_config) ''client.toml'' = Inr cfg \<and> cl_mode cfg = Vpn \<and>
    active_server (run_config None cfg) = profile_active_server one_profile"
proof -
  let ?to = "\<lambda>c. if c = one_config then Inr ''toml'' else Inl ''?''"
  obtain out st' where i: "cli_import letter_codec ?to put_file ''client.toml'' (encode_link letter_codec one_profile)
      (show_mode Vpn) Map.empty = (Inr out, st')"
    by (simp add: cli_import_def decode_encode_link [OF letter_codec_laws] with_context_def import_mode_def
        save_config_def client_to_toml_def put_file_def Let_def bind_st_def one_config_def [symmetric])
  have "pr_servers one_profile \<noteq> []" by (simp add: one_profile_def)
  from imported_link_runs [OF letter_codec_laws this _ _ i, where from_toml = "\<lambda>_. Inr one_config" and read = get_file] i
  show ?thesis by (simp add: put_file_def get_file_def)
qed

text \<open>What \<open>ping\<close> marks as fastest: a server that answered is marked exactly when no server that answered was
  faster, so at least one is marked when any answered.\<close>

theorem ping_marks_fastest:
  assumes "(s, Inr ms) \<in> set results"
  shows "(Some ms = best_ms results \<longleftrightarrow> (\<forall>s' d. (s', Inr d) \<in> set results \<longrightarrow> ms \<le> d)) \<and>
    (\<exists>s' d. (s', Inr d) \<in> set results \<and> Some d = best_ms results)"
proof -
  have "best_ms results \<noteq> None"
    using assms by (force simp: best_ms_def map_filter_def filter_empty_conv split: list.splits)
  then obtain d where d: "best_ms results = Some d" by blast
  from best_ms_Some [of results d] d assms best_ms_Some [of results ms] show ?thesis by (metis option.inject)
qed

definition probed :: "(server_entry \<times> (error + nat)) list" where
  "probed = [(hd (pr_servers one_profile), Inr 31), (hd (pr_servers one_profile), Inr 9),
     ((hd (pr_servers one_profile))\<lparr>se_name := ''spare''\<rparr>, Inl Closed)]"

theorem ping_marks_fastest_witness:
  "\<exists>s' d. (s', Inr d) \<in> set probed \<and> Some d = best_ms probed"
  using ping_marks_fastest [of "hd (pr_servers one_profile)" 9 probed] by (simp add: probed_def)

end
