(* ===== verification/Gui_Store.thy ===== *)
theory Gui_Store
  imports Latency
begin

text \<open>
  The persistent half of \<open>client-tauri/src-tauri/src/main.rs\<close>: the ring of log lines, \<open>profiles.json\<close> and
  \<open>settings.json\<close>, and the commands on profiles and settings. Files and codecs are arguments; \<open>store_laws\<close>
  says that what is written is read back. The profile list is refined to a map from names to profiles. The
  facts: every command keeps the names distinct, the ring holds at most 2000 lines, a fresh name is found,
  the name of an exported file stays in its directory, and an unreadable \<open>profiles.json\<close> is replaced.
\<close>

section \<open>The log ring\<close>

definition LOG_CAP :: nat where
  "LOG_CAP = 2000"

definition push_line :: "string list \<Rightarrow> string \<Rightarrow> string list" where
  "push_line q line =
     (let line = trim_end line
      in if line = [] then q
         else (if length q \<ge> LOG_CAP then tl q else q) @ [line])"

text \<open>Dropping the writer of an event: its bytes are cut into lines.\<close>

definition log_tee_drop :: "string \<Rightarrow> string list \<Rightarrow> string list" where
  "log_tee_drop acc q = (if acc = [] then q else foldl push_line q (split_on newline acc))"

section \<open>Files\<close>

record local_state =
  lst_settings :: connection_settings
  lst_active_profile :: "string option"

definition local_default :: local_state where
  "local_default = \<lparr>lst_settings = default_settings, lst_active_profile = None\<rparr>"

record 'o gui_files =
  gf_read :: "string \<Rightarrow> 'o \<Rightarrow> io_error + string"
  gf_write :: "string \<Rightarrow> string \<Rightarrow> 'o \<Rightarrow> (io_error + unit) \<times> 'o"
  gf_mkdirs :: "string \<Rightarrow> 'o \<Rightarrow> (io_error + unit) \<times> 'o"
  gf_parent :: "string \<Rightarrow> string option"
  gf_show :: "io_error \<Rightarrow> string"

record gui_codec =
  gc_profiles :: "string \<Rightarrow> profile list option"
  gc_configs :: "string \<Rightarrow> client_config list option"
  gc_show_profiles :: "profile list \<Rightarrow> string + string"
  gc_local :: "string \<Rightarrow> local_state option"
  gc_show_local :: "local_state \<Rightarrow> string + string"

record gui_paths =
  gp_config_dir :: string
  gp_profiles :: string
  gp_settings :: string

definition old_profile :: "client_config \<Rightarrow> profile" where
  "old_profile c = \<lparr>pr_name = cl_name c, pr_selected_server = cl_selected_server c, pr_servers = cl_servers c\<rparr>"

definition load_profiles :: "'o gui_files \<Rightarrow> gui_codec \<Rightarrow> string \<Rightarrow> 'o \<Rightarrow> profile list" where
  "load_profiles fs k path st =
     (case gf_read fs path st of
        Inl _ \<Rightarrow> []
      | Inr body \<Rightarrow>
          (case gc_profiles k body of
             Some list \<Rightarrow> list
           | None \<Rightarrow> (case gc_configs k body of Some old \<Rightarrow> map old_profile old | None \<Rightarrow> [])))"

definition write_in_dir :: "'o gui_files \<Rightarrow> string \<Rightarrow> string + string \<Rightarrow> 'o \<Rightarrow> (string + unit) \<times> 'o" where
  "write_in_dir fs path body st =
     (let st1 = (case gf_parent fs path of Some dir \<Rightarrow> snd (gf_mkdirs fs dir st) | None \<Rightarrow> st)
      in case body of
           Inl e \<Rightarrow> (Inl e, st1)
         | Inr b \<Rightarrow> (case gf_write fs path b st1 of (r, st2) \<Rightarrow> (map_err (gf_show fs) r, st2)))"

definition save_profiles :: "'o gui_files \<Rightarrow> gui_codec \<Rightarrow> string \<Rightarrow> profile list \<Rightarrow> 'o \<Rightarrow> (string + unit) \<times> 'o" where
  "save_profiles fs k path list st = write_in_dir fs path (gc_show_profiles k list) st"

definition load_state :: "'o gui_files \<Rightarrow> gui_codec \<Rightarrow> string \<Rightarrow> 'o \<Rightarrow> local_state" where
  "load_state fs k path st =
     (case gf_read fs path st of
        Inl _ \<Rightarrow> local_default
      | Inr body \<Rightarrow> (case gc_local k body of Some s \<Rightarrow> s | None \<Rightarrow> local_default))"

definition save_state :: "'o gui_files \<Rightarrow> gui_codec \<Rightarrow> string \<Rightarrow> local_state \<Rightarrow> 'o \<Rightarrow> (string + unit) \<times> 'o" where
  "save_state fs k path s st = write_in_dir fs path (gc_show_local k s) st"

section \<open>Names\<close>

definition numbered :: "string \<Rightarrow> nat \<Rightarrow> string" where
  "numbered name n = name @ '' ('' @ show_nat n @ '')''"

lemma numbered_inj: "numbered name m = numbered name n \<longleftrightarrow> m = n"
  by (simp add: numbered_def show_nat_inj)

lemma taken_finite: "finite {m. n \<le> m \<and> numbered name m \<in> set names}"
proof -
  have "numbered name ` {m. n \<le> m \<and> numbered name m \<in> set names} \<subseteq> set names" by auto
  then have "finite (numbered name ` {m. n \<le> m \<and> numbered name m \<in> set names})" by (rule finite_subset) simp
  then show ?thesis by (rule finite_imageD) (simp add: inj_on_def numbered_inj)
qed

text \<open>The loop \<open>for n in 2..\<close>: it ends because only finitely many numbered names are taken.\<close>

function free_name :: "string \<Rightarrow> string list \<Rightarrow> nat \<Rightarrow> string" where
  "free_name name names n =
     (if numbered name n \<notin> set names then numbered name n else free_name name names (Suc n))"
  by auto

termination
proof (relation "measure (\<lambda>(name, names, n). card {m. n \<le> m \<and> numbered name m \<in> set names})")
  fix name :: string and names :: "string list" and n
  assume "\<not> numbered name n \<notin> set names"
  then have "{m. Suc n \<le> m \<and> numbered name m \<in> set names} \<subset> {m. n \<le> m \<and> numbered name m \<in> set names}"
    by (auto simp: psubset_eq set_eq_iff intro!: exI [of _ n])
  then show "((name, names, Suc n), name, names, n)
      \<in> measure (\<lambda>(name, names, n). card {m. n \<le> m \<and> numbered name m \<in> set names})"
    by (simp add: psubset_card_mono taken_finite)
qed simp

declare free_name.simps [simp del]

definition unique_name :: "string \<Rightarrow> profile list \<Rightarrow> string" where
  "unique_name name list =
     (if \<not> (\<exists>p \<in> set list. pr_name p = name) then name else free_name name (map pr_name list) 2)"

section \<open>Profile commands\<close>

text \<open>\<open>list.iter_mut().find(..)\<close>: the first profile of that name is replaced, or the profile is pushed.\<close>

fun upsert :: "profile \<Rightarrow> profile list \<Rightarrow> profile list" where
  "upsert p [] = [p]"
| "upsert p (x # xs) = (if pr_name x = pr_name p then p # xs else x # upsert p xs)"

definition list_profiles :: "'o gui_files \<Rightarrow> gui_codec \<Rightarrow> gui_paths \<Rightarrow> 'o \<Rightarrow> profile list" where
  "list_profiles fs k ps st = load_profiles fs k (gp_profiles ps) st"

definition upsert_profile :: "'o gui_files \<Rightarrow> gui_codec \<Rightarrow> gui_paths \<Rightarrow> profile \<Rightarrow> 'o \<Rightarrow> (string + unit) \<times> 'o" where
  "upsert_profile fs k ps p st =
     save_profiles fs k (gp_profiles ps) (upsert p (load_profiles fs k (gp_profiles ps) st)) st"

definition remove_profile :: "'o gui_files \<Rightarrow> gui_codec \<Rightarrow> gui_paths \<Rightarrow> string \<Rightarrow> 'o \<Rightarrow> (string + unit) \<times> 'o" where
  "remove_profile fs k ps name st =
     save_profiles fs k (gp_profiles ps) (filter (\<lambda>p. pr_name p \<noteq> name) (load_profiles fs k (gp_profiles ps) st)) st"

definition import_profile ::
  "'o gui_files \<Rightarrow> gui_codec \<Rightarrow> link_codec \<Rightarrow> gui_paths \<Rightarrow> string \<Rightarrow> 'o \<Rightarrow> (string + profile) \<times> 'o" where
  "import_profile fs k lk ps link st =
     (case decode_link lk link of
        Inl e \<Rightarrow> (Inl (show_error (gf_show fs) e), st)
      | Inr p0 \<Rightarrow>
          if pr_servers p0 = [] then (Inl ''the imported config has no servers'', st)
          else (let p1 = (if trim (pr_name p0) = [] then p0\<lparr>pr_name := ''imported''\<rparr> else p0);
                    list = load_profiles fs k (gp_profiles ps) st;
                    p2 = p1\<lparr>pr_name := unique_name (pr_name p1) list\<rparr>
                in bind_st (save_profiles fs k (gp_profiles ps) (list @ [p2]) st) (\<lambda>_ st'. (Inr p2, st'))))"

definition not_found :: "string \<Rightarrow> string" where
  "not_found name = ''profile '' @ [CHR 0x27] @ name @ [CHR 0x27] @ '' not found''"

definition find_profile :: "'o gui_files \<Rightarrow> gui_codec \<Rightarrow> gui_paths \<Rightarrow> string \<Rightarrow> 'o \<Rightarrow> string + profile" where
  "find_profile fs k ps name st =
     (case find (\<lambda>p. pr_name p = name) (load_profiles fs k (gp_profiles ps) st) of
        Some p \<Rightarrow> Inr p | None \<Rightarrow> Inl (not_found name))"

definition export_profile :: "'o gui_files \<Rightarrow> gui_codec \<Rightarrow> link_codec \<Rightarrow> gui_paths \<Rightarrow> string \<Rightarrow> 'o \<Rightarrow> string + string" where
  "export_profile fs k lk ps name st = bind_res (find_profile fs k ps name st) (\<lambda>p. Inr (encode_link lk p))"

definition is_alphanumeric :: "char \<Rightarrow> bool" where
  "is_alphanumeric c \<longleftrightarrow>
     (let n = of_char c :: nat in 48 \<le> n \<and> n \<le> 57 \<or> 65 \<le> n \<and> n \<le> 90 \<or> 97 \<le> n \<and> n \<le> 122)"

definition safe_name :: "string \<Rightarrow> string" where
  "safe_name name =
     (let safe = map (\<lambda>c. if is_alphanumeric c \<or> c = CHR ''-'' \<or> c = CHR ''_'' then c else CHR ''-'') name
      in if safe = [] then ''profile'' else safe)"

text \<open>\<open>Path::join\<close> of a directory and a file name, with the separator of the platform.\<close>

definition file_in :: "gui_paths \<Rightarrow> string \<Rightarrow> string" where
  "file_in ps name = gp_config_dir ps @ ''/'' @ name"

definition write_export ::
  "'o gui_files \<Rightarrow> gui_paths \<Rightarrow> string \<Rightarrow> string \<Rightarrow> 'o \<Rightarrow> (string + string \<times> string) \<times> 'o" where
  "write_export fs ps name body st =
     (case gf_mkdirs fs (gp_config_dir ps) st of
        (Inl e, st1) \<Rightarrow> (Inl (gf_show fs e), st1)
      | (Inr _, st1) \<Rightarrow>
          (case gf_write fs (file_in ps name) body st1 of
             (Inl e, st2) \<Rightarrow> (Inl (gf_show fs e), st2)
           | (Inr _, st2) \<Rightarrow> (Inr (file_in ps name, body), st2)))"

definition export_profile_toml ::
  "'o gui_files \<Rightarrow> gui_codec \<Rightarrow> (client_config \<Rightarrow> string + string) \<Rightarrow> gui_paths \<Rightarrow> string \<Rightarrow> 'o \<Rightarrow>
   (string + string \<times> string) \<times> 'o" where
  "export_profile_toml fs k to_toml ps name st =
     (case find_profile fs k ps name st of
        Inl e \<Rightarrow> (Inl e, st)
      | Inr p \<Rightarrow>
          (case client_to_toml to_toml (compose p (lst_settings (load_state fs k (gp_settings ps) st))) of
             Inl e \<Rightarrow> (Inl (show_error (gf_show fs) e), st)
           | Inr body \<Rightarrow> write_export fs ps (safe_name name @ ''.toml'') body st))"

definition export_all_profiles ::
  "'o gui_files \<Rightarrow> gui_codec \<Rightarrow> (profile list \<Rightarrow> string + string) \<Rightarrow> gui_paths \<Rightarrow> 'o \<Rightarrow> (string + string \<times> string) \<times> 'o" where
  "export_all_profiles fs k to_toml ps st =
     (case bundle_to_toml to_toml (load_profiles fs k (gp_profiles ps) st) of
        Inl e \<Rightarrow> (Inl (show_error (gf_show fs) e), st)
      | Inr body \<Rightarrow> write_export fs ps ''all-profiles.toml'' body st)"

text \<open>The loop over the imported profiles: entries without a name or servers are skipped, the others counted.\<close>

definition import_step :: "profile list \<times> nat \<Rightarrow> profile \<Rightarrow> profile list \<times> nat" where
  "import_step s p =
     (case s of (list, n) \<Rightarrow>
        if trim (pr_name p) = [] \<or> pr_servers p = [] then (list, n) else (upsert p list, Suc n))"

definition import_profiles_toml ::
  "'o gui_files \<Rightarrow> gui_codec \<Rightarrow> (string \<Rightarrow> string + profile list) \<Rightarrow> (string \<Rightarrow> string + client_config) \<Rightarrow> gui_paths \<Rightarrow>
   string \<Rightarrow> 'o \<Rightarrow> (string + nat) \<times> 'o" where
  "import_profiles_toml fs k parse_bundle parse_client ps body st =
     (case profiles_from_toml parse_bundle parse_client body of
        Inl e \<Rightarrow> (Inl (show_error (gf_show fs) e), st)
      | Inr parsed \<Rightarrow>
          (case foldl import_step (load_profiles fs k (gp_profiles ps) st, 0) parsed of
             (list, n) \<Rightarrow>
               if n = 0 then (Inl ''no valid profiles found in the TOML'', st)
               else bind_st (save_profiles fs k (gp_profiles ps) list st) (\<lambda>_ st'. (Inr n, st'))))"

section \<open>Settings commands\<close>

definition get_state :: "'o gui_files \<Rightarrow> gui_codec \<Rightarrow> gui_paths \<Rightarrow> 'o \<Rightarrow> local_state" where
  "get_state fs k ps st = load_state fs k (gp_settings ps) st"

definition set_settings ::
  "'o gui_files \<Rightarrow> gui_codec \<Rightarrow> gui_paths \<Rightarrow> connection_settings \<Rightarrow> 'o \<Rightarrow> (string + unit) \<times> 'o" where
  "set_settings fs k ps s st =
     save_state fs k (gp_settings ps) ((load_state fs k (gp_settings ps) st)\<lparr>lst_settings := s\<rparr>) st"

definition set_active_profile ::
  "'o gui_files \<Rightarrow> gui_codec \<Rightarrow> gui_paths \<Rightarrow> string option \<Rightarrow> 'o \<Rightarrow> (string + unit) \<times> 'o" where
  "set_active_profile fs k ps name st =
     save_state fs k (gp_settings ps) ((load_state fs k (gp_settings ps) st)\<lparr>lst_active_profile := name\<rparr>) st"

section \<open>Names are found\<close>

definition profile_names :: "profile list \<Rightarrow> string list" where
  "profile_names list = map pr_name list"

lemma free_name_form: "\<exists>m \<ge> n. free_name name names n = numbered name m \<and> numbered name m \<notin> set names"
proof (induction name names n rule: free_name.induct)
  case (1 name names n)
  show ?case
  proof (cases "numbered name n \<notin> set names")
    case True
    then show ?thesis by (auto simp: free_name.simps [of name names n])
  next
    case False
    with 1 obtain m where "Suc n \<le> m" "free_name name names (Suc n) = numbered name m" "numbered name m \<notin> set names" by blast
    then show ?thesis using False by (intro exI [of _ m]) (simp add: free_name.simps [of name names n])
  qed
qed

lemma unique_name_fresh: "unique_name name list \<notin> set (profile_names list)"
proof (cases "\<exists>p \<in> set list. pr_name p = name")
  case True
  with free_name_form [of 2 name "map pr_name list"] show ?thesis by (metis profile_names_def unique_name_def)
qed (auto simp: unique_name_def profile_names_def)

section \<open>The list of profiles as a map\<close>

definition by_name :: "profile list \<Rightarrow> string \<Rightarrow> profile option" where
  "by_name list name = find (\<lambda>p. pr_name p = name) list"

lemma by_name_upsert: "by_name (upsert p list) = (by_name list)(pr_name p \<mapsto> p)"
  by (induction list) (auto simp: by_name_def fun_eq_iff)

lemma by_name_remove: "by_name (filter (\<lambda>p. pr_name p \<noteq> name) list) = (by_name list)(name := None)"
  by (induction list) (auto simp: by_name_def fun_eq_iff)

lemma by_name_push:
  "pr_name p \<notin> set (profile_names list) \<Longrightarrow> by_name (list @ [p]) = (by_name list)(pr_name p \<mapsto> p)"
  by (induction list) (auto simp: by_name_def profile_names_def fun_eq_iff)

lemma by_name_None: "name \<notin> set (profile_names list) \<Longrightarrow> by_name list name = None"
  by (induction list) (auto simp: by_name_def profile_names_def)

lemma set_names_upsert: "set (profile_names (upsert p list)) = insert (pr_name p) (set (profile_names list))"
  by (induction list) (auto simp: profile_names_def)

lemma distinct_upsert: "distinct (profile_names list) \<Longrightarrow> distinct (profile_names (upsert p list))"
proof (induction list)
  case (Cons x xs)
  have "set (map pr_name (upsert p xs)) = insert (pr_name p) (set (map pr_name xs))"
    using set_names_upsert [of p xs] by (simp add: profile_names_def)
  with Cons show ?case by (auto simp: profile_names_def)
qed (simp add: profile_names_def)

lemma distinct_remove: "distinct (profile_names list) \<Longrightarrow> distinct (profile_names (filter P list))"
  by (induction list) (auto simp: profile_names_def)

lemma distinct_import: "distinct (profile_names (fst s)) \<Longrightarrow> distinct (profile_names (fst (foldl import_step s ps)))"
  by (induction ps arbitrary: s) (auto simp: import_step_def distinct_upsert split: prod.split)

text \<open>What is written is read back, and the JSON of a list of profiles parses to it.\<close>

definition store_laws :: "'o gui_files \<Rightarrow> gui_codec \<Rightarrow> bool" where
  "store_laws fs k \<longleftrightarrow>
     (\<forall>path body st. fst (gf_write fs path body st) = Inr () \<longrightarrow> gf_read fs path (snd (gf_write fs path body st)) = Inr body) \<and>
     (\<forall>list body. gc_show_profiles k list = Inr body \<longrightarrow> gc_profiles k body = Some list)"

lemma write_in_dir_Inr:
  assumes "write_in_dir fs path r st = (Inr (), st')"
  shows "\<exists>body st1. r = Inr body \<and> gf_write fs path body st1 = (Inr (), st')"
  using assms by (auto simp: write_in_dir_def Let_def map_err_def split: sum.splits prod.splits)

lemma save_load:
  assumes "store_laws fs k" and "save_profiles fs k path list st = (Inr (), st')"
  shows "load_profiles fs k path st' = list"
proof -
  obtain body st1 where b: "gc_show_profiles k list = Inr body" "gf_write fs path body st1 = (Inr (), st')"
    using write_in_dir_Inr [OF assms(2) [unfolded save_profiles_def]] by blast
  have "gf_read fs path st' = Inr body" "gc_profiles k body = Some list"
    using assms(1) b unfolding store_laws_def by (metis fst_conv snd_conv, blast)
  then show ?thesis by (simp add: load_profiles_def)
qed

lemma find_profile_by_name:
  "find_profile fs k ps name st =
    (case by_name (load_profiles fs k (gp_profiles ps) st) name of Some p \<Rightarrow> Inr p | None \<Rightarrow> Inl (not_found name))"
  by (simp add: find_profile_def by_name_def)

lemma import_Inr:
  assumes "import_profile fs k lk ps link st = (Inr p, st')"
  shows "pr_name p \<notin> set (profile_names (load_profiles fs k (gp_profiles ps) st)) \<and>
    save_profiles fs k (gp_profiles ps) (load_profiles fs k (gp_profiles ps) st @ [p]) st = (Inr (), st')"
  using assms unique_name_fresh
  by (auto simp: import_profile_def Let_def bind_st_Inr_iff split: sum.splits if_splits)

lemma import_toml_Inr:
  assumes "import_profiles_toml fs k parse_bundle parse_client ps body st = (Inr n, st')"
  shows "\<exists>parsed. save_profiles fs k (gp_profiles ps)
    (fst (foldl import_step (load_profiles fs k (gp_profiles ps) st, 0) parsed)) st = (Inr (), st')"
proof (cases "profiles_from_toml parse_bundle parse_client body")
  case (Inr parsed)
  obtain list m where f: "foldl import_step (load_profiles fs k (gp_profiles ps) st, 0) parsed = (list, m)" by (meson surj_pair)
  have m: "m \<noteq> 0"
    using assms unfolding import_profiles_toml_def Inr sum.case f prod.case
    by (rule_tac notI) (simp only: if_True simp_thms prod.inject sum.distinct)
  have "bind_st (save_profiles fs k (gp_profiles ps) list st) (\<lambda>_ st'. (Inr m, st')) = (Inr n, st')"
    using assms unfolding import_profiles_toml_def Inr sum.case f prod.case by (simp only: m if_False)
  then have "save_profiles fs k (gp_profiles ps) list st = (Inr (), st')"
    unfolding bind_st_Inr_iff by auto
  then show ?thesis using f by (intro exI [of _ parsed]) simp
qed (use assms in \<open>simp add: import_profiles_toml_def\<close>)

lemma safe_name_chars: "c \<in> set (safe_name name) \<Longrightarrow> is_alphanumeric c \<or> c = CHR ''-'' \<or> c = CHR ''_''"
proof (cases "name = []")
  case True
  have "list_all is_alphanumeric ''profile''" by code_simp
  moreover assume "c \<in> set (safe_name name)"
  ultimately show ?thesis using True by (auto simp: safe_name_def list_all_iff)
next
  case False
  assume "c \<in> set (safe_name name)"
  with False show ?thesis by (auto simp: safe_name_def)
qed

lemma safe_name_not_Nil: "safe_name name \<noteq> []"
  by (simp add: safe_name_def Let_def)

section \<open>The ring keeps the last lines\<close>

definition kept_lines :: "string \<Rightarrow> string list" where
  "kept_lines acc = (if acc = [] then [] else filter (\<lambda>l. l \<noteq> []) (map trim_end (split_on newline acc)))"

lemma push_line_suffix:
  assumes "length q \<le> LOG_CAP" and "trim_end l \<noteq> []"
  shows "push_line q l = drop (Suc (length q) - LOG_CAP) (q @ [trim_end l])"
proof (cases "length q = LOG_CAP")
  case True
  then have "Suc (length q) - LOG_CAP = 1" "q \<noteq> []" by (auto simp: LOG_CAP_def)
  with True assms(2) show ?thesis by (cases q) (simp_all add: push_line_def Let_def)
qed (use assms in \<open>simp add: push_line_def Let_def\<close>)

lemma push_lines_suffix:
  assumes "length q \<le> LOG_CAP"
  shows "foldl push_line q ls =
    (let all = q @ filter (\<lambda>l. l \<noteq> []) (map trim_end ls) in drop (length all - LOG_CAP) all)"
  using assms
proof (induction ls arbitrary: q)
  case (Cons l ls)
  show ?case
  proof (cases "trim_end l = []")
    case True
    then show ?thesis using Cons by (simp add: push_line_def Let_def)
  next
    case False
    let ?q = "drop (Suc (length q) - LOG_CAP) (q @ [trim_end l])"
    let ?r = "filter (\<lambda>l. l \<noteq> []) (map trim_end ls)"
    have "length ?q \<le> LOG_CAP" by simp
    from Cons.IH [OF this] have "foldl push_line ?q ls = drop (length (?q @ ?r) - LOG_CAP) (?q @ ?r)" by (simp add: Let_def)
    also have "\<dots> = drop (length (q @ trim_end l # ?r) - LOG_CAP) (q @ trim_end l # ?r)"
    proof -
      have e: "?q @ ?r = drop (Suc (length q) - LOG_CAP) (q @ trim_end l # ?r)"
        using Cons.prems by (simp add: LOG_CAP_def)
      have l: "length (?q @ ?r) - LOG_CAP + (Suc (length q) - LOG_CAP) = length (q @ trim_end l # ?r) - LOG_CAP"
        using Cons.prems by simp
      have "drop (length (?q @ ?r) - LOG_CAP) (drop (Suc (length q) - LOG_CAP) (q @ trim_end l # ?r)) =
          drop (length (q @ trim_end l # ?r) - LOG_CAP) (q @ trim_end l # ?r)"
        by (simp only: drop_drop l)
      then show ?thesis by (simp only: e)
    qed
    finally show ?thesis using False push_line_suffix [OF Cons.prems False] by (simp add: Let_def)
  qed
qed (simp add: Let_def)

section \<open>Properties\<close>

text \<open>C19. The stored profiles are a map from names to profiles: a successful \<open>upsert\<close> sets one name, a successful
  \<open>remove\<close> clears one, and a link is imported under a name that was free; no other name changes.\<close>

theorem profile_store_refines_map:
  assumes "store_laws fs k"
  shows "(upsert_profile fs k ps p st = (Inr (), st') \<longrightarrow>
      by_name (load_profiles fs k (gp_profiles ps) st') = (by_name (load_profiles fs k (gp_profiles ps) st))(pr_name p \<mapsto> p)) \<and>
    (remove_profile fs k ps name st = (Inr (), st') \<longrightarrow>
      by_name (load_profiles fs k (gp_profiles ps) st') = (by_name (load_profiles fs k (gp_profiles ps) st))(name := None)) \<and>
    (import_profile fs k lk ps link st = (Inr p, st') \<longrightarrow>
      by_name (load_profiles fs k (gp_profiles ps) st) (pr_name p) = None \<and>
      by_name (load_profiles fs k (gp_profiles ps) st') = (by_name (load_profiles fs k (gp_profiles ps) st))(pr_name p \<mapsto> p))"
proof (intro conjI impI)
  assume "upsert_profile fs k ps p st = (Inr (), st')"
  then show "by_name (load_profiles fs k (gp_profiles ps) st') = (by_name (load_profiles fs k (gp_profiles ps) st))(pr_name p \<mapsto> p)"
    using save_load [OF assms] by (auto simp: upsert_profile_def by_name_upsert)
next
  assume "remove_profile fs k ps name st = (Inr (), st')"
  then show "by_name (load_profiles fs k (gp_profiles ps) st') = (by_name (load_profiles fs k (gp_profiles ps) st))(name := None)"
    using save_load [OF assms] by (auto simp: remove_profile_def by_name_remove)
next
  assume i: "import_profile fs k lk ps link st = (Inr p, st')"
  from import_Inr [OF i] have p: "pr_name p \<notin> set (profile_names (load_profiles fs k (gp_profiles ps) st))"
    and s: "save_profiles fs k (gp_profiles ps) (load_profiles fs k (gp_profiles ps) st @ [p]) st = (Inr (), st')" by simp_all
  from p show "by_name (load_profiles fs k (gp_profiles ps) st) (pr_name p) = None"
    by (rule by_name_None)
  from save_load [OF assms s] p show "by_name (load_profiles fs k (gp_profiles ps) st') =
      (by_name (load_profiles fs k (gp_profiles ps) st))(pr_name p \<mapsto> p)"
    by (simp add: by_name_push)
qed

text \<open>Files by name, and a JSON codec that knows one list of profiles.\<close>

definition map_files :: "(string \<rightharpoonup> string) gui_files" where
  "map_files = \<lparr>gf_read = \<lambda>path st. get_file st path, gf_write = put_file, gf_mkdirs = \<lambda>_ st. (Inr (), st),
     gf_parent = \<lambda>_. Some ''conf'', gf_show = \<lambda>_. ''io''\<rparr>"

definition one_codec :: gui_codec where
  "one_codec = \<lparr>gc_profiles = \<lambda>b. if b = ''json'' then Some [one_profile] else None, gc_configs = \<lambda>_. None,
     gc_show_profiles = \<lambda>l. if l = [one_profile] then Inr ''json'' else Inl ''?'', gc_local = \<lambda>_. None,
     gc_show_local = \<lambda>_. Inr ''state''\<rparr>"

definition conf_paths :: gui_paths where
  "conf_paths = \<lparr>gp_config_dir = ''conf'', gp_profiles = ''conf/profiles.json'', gp_settings = ''conf/settings.json''\<rparr>"

lemma map_store_laws: "store_laws map_files one_codec"
  by (auto simp: store_laws_def map_files_def one_codec_def put_file_def get_file_def split: if_splits)

lemma one_upsert:
  assumes "upsert one_profile (load_profiles map_files one_codec (gp_profiles conf_paths) st) = [one_profile]"
  shows "upsert_profile map_files one_codec conf_paths one_profile st = (Inr (), st(gp_profiles conf_paths \<mapsto> ''json''))"
  using assms by (simp add: upsert_profile_def save_profiles_def write_in_dir_def map_files_def one_codec_def put_file_def)

theorem profile_store_refines_map_witness:
  "by_name (load_profiles map_files one_codec (gp_profiles conf_paths) [gp_profiles conf_paths \<mapsto> ''json'']) ''home'' = Some one_profile"
proof -
  have none: "load_profiles map_files one_codec (gp_profiles conf_paths) Map.empty = []"
    by (simp add: load_profiles_def map_files_def get_file_def)
  then have "upsert_profile map_files one_codec conf_paths one_profile Map.empty = (Inr (), [gp_profiles conf_paths \<mapsto> ''json''])"
    by (intro one_upsert) simp
  with profile_store_refines_map [OF map_store_laws, of conf_paths one_profile Map.empty "[gp_profiles conf_paths \<mapsto> ''json'']"]
  show ?thesis by (simp add: one_profile_def)
qed

text \<open>Names stay distinct: from a list without two profiles of one name, every command that succeeds leads to
  such a list.\<close>

theorem profile_names_stay_distinct:
  assumes "store_laws fs k" and "distinct (profile_names (load_profiles fs k (gp_profiles ps) st))"
    and "upsert_profile fs k ps p st = (Inr (), st') \<or> remove_profile fs k ps name st = (Inr (), st') \<or>
      import_profile fs k lk ps link st = (Inr p, st') \<or>
      import_profiles_toml fs k parse_bundle parse_client ps body st = (Inr n, st')"
  shows "distinct (profile_names (load_profiles fs k (gp_profiles ps) st'))"
  using assms(3)
proof (elim disjE)
  assume "upsert_profile fs k ps p st = (Inr (), st')"
  with save_load [OF assms(1)] assms(2) show ?thesis by (auto simp: upsert_profile_def distinct_upsert)
next
  assume "remove_profile fs k ps name st = (Inr (), st')"
  with save_load [OF assms(1)] assms(2) show ?thesis by (auto simp: remove_profile_def distinct_remove)
next
  assume "import_profile fs k lk ps link st = (Inr p, st')"
  from import_Inr [OF this] save_load [OF assms(1)] assms(2) show ?thesis by (auto simp: profile_names_def)
next
  assume "import_profiles_toml fs k parse_bundle parse_client ps body st = (Inr n, st')"
  from import_toml_Inr [OF this] obtain parsed where
    "save_profiles fs k (gp_profiles ps) (fst (foldl import_step (load_profiles fs k (gp_profiles ps) st, 0) parsed)) st = (Inr (), st')"
    by blast
  from save_load [OF assms(1) this] assms(2) show ?thesis by (simp add: distinct_import)
qed

theorem profile_names_stay_distinct_witness:
  "distinct (profile_names (load_profiles map_files one_codec (gp_profiles conf_paths) [gp_profiles conf_paths \<mapsto> ''json'']))"
proof (rule profile_names_stay_distinct [OF map_store_laws, where st = Map.empty])
  show "distinct (profile_names (load_profiles map_files one_codec (gp_profiles conf_paths) Map.empty))"
    by (simp add: load_profiles_def map_files_def get_file_def profile_names_def)
  have "upsert_profile map_files one_codec conf_paths one_profile Map.empty = (Inr (), [gp_profiles conf_paths \<mapsto> ''json''])"
    by (intro one_upsert) (simp add: load_profiles_def map_files_def get_file_def)
  then show "upsert_profile map_files one_codec conf_paths one_profile Map.empty = (Inr (), [gp_profiles conf_paths \<mapsto> ''json'']) \<or>
      remove_profile map_files one_codec conf_paths [] Map.empty = (Inr (), [gp_profiles conf_paths \<mapsto> ''json'']) \<or>
      import_profile map_files one_codec letter_codec conf_paths [] Map.empty = (Inr one_profile, [gp_profiles conf_paths \<mapsto> ''json'']) \<or>
      import_profiles_toml map_files one_codec (\<lambda>_. Inl []) (\<lambda>_. Inl []) conf_paths [] Map.empty = (Inr 1, [gp_profiles conf_paths \<mapsto> ''json''])"
    by simp
qed

text \<open>A \<open>profiles.json\<close> that does not parse is lost: it reads as an empty list, and the next profile that is
  saved becomes the whole file.\<close>

theorem unreadable_profiles_replaced:
  assumes "store_laws fs k" and "gf_read fs (gp_profiles ps) st = Inr body"
    and "gc_profiles k body = None" and "gc_configs k body = None"
    and "upsert_profile fs k ps p st = (Inr (), st')"
  shows "load_profiles fs k (gp_profiles ps) st' = [p]"
proof -
  have "load_profiles fs k (gp_profiles ps) st = []" using assms(2-4) by (simp add: load_profiles_def)
  with save_load [OF assms(1)] assms(5) show ?thesis by (simp add: upsert_profile_def)
qed

theorem unreadable_profiles_replaced_witness:
  "load_profiles map_files one_codec (gp_profiles conf_paths)
     (snd (upsert_profile map_files one_codec conf_paths one_profile [gp_profiles conf_paths \<mapsto> ''[{cut''])) = [one_profile]"
proof (rule unreadable_profiles_replaced [OF map_store_laws, where body = "''[{cut''"])
  show "upsert_profile map_files one_codec conf_paths one_profile [gp_profiles conf_paths \<mapsto> ''[{cut''] =
      (Inr (), snd (upsert_profile map_files one_codec conf_paths one_profile [gp_profiles conf_paths \<mapsto> ''[{cut'']))"
    by (subst (1 2) one_upsert) (simp_all add: load_profiles_def map_files_def get_file_def one_codec_def)
qed (simp_all add: map_files_def get_file_def one_codec_def)

text \<open>The log ring is the tail of the log: after an event it holds the last 2000 of its lines and the event's
  non-blank lines, in order.\<close>

theorem log_ring_is_suffix:
  assumes "length q \<le> LOG_CAP"
  shows "log_tee_drop acc q = drop (length (q @ kept_lines acc) - LOG_CAP) (q @ kept_lines acc) \<and>
    length (log_tee_drop acc q) \<le> LOG_CAP"
proof -
  have eq: "log_tee_drop acc q = drop (length (q @ kept_lines acc) - LOG_CAP) (q @ kept_lines acc)"
    using push_lines_suffix [OF assms, of "split_on newline acc"] assms
    by (cases "acc = []") (simp_all only: log_tee_drop_def kept_lines_def Let_def if_True if_False append_Nil2, simp)
  then have "length (log_tee_drop acc q) = length (q @ kept_lines acc) - (length (q @ kept_lines acc) - LOG_CAP)"
    by (simp only: length_drop)
  with eq show ?thesis by simp
qed

theorem log_ring_is_suffix_witness:
  "length (log_tee_drop (''up'' @ [newline]) [''start'']) \<le> LOG_CAP"
  using log_ring_is_suffix [of "[''start'']" "''up'' @ [newline]"] by (simp add: LOG_CAP_def)

end
