(* ===== verification/Gui_Engine.thy ===== *)
theory Gui_Engine
  imports Gui_Store Engine Shell
begin

text \<open>
  The running half of \<open>client-tauri/src-tauri/src/main.rs\<close>: the state of the app, connecting, disconnecting,
  the status the window polls, pinging a server, and quitting from the tray. The engine (\<open>Engine::start\<close>, its
  task and its shared status) is a record of functions over the state of the world. \<open>connect_profile\<close> awaits
  twice; it is cut there into the steps that other commands may run between. The facts: an early end of the
  engine is reported and leaves no session, a connect stops the session before it, and two connects that
  overlap leave an engine running that nobody can stop.
\<close>

section \<open>State\<close>

record gui_status =
  gs_connected :: bool
  gs_profile :: "string option"
  gs_assigned_ip :: "string option"
  gs_mode :: "string option"
  gs_error :: "string option"
  gs_peers :: "(string \<times> string) list"
  gs_up_bytes :: u64
  gs_down_bytes :: u64

definition status_default :: gui_status where
  "status_default = \<lparr>gs_connected = False, gs_profile = None, gs_assigned_ip = None, gs_mode = None,
     gs_error = None, gs_peers = [], gs_up_bytes = 0, gs_down_bytes = 0\<rparr>"

record ('h, 'o) gui_app =
  ga_paths :: gui_paths
  ga_engine :: "'h option"
  ga_status :: gui_status
  ga_logs :: "string list"
  ga_quitting :: bool
  ga_world :: 'o

text \<open>How the engine's task ended: with the result of the session, or by a panic.\<close>

datatype task_end = Finished "unit res" | Task_failed string

text \<open>\<open>en_finished\<close> is \<open>is_finished\<close> of the task; \<open>en_stop\<close> cancels it and awaits its end.\<close>

record ('h, 'o) engine_api =
  en_start :: "client_config \<Rightarrow> 'o \<Rightarrow> 'h \<times> 'o"
  en_stop :: "'h \<Rightarrow> 'o \<Rightarrow> unit res \<times> 'o"
  en_finished :: "'h \<Rightarrow> 'o \<Rightarrow> bool"
  en_end :: "'h \<Rightarrow> 'o \<Rightarrow> task_end"
  en_live :: "'h \<Rightarrow> 'o \<Rightarrow> live_status option"
  en_sleep :: "nat \<Rightarrow> 'o \<Rightarrow> 'o"

text \<open>\<open>EngineHandle::stop\<close> maps a task that panicked to an error of the transport.\<close>

definition handle_stop :: "task_end \<Rightarrow> unit res" where
  "handle_stop r = (case r of Finished r \<Rightarrow> r | Task_failed e \<Rightarrow> Inl (Transport (''engine task join: '' @ e)))"

section \<open>Start-up\<close>

definition config_dir_of :: "string list \<Rightarrow> string option \<Rightarrow> string" where
  "config_dir_of args os_dir =
     (case word_after ''--config-dir'' args of
        Some d \<Rightarrow> d
      | None \<Rightarrow> (case os_dir of Some d \<Rightarrow> d | None \<Rightarrow> ''.''))"

definition app_start :: "string list \<Rightarrow> string option \<Rightarrow> 'o \<Rightarrow> ('h, 'o) gui_app" where
  "app_start args os_dir w =
     (let dir = config_dir_of args os_dir;
          ps = \<lparr>gp_config_dir = dir, gp_profiles = dir @ ''/profiles.json'', gp_settings = dir @ ''/settings.json''\<rparr>
      in \<lparr>ga_paths = ps, ga_engine = None, ga_status = status_default, ga_logs = [], ga_quitting = False, ga_world = w\<rparr>)"

section \<open>Connecting\<close>

definition needs_tun :: "client_config \<Rightarrow> bool" where
  "needs_tun cfg \<longleftrightarrow> cl_mode cfg = GlobalProxy \<or> cl_mode cfg = Vpn \<or> cl_join_vpn cfg"

text \<open>What the handler holds across its waits.\<close>

record 'h connecting =
  cn_name :: string
  cn_config :: client_config
  cn_prev :: "'h option"

text \<open>Up to the first wait: the profile is composed and stored as the active one, the session taken out.\<close>

definition connect_begin ::
  "'o gui_files \<Rightarrow> gui_codec \<Rightarrow> string \<Rightarrow> ('h, 'o) gui_app \<Rightarrow> (string + 'h connecting) \<times> ('h, 'o) gui_app" where
  "connect_begin fs k name app =
     (case find_profile fs k (ga_paths app) name (ga_world app) of
        Inl e \<Rightarrow> (Inl e, app)
      | Inr profile \<Rightarrow>
          (let loc = load_state fs k (gp_settings (ga_paths app)) (ga_world app);
               cfg = compose profile (lst_settings loc);
               w1 = snd (save_state fs k (gp_settings (ga_paths app)) (loc\<lparr>lst_active_profile := Some name\<rparr>) (ga_world app))
           in (Inr \<lparr>cn_name = name, cn_config = cfg, cn_prev = ga_engine app\<rparr>, app\<lparr>ga_engine := None, ga_world := w1\<rparr>)))"

text \<open>The end of the wait for the previous session, and the start of the new one.\<close>

definition connect_launch ::
  "('h, 'o) engine_api \<Rightarrow> 'h connecting \<Rightarrow> ('h, 'o) gui_app \<Rightarrow> 'h \<times> ('h, 'o) gui_app" where
  "connect_launch en c app =
     (let w1 = (case cn_prev c of Some h \<Rightarrow> snd (en_stop en h (ga_world app)) | None \<Rightarrow> ga_world app)
      in case en_start en (cn_config c) w1 of (h, w2) \<Rightarrow> (h, app\<lparr>ga_world := w2\<rparr>))"

text \<open>The polls of the task at 0, 150, ..., 3000 milliseconds.\<close>

function wait_early :: "('h, 'o) engine_api \<Rightarrow> 'h \<Rightarrow> nat \<Rightarrow> 'o \<Rightarrow> bool \<times> 'o" where
  "wait_early en h waited w =
     (if en_finished en h w then (True, w)
      else if waited \<ge> 3000 then (False, w)
      else wait_early en h (waited + 150) (en_sleep en 150 w))"
  by auto
termination by (relation "measure (\<lambda>(en, h, waited, w). 3000 - waited)") auto

declare wait_early.simps [simp del]

definition privileges_hint :: string where
  "privileges_hint = '' '' @ [CHR 0xE2, CHR 0x80, CHR 0x94] @
     '' Global proxy / VPN create a virtual NIC and need administrator/root. Run the app elevated, or switch to System proxy mode (no admin needed).''"

definition early_message :: "(io_error \<Rightarrow> string) \<Rightarrow> client_config \<Rightarrow> task_end \<Rightarrow> string" where
  "early_message show_io cfg r =
     (let msg = (case r of
            Finished (Inr _) \<Rightarrow> ''the session ended immediately''
          | Finished (Inl e) \<Rightarrow> show_error show_io e
          | Task_failed e \<Rightarrow> ''engine task failed: '' @ e);
          low = map to_ascii_lowercase msg
      in if needs_tun cfg \<and> (contains low ''not permitted'' \<or> contains low ''denied'' \<or> contains low ''permission'')
         then msg @ privileges_hint else msg)"

text \<open>After the wait: the failure is reported, or the handle and the status are stored.\<close>

definition connect_finish ::
  "'o gui_files \<Rightarrow> ('h, 'o) engine_api \<Rightarrow> 'h connecting \<Rightarrow> 'h \<Rightarrow> bool \<Rightarrow> ('h, 'o) gui_app \<Rightarrow> (string + unit) \<times> ('h, 'o) gui_app" where
  "connect_finish fs en c h early_fail app =
     (let cfg = cn_config c; mode = show_mode (cl_mode cfg) in
      if early_fail then
        (let msg = early_message (gf_show fs) cfg (en_end en h (ga_world app))
         in (Inl msg, app\<lparr>ga_status := status_default\<lparr>gs_profile := Some (cn_name c), gs_mode := Some mode, gs_error := Some msg\<rparr>\<rparr>))
      else
        (Inr (), app\<lparr>ga_engine := Some h,
           ga_status := status_default\<lparr>gs_connected := True, gs_profile := Some (cn_name c),
             gs_assigned_ip := map_option show_ipv4 (cl_requested_ip cfg), gs_mode := Some mode\<rparr>\<rparr>))"

text \<open>The command when nothing else runs meanwhile.\<close>

definition connect_profile ::
  "'o gui_files \<Rightarrow> gui_codec \<Rightarrow> ('h, 'o) engine_api \<Rightarrow> string \<Rightarrow> ('h, 'o) gui_app \<Rightarrow> (string + unit) \<times> ('h, 'o) gui_app" where
  "connect_profile fs k en name app =
     (case connect_begin fs k name app of
        (Inl e, app1) \<Rightarrow> (Inl e, app1)
      | (Inr c, app1) \<Rightarrow>
          (case connect_launch en c app1 of
             (h, app2) \<Rightarrow>
               (case wait_early en h 0 (ga_world app2) of
                  (early_fail, w) \<Rightarrow> connect_finish fs en c h early_fail (app2\<lparr>ga_world := w\<rparr>))))"

section \<open>The other commands\<close>

definition disconnect ::
  "'o gui_files \<Rightarrow> ('h, 'o) engine_api \<Rightarrow> ('h, 'o) gui_app \<Rightarrow> (string + unit) \<times> ('h, 'o) gui_app" where
  "disconnect fs en app =
     (let (err, w) = (case ga_engine app of
            None \<Rightarrow> (None, ga_world app)
          | Some h \<Rightarrow> (case en_stop en h (ga_world app) of
                (Inl e, w) \<Rightarrow> (Some (show_error (gf_show fs) e), w) | (Inr _, w) \<Rightarrow> (None, w)))
      in (Inr (), app\<lparr>ga_engine := None, ga_world := w, ga_status := (ga_status app)\<lparr>gs_connected := False, gs_error := err\<rparr>\<rparr>))"

definition status_info ::
  "('h, 'o) engine_api \<Rightarrow> ('h, 'o) gui_app \<Rightarrow> bool \<times> string option \<times> (string \<times> string) list \<times> u64 \<times> u64" where
  "status_info en app =
     (case ga_engine app of
        None \<Rightarrow> (False, None, [], 0, 0)
      | Some h \<Rightarrow>
          (\<not> en_finished en h (ga_world app),
           (case en_live en h (ga_world app) of
              None \<Rightarrow> (None, [], 0, 0)
            | Some live \<Rightarrow> (map_option show_ipv4 (ls_assigned_ip live),
                map (\<lambda>p. (show_ipv4 (pi_ip p), pi_name p)) (ls_peers live), ls_up_bytes live, ls_down_bytes live))))"

definition status :: "('h, 'o) engine_api \<Rightarrow> ('h, 'o) gui_app \<Rightarrow> gui_status" where
  "status en app =
     (case status_info en app of (alive, ip, listed, up, down) \<Rightarrow>
        (ga_status app)\<lparr>gs_connected := alive,
           gs_assigned_ip := (if ip \<noteq> None then ip else gs_assigned_ip (ga_status app)),
           gs_peers := listed, gs_up_bytes := up, gs_down_bytes := down\<rparr>)"

definition ping_entry :: "profile \<Rightarrow> string \<Rightarrow> string + server_entry" where
  "ping_entry p server =
     (case find (\<lambda>s. se_name s = server) (pr_servers p) of
        Some s \<Rightarrow> Inr s
      | None \<Rightarrow>
          (case profile_active_server p of
             Inr s \<Rightarrow> Inr s
           | Inl _ \<Rightarrow> Inl (''server '' @ [CHR 0x27] @ server @ [CHR 0x27] @ '' not found'')))"

text \<open>\<open>probe\<close> is \<open>measure_latency\<close> with a timeout of five seconds, in milliseconds.\<close>

definition ping_server ::
  "'o gui_files \<Rightarrow> gui_codec \<Rightarrow> (server_entry \<Rightarrow> 'o \<Rightarrow> nat res \<times> 'o) \<Rightarrow> string \<Rightarrow> string \<Rightarrow> ('h, 'o) gui_app \<Rightarrow>
   (string + u64) \<times> ('h, 'o) gui_app" where
  "ping_server fs k probe prof server app =
     (case bind_res (find_profile fs k (ga_paths app) prof (ga_world app)) (\<lambda>p. ping_entry p server) of
        Inl e \<Rightarrow> (Inl e, app)
      | Inr entry \<Rightarrow>
          (case probe entry (ga_world app) of
             (r, w) \<Rightarrow> (map_err (show_error (gf_show fs)) (bind_res r (\<lambda>ms. Inr (of_nat ms))), app\<lparr>ga_world := w\<rparr>)))"

definition get_logs :: "('h, 'o) gui_app \<Rightarrow> string list" where
  "get_logs app = ga_logs app"

section \<open>Quitting\<close>

definition quit_app :: "('h, 'o) engine_api \<Rightarrow> ('h, 'o) gui_app \<Rightarrow> ('h, 'o) gui_app" where
  "quit_app en app =
     app\<lparr>ga_quitting := True, ga_engine := None,
         ga_world := (case ga_engine app of Some h \<Rightarrow> snd (en_stop en h (ga_world app)) | None \<Rightarrow> ga_world app)\<rparr>"

text \<open>Closing the window and asking to exit are refused (\<open>prevent_close\<close>, \<open>prevent_exit\<close>) until the tray quits.\<close>

datatype gui_event = Close_requested | Exit_requested

definition prevented :: "gui_event \<Rightarrow> ('h, 'o) gui_app \<Rightarrow> bool" where
  "prevented ev app \<longleftrightarrow> \<not> ga_quitting app"

section \<open>Running sessions\<close>

text \<open>\<open>running\<close> observes the engines whose task has not ended. Starting adds a new one, stopping ends that one,
  time only ends some, and the files of the app have nothing to do with them.\<close>

definition engine_laws :: "'o gui_files \<Rightarrow> ('h, 'o) engine_api \<Rightarrow> ('o \<Rightarrow> 'h set) \<Rightarrow> bool" where
  "engine_laws fs en running \<longleftrightarrow>
     (\<forall>cfg w. fst (en_start en cfg w) \<notin> running w \<and>
        running (snd (en_start en cfg w)) = insert (fst (en_start en cfg w)) (running w)) \<and>
     (\<forall>h w. running (snd (en_stop en h w)) = running w - {h}) \<and>
     (\<forall>h w. en_finished en h w \<longrightarrow> h \<notin> running w) \<and>
     (\<forall>n w. running (en_sleep en n w) \<subseteq> running w) \<and>
     (\<forall>path body w. running (snd (gf_write fs path body w)) = running w) \<and>
     (\<forall>dir w. running (snd (gf_mkdirs fs dir w)) = running w)"

lemma engine_start_law:
  "engine_laws fs en running \<Longrightarrow> fst (en_start en cfg w) \<notin> running w \<and>
     running (snd (en_start en cfg w)) = insert (fst (en_start en cfg w)) (running w)"
  unfolding engine_laws_def by (elim conjE) (erule allE, erule allE, assumption)

lemma engine_stop_law: "engine_laws fs en running \<Longrightarrow> running (snd (en_stop en h w)) = running w - {h}"
  unfolding engine_laws_def by blast

lemma engine_finished_law: "engine_laws fs en running \<Longrightarrow> en_finished en h w \<Longrightarrow> h \<notin> running w"
  unfolding engine_laws_def by blast

lemma engine_sleep_law: "engine_laws fs en running \<Longrightarrow> running (en_sleep en n w) \<subseteq> running w"
  unfolding engine_laws_def by blast

lemma save_state_running:
  assumes "engine_laws fs en running"
  shows "running (snd (save_state fs k path s w)) = running w"
proof -
  have f: "running (snd (gf_write fs p b v)) = running v" "running (snd (gf_mkdirs fs d v)) = running v" for p b d v
    using assms unfolding engine_laws_def by blast+
  show ?thesis
    by (cases "gf_parent fs path"; cases "gc_show_local k s")
      (simp_all add: save_state_def write_in_dir_def Let_def split_beta f)
qed

lemma begin_facts:
  assumes "engine_laws fs en running" and "connect_begin fs k name app = (Inr c, app')"
  shows "cn_prev c = ga_engine app \<and> ga_engine app' = None \<and> running (ga_world app') = running (ga_world app)"
  using assms(2) save_state_running [OF assms(1)]
  by (auto simp: connect_begin_def Let_def split: sum.splits)

lemma launch_facts:
  assumes "engine_laws fs en running" and "connect_launch en c app = (h, app')"
  shows "ga_engine app' = ga_engine app \<and>
    running (ga_world app') = insert h (running (ga_world app) - set_option (cn_prev c)) \<and>
    h \<notin> running (ga_world app) - set_option (cn_prev c)"
proof -
  define w where "w = (case cn_prev c of Some h \<Rightarrow> snd (en_stop en h (ga_world app)) | None \<Rightarrow> ga_world app)"
  have w: "running w = running (ga_world app) - set_option (cn_prev c)"
    by (cases "cn_prev c") (simp_all add: w_def engine_stop_law [OF assms(1)])
  have "h = fst (en_start en (cn_config c) w)" "app' = app\<lparr>ga_world := snd (en_start en (cn_config c) w)\<rparr>"
    using assms(2) by (auto simp: connect_launch_def w_def [symmetric] split: prod.splits)
  with engine_start_law [OF assms(1), of "cn_config c" w] w show ?thesis by simp
qed

lemma wait_early_facts:
  assumes "engine_laws fs en running"
  shows "running (snd (wait_early en h waited w)) \<subseteq> running w \<and>
    (fst (wait_early en h waited w) \<longrightarrow> h \<notin> running (snd (wait_early en h waited w)))"
proof (induction en\<equiv>en h\<equiv>h waited w rule: wait_early.induct)
  case (1 waited w)
  with engine_sleep_law [OF assms, of 150 w] engine_finished_law [OF assms, of h w] show ?case
    by (auto simp: wait_early.simps [of en h waited w])
qed

lemma wait_early_polls:
  assumes "waited + 150 * m = 3000"
  shows "fst (wait_early en h waited w) \<longleftrightarrow> (\<exists>j \<le> m. en_finished en h ((en_sleep en 150 ^^ j) w))"
  using assms
proof (induction m arbitrary: waited w)
  case 0
  then show ?case by (simp add: wait_early.simps)
next
  case (Suc m)
  have "(\<exists>j \<le> Suc m. en_finished en h ((en_sleep en 150 ^^ j) w)) \<longleftrightarrow>
      en_finished en h w \<or> (\<exists>j \<le> m. en_finished en h ((en_sleep en 150 ^^ j) (en_sleep en 150 w)))"
  proof -
    have "(\<exists>j \<le> Suc m. P j) \<longleftrightarrow> P 0 \<or> (\<exists>j \<le> m. P (Suc j))" for P
      by (metis Suc_le_mono le0 not0_implies_Suc)
    from this [of "\<lambda>j. en_finished en h ((en_sleep en 150 ^^ j) w)"] show ?thesis by (simp only: funpow_Suc_right funpow_0 o_apply)
  qed
  moreover have "fst (wait_early en h (waited + 150) (en_sleep en 150 w)) \<longleftrightarrow>
      (\<exists>j \<le> m. en_finished en h ((en_sleep en 150 ^^ j) (en_sleep en 150 w)))"
    using Suc.prems by (intro Suc.IH) simp
  moreover have "\<not> waited \<ge> 3000" using Suc.prems by simp
  ultimately show ?case by (simp add: wait_early.simps [of en h waited w])
qed

section \<open>Properties\<close>

text \<open>One session at a time: when no command runs inside another, the only engine that can still run is the one
  the app holds, after connecting (whatever its outcome) and after disconnecting; after quitting none runs.\<close>

theorem one_session_at_a_time:
  assumes "engine_laws fs en running" and "running (ga_world app) \<subseteq> set_option (ga_engine app)"
  shows "running (ga_world (snd (connect_profile fs k en name app))) \<subseteq>
      set_option (ga_engine (snd (connect_profile fs k en name app))) \<and>
    running (ga_world (snd (disconnect fs en app))) = {} \<and> ga_engine (snd (disconnect fs en app)) = None \<and>
    running (ga_world (quit_app en app)) = {}"
proof (intro conjI)
  have stop: "running (snd (en_stop en h (ga_world app))) = {}" if "ga_engine app = Some h" for h
    using engine_stop_law [OF assms(1), of h "ga_world app"] assms(2) that by auto
  show "running (ga_world (snd (disconnect fs en app))) = {}" "running (ga_world (quit_app en app)) = {}"
    "ga_engine (snd (disconnect fs en app)) = None"
    using stop assms(2) by (auto simp: disconnect_def quit_app_def Let_def split_beta split: option.split sum.split)
  show "running (ga_world (snd (connect_profile fs k en name app))) \<subseteq>
      set_option (ga_engine (snd (connect_profile fs k en name app)))"
  proof (cases "connect_begin fs k name app")
    case (Pair r app1)
    show ?thesis
    proof (cases r)
      case (Inl e)
      then have "app1 = app" using Pair by (auto simp: connect_begin_def Let_def split: sum.splits)
      with Pair Inl assms(2) show ?thesis by (simp add: connect_profile_def)
    next
      case (Inr c)
      obtain h app2 where l: "connect_launch en c app1 = (h, app2)" by (meson surj_pair)
      obtain early w where e: "wait_early en h 0 (ga_world app2) = (early, w)" by (meson surj_pair)
      from begin_facts [OF assms(1) Pair [unfolded Inr]] launch_facts [OF assms(1) l] assms(2)
      have "running (ga_world app2) = {h}" "ga_engine app2 = None" by auto
      with wait_early_facts [OF assms(1), of h 0 "ga_world app2"] e
      have "running w \<subseteq> {h}" "early \<longrightarrow> running w = {}" by auto
      with Pair Inr l e \<open>ga_engine app2 = None\<close> show ?thesis
        by (simp add: connect_profile_def connect_finish_def Let_def)
    qed
  qed
qed

text \<open>A desk for the examples: engines are numbered, and the files are one list of profiles.\<close>

type_synonym desk = "nat \<times> (nat \<Rightarrow> bool)"

definition desk_running :: "desk \<Rightarrow> nat set" where
  "desk_running w = {h. h < fst w \<and> snd w h}"

definition desk_engine :: "(nat, desk) engine_api" where
  "desk_engine = \<lparr>en_start = \<lambda>_ (n, r). (n, Suc n, r(n := True)), en_stop = \<lambda>h (n, r). (Inr (), n, r(h := False)),
     en_finished = \<lambda>h w. h \<notin> desk_running w, en_end = \<lambda>_ _. Finished (Inr ()), en_live = \<lambda>_ _. None, en_sleep = \<lambda>_ w. w\<rparr>"

definition desk_files :: "desk gui_files" where
  "desk_files = \<lparr>gf_read = \<lambda>_ _. Inr ''json'', gf_write = \<lambda>_ _ w. (Inr (), w), gf_mkdirs = \<lambda>_ w. (Inr (), w),
     gf_parent = \<lambda>_. None, gf_show = \<lambda>_. ''io''\<rparr>"

lemma desk_laws: "engine_laws desk_files desk_engine desk_running"
  by (auto simp: engine_laws_def desk_engine_def desk_files_def desk_running_def split: if_splits)

definition desk_app :: "(nat, desk) gui_app" where
  "desk_app = app_start [] None (0, \<lambda>_. False)"

theorem one_session_at_a_time_witness:
  "desk_running (ga_world (snd (connect_profile desk_files one_codec desk_engine ''home'' desk_app))) \<subseteq>
     set_option (ga_engine (snd (connect_profile desk_files one_codec desk_engine ''home'' desk_app)))"
  using one_session_at_a_time [OF desk_laws, of desk_app one_codec "''home''"]
  by (simp add: desk_app_def app_start_def desk_running_def Let_def)

text \<open>What a connect reports: for a profile that is stored, it fails exactly when the engine is found ended at one
  of the 21 polls of the first three seconds; then the app holds no engine and shows the message, otherwise it
  holds the new engine and shows itself connected.\<close>

theorem connect_outcome:
  assumes "connect_begin fs k name app = (Inr c, app1)" and "connect_launch en c app1 = (h, app2)"
    and "connect_profile fs k en name app = (r, app')"
  shows "(case r of
      Inl msg \<Rightarrow> (\<exists>j \<le> 20. en_finished en h ((en_sleep en 150 ^^ j) (ga_world app2))) \<and>
        ga_engine app' = ga_engine app1 \<and> ga_engine app1 = None \<and> gs_error (ga_status app') = Some msg \<and> \<not> gs_connected (ga_status app')
    | Inr _ \<Rightarrow> \<not> (\<exists>j \<le> 20. en_finished en h ((en_sleep en 150 ^^ j) (ga_world app2))) \<and>
        ga_engine app' = Some h \<and> gs_connected (ga_status app'))"
proof -
  obtain early w where e: "wait_early en h 0 (ga_world app2) = (early, w)" by (meson surj_pair)
  have polls: "early \<longleftrightarrow> (\<exists>j \<le> 20. en_finished en h ((en_sleep en 150 ^^ j) (ga_world app2)))"
    using wait_early_polls [of 0 20 en h "ga_world app2"] e by simp
  have "ga_engine app1 = None" using assms(1) by (auto simp: connect_begin_def Let_def split: sum.splits)
  moreover have "ga_engine app2 = ga_engine app1" using assms(2) by (auto simp: connect_launch_def Let_def split: prod.splits)
  moreover have "(r, app') = connect_finish fs en c h early (app2\<lparr>ga_world := w\<rparr>)"
    using assms e by (simp add: connect_profile_def)
  ultimately show ?thesis unfolding polls [symmetric]
    by (cases early) (auto simp: connect_finish_def Let_def status_default_def)
qed

lemma desk_find: "find_profile desk_files one_codec ps ''home'' w = Inr one_profile"
  by (simp add: find_profile_def load_profiles_def desk_files_def one_codec_def one_profile_def)

lemma desk_save: "snd (save_state desk_files k path s w) = w"
  by (simp add: save_state_def write_in_dir_def desk_files_def split: sum.split)

lemma desk_begin:
  "\<exists>c. connect_begin desk_files one_codec ''home'' app = (Inr c, app\<lparr>ga_engine := None\<rparr>) \<and> cn_prev c = ga_engine app"
  by (simp add: connect_begin_def desk_find Let_def desk_save)

theorem connect_outcome_witness:
  "\<exists>r app'. connect_profile desk_files one_codec desk_engine ''home'' desk_app = (r, app') \<and>
     (r = Inr () \<and> gs_connected (ga_status app') \<or> (\<exists>msg. r = Inl msg \<and> gs_error (ga_status app') = Some msg))"
proof -
  obtain c where b: "connect_begin desk_files one_codec ''home'' desk_app = (Inr c, desk_app\<lparr>ga_engine := None\<rparr>)"
    using desk_begin [of desk_app] by blast
  obtain h app2 where l: "connect_launch desk_engine c (desk_app\<lparr>ga_engine := None\<rparr>) = (h, app2)" by (meson surj_pair)
  obtain r app' where p: "connect_profile desk_files one_codec desk_engine ''home'' desk_app = (r, app')" by (meson surj_pair)
  from connect_outcome [OF b l p] p show ?thesis by (cases r) auto
qed

text \<open>Two connects that overlap lose an engine: when the second begins while the first still waits, both engines
  start, the later one replaces the earlier one in the app, and the earlier one runs on with no handle to stop it.\<close>

theorem overlapping_connects_orphan:
  assumes "engine_laws fs en running" and "ga_engine app = None"
    and "connect_begin fs k n1 app = (Inr c1, app1)" and "connect_launch en c1 app1 = (h1, app2)"
    and "connect_begin fs k n2 app2 = (Inr c2, app3)" and "connect_launch en c2 app3 = (h2, app4)"
    and "connect_finish fs en c1 h1 False app4 = (r1, app5)" and "connect_finish fs en c2 h2 False app5 = (r2, app6)"
  shows "ga_engine app6 = Some h2 \<and> h1 \<noteq> h2 \<and> h1 \<in> running (ga_world app6) \<and>
    h1 \<in> running (ga_world (quit_app en app6))"
proof -
  note l1 = launch_facts [OF assms(1,4)] and l2 = launch_facts [OF assms(1,6)]
  note b1 = begin_facts [OF assms(1,3)] and b2 = begin_facts [OF assms(1,5)]
  have prev: "cn_prev c2 = None" using b1 b2 l1 by simp
  have h1: "h1 \<in> running (ga_world app4)" "h1 \<noteq> h2" using l1 l2 b2 prev by auto
  moreover have "ga_world app6 = ga_world app4" "ga_engine app6 = Some h2"
    using assms(7,8) by (auto simp: connect_finish_def Let_def)
  ultimately show ?thesis using engine_stop_law [OF assms(1), of h2 "ga_world app6"] by (simp add: quit_app_def)
qed

theorem overlapping_connects_orphan_witness:
  "\<exists>h1 h2 app6. ga_engine app6 = Some h2 \<and> h1 \<noteq> h2 \<and> h1 \<in> desk_running (ga_world (quit_app desk_engine app6))"
proof -
  have none: "ga_engine desk_app = None" by (simp add: desk_app_def app_start_def Let_def)
  obtain c1 app1 where b1: "connect_begin desk_files one_codec ''home'' desk_app = (Inr c1, app1)"
    using desk_begin [of desk_app] by blast
  obtain h1 app2 where l1: "connect_launch desk_engine c1 app1 = (h1, app2)" by (meson surj_pair)
  obtain c2 app3 where b2: "connect_begin desk_files one_codec ''home'' app2 = (Inr c2, app3)"
    using desk_begin [of app2] by blast
  obtain h2 app4 where l2: "connect_launch desk_engine c2 app3 = (h2, app4)" by (meson surj_pair)
  obtain r1 app5 where f1: "connect_finish desk_files desk_engine c1 h1 False app4 = (r1, app5)" by (meson surj_pair)
  obtain r2 app6 where f2: "connect_finish desk_files desk_engine c2 h2 False app5 = (r2, app6)" by (meson surj_pair)
  from overlapping_connects_orphan [OF desk_laws none b1 l1 b2 l2 f1 f2] show ?thesis by blast
qed

end
