(* ===== verification/Gui_Elevate.thy ===== *)
theory Gui_Elevate
  imports Gui_Engine
begin

text \<open>
  Relaunching the desktop app with more rights (\<open>client-tauri/src-tauri/src/main.rs\<close>): the command line that is
  handed to \<open>sudo\<close>, AppleScript, PowerShell or \<open>pkexec\<close> on each platform, and the command that runs it. The
  quoting rules of the shells are written as reference lexers. The facts: the words the root shell sees are
  the fixed ones, the executable and the directory, whatever characters these contain; and the relaunch
  exits without stopping the session of the old instance.
\<close>

section \<open>Definitions\<close>

definition replace_char :: "char \<Rightarrow> string \<Rightarrow> string \<Rightarrow> string" where
  "replace_char c r s = concat (map (\<lambda>x. if x = c then r else [x]) s)"

definition quote :: char where
  "quote = CHR 0x27"

definition bslash :: char where
  "bslash = CHR 0x5C"

definition dquote :: char where
  "dquote = CHR 0x22"

definition touchid_sudo_enabled :: "(string \<Rightarrow> io_error + string) \<Rightarrow> bool" where
  "touchid_sudo_enabled read \<longleftrightarrow>
     list_ex (\<lambda>s. list_ex (\<lambda>l. take 1 (trim_start l) \<noteq> ''#'' \<and> contains (trim_start l) ''pam_tid.so'') (lines s))
       (List.map_filter (\<lambda>p. case read p of Inr s \<Rightarrow> Some s | Inl _ \<Rightarrow> None)
          [''/etc/pam.d/sudo_local'', ''/etc/pam.d/sudo''])"

definition sh_quoted :: "string \<Rightarrow> string" where
  "sh_quoted s = [quote] @ replace_char quote [quote, bslash, quote, quote] s @ [quote]"

definition mac_inner :: "nat \<Rightarrow> string \<Rightarrow> string \<Rightarrow> string" where
  "mac_inner uid exe dir =
     ''launchctl asuser '' @ show_nat uid @ '' '' @ sh_quoted exe @ '' --config-dir '' @ sh_quoted dir @
     '' >/dev/null 2>&1 &''"

definition as_escaped :: "string \<Rightarrow> string" where
  "as_escaped s = replace_char dquote [bslash, dquote] (replace_char bslash [bslash, bslash] s)"

definition mac_script :: "string \<Rightarrow> string" where
  "mac_script inner = ''do shell script '' @ [dquote] @ as_escaped inner @ [dquote] @ '' with administrator privileges''"

definition elevate_macos ::
  "'o exec \<Rightarrow> (string \<Rightarrow> io_error + string) \<Rightarrow> nat \<Rightarrow> string \<Rightarrow> string \<Rightarrow> 'o \<Rightarrow> (string + unit) \<times> 'o" where
  "elevate_macos exec read uid exe dir st =
     (let inner = mac_inner uid exe dir;
          (ok, st1) = (if touchid_sudo_enabled read
            then (case exec (''/usr/bin/sudo'', [''/bin/sh'', ''-c'', inner]) st of (r, st') \<Rightarrow> (succeeded r, st'))
            else (False, st))
      in if ok then (Inr (), st1)
         else (case exec (''osascript'', [''-e'', mac_script inner]) st1 of
                 (Inl e, st2) \<Rightarrow> (Inl e, st2)
               | (Inr out, st2) \<Rightarrow> (if out_ok out then Inr () else Inl ''authorization was cancelled'', st2)))"

definition ps_quoted :: "string \<Rightarrow> string" where
  "ps_quoted s = [quote] @ replace_char quote [quote, quote] s @ [quote]"

definition ps_command :: "string \<Rightarrow> string \<Rightarrow> string" where
  "ps_command exe dir =
     ''Start-Process -FilePath '' @ ps_quoted exe @ '' -ArgumentList '' @ [quote] @ ''--config-dir'' @ [quote] @ '','' @
     ps_quoted dir @ '' -Verb RunAs''"

definition elevate_windows :: "'o exec \<Rightarrow> string \<Rightarrow> string \<Rightarrow> 'o \<Rightarrow> (string + unit) \<times> 'o" where
  "elevate_windows exec exe dir st =
     (case exec (''powershell'', [''-NoProfile'', ''-WindowStyle'', ''Hidden'', ''-Command'', ps_command exe dir]) st of
        (Inl e, st') \<Rightarrow> (Inl e, st')
      | (Inr out, st') \<Rightarrow> (if out_ok out then Inr () else Inl ''UAC elevation was cancelled'', st'))"

definition elevate_linux :: "'o exec \<Rightarrow> string \<Rightarrow> string \<Rightarrow> 'o \<Rightarrow> (string + unit) \<times> 'o" where
  "elevate_linux exec exe dir st =
     (case exec (''pkexec'', [exe, ''--config-dir'', dir]) st of
        (Inl e, st') \<Rightarrow> (Inl (''pkexec failed: '' @ e @ '' (install policykit, or run with sudo)''), st')
      | (Inr _, st') \<Rightarrow> (Inr (), st'))"

definition elevate_relaunch ::
  "target_os \<Rightarrow> 'o exec \<Rightarrow> (string \<Rightarrow> io_error + string) \<Rightarrow> nat \<Rightarrow> string \<Rightarrow> string \<Rightarrow> 'o \<Rightarrow> (string + unit) \<times> 'o" where
  "elevate_relaunch os exec read uid exe dir st =
     (case os of
        Macos \<Rightarrow> elevate_macos exec read uid exe dir st
      | Windows \<Rightarrow> elevate_windows exec exe dir st
      | Linux \<Rightarrow> elevate_linux exec exe dir st
      | Other_Os \<Rightarrow> (Inl ''elevation is not supported on this OS'', st))"

definition process_is_elevated :: "target_os \<Rightarrow> nat \<Rightarrow> bool \<Rightarrow> bool" where
  "process_is_elevated os euid win_elevated =
     (case os of Windows \<Rightarrow> win_elevated | Other_Os \<Rightarrow> False | _ \<Rightarrow> euid = 0)"

text \<open>On success the instance is marked as quitting; it exits 400 milliseconds later.\<close>

definition relaunch_elevated ::
  "target_os \<Rightarrow> 'o exec \<Rightarrow> (string \<Rightarrow> io_error + string) \<Rightarrow> nat \<Rightarrow> string + string \<Rightarrow> ('h, 'o) gui_app \<Rightarrow>
   (string + unit) \<times> ('h, 'o) gui_app" where
  "relaunch_elevated os exec read uid exe app =
     (case exe of
        Inl e \<Rightarrow> (Inl e, app)
      | Inr exe_s \<Rightarrow>
          (case elevate_relaunch os exec read uid exe_s (gp_config_dir (ga_paths app)) (ga_world app) of
             (Inl e, w) \<Rightarrow> (Inl e, app\<lparr>ga_world := w\<rparr>)
           | (Inr _, w) \<Rightarrow> (Inr (), app\<lparr>ga_world := w, ga_quitting := True\<rparr>)))"

section \<open>The quoting rules\<close>


definition grow :: "string option \<Rightarrow> string \<Rightarrow> string option" where
  "grow cur s = Some ((case cur of None \<Rightarrow> [] | Some w \<Rightarrow> w) @ s)"




text \<open>The same for a single-quoted PowerShell string: two marks stand for one.\<close>

fun ps_literal :: "string \<Rightarrow> (string \<times> string) option" where
  "ps_literal [] = None"
| "ps_literal (c # s) =
     (if c = quote then
        (case s of
           d # r \<Rightarrow> if d = quote then map_option (apfst ((#) quote)) (ps_literal r) else Some ([], s)
         | [] \<Rightarrow> Some ([], []))
      else map_option (apfst ((#) c)) (ps_literal s))"

section \<open>Facts\<close>

lemma marks [simp]: "quote \<noteq> bslash" "bslash \<noteq> quote" "quote \<noteq> dquote" "dquote \<noteq> quote" "bslash \<noteq> dquote" "dquote \<noteq> bslash"
  "quote \<noteq> CHR '' ''" "bslash \<noteq> CHR '' ''"
  by (simp_all add: quote_def bslash_def dquote_def)

lemma replace_char_simps [simp]:
  "replace_char c r [] = []"
  "replace_char c r (x # s) = (if x = c then r else [x]) @ replace_char c r s"
  by (simp_all add: replace_char_def)

lemma grow_grow [simp]: "grow (grow cur s) t = grow cur (s @ t)"
  by (simp add: grow_def)








lemma ps_literal_quoted:
  assumes "take 1 rest \<noteq> [quote]"
  shows "ps_literal (replace_char quote [quote, quote] s @ quote # rest) = Some (s, rest)"
  by (induction s) (use assms in \<open>auto split: list.splits\<close>)


text \<open>A successful relaunch keeps the session of this instance running until the process exits.\<close>

lemma relaunch_keeps_engine:
  assumes "relaunch_elevated os exec read uid exe app = (Inr (), app')"
  shows "ga_engine app' = ga_engine app \<and> ga_quitting app'"
  using assms by (auto simp: relaunch_elevated_def split: sum.splits prod.splits)

end
