(* ===== verification/Gui_Shell.thy ===== *)
theory Gui_Shell
  imports Gui_Elevate
begin

text \<open>
  The life of the desktop process (\<open>client-tauri/src-tauri/src/main.rs\<close>: \<open>main\<close>, \<open>setup_tray\<close>, \<open>show_main\<close>,
  \<open>quit_app\<close> and the end of \<open>relaunch_elevated\<close>): the main window, the tray, the log writer, and the commands and
  tasks that are under way, cut at their waits and interleaved in any order. The facts: a command that runs alone is
  the definition of \<open>Gui_Engine\<close> (the commands on profiles and settings of \<open>Gui_Store\<close> do not wait and touch neither
  engine nor window, so they are no steps here); the process ends only after Quit or a relaunch, whatever happens to the window; while
  connects do not overlap no engine is lost from sight; a Quit that nothing disturbs leaves none running, and three
  that something does disturb leave one.
\<close>

section \<open>Logs\<close>

text \<open>The writer \<open>make_writer\<close> gives to one event: every write is kept whole, the drop cuts what was kept into lines.\<close>

definition log_tee_write :: "string \<Rightarrow> string \<Rightarrow> nat \<times> string" where
  "log_tee_write acc b = (length b, acc @ b)"

definition log_event :: "string list \<Rightarrow> string list \<Rightarrow> string list" where
  "log_event chunks q = log_tee_drop (foldl (\<lambda>acc b. snd (log_tee_write acc b)) [] chunks) q"

section \<open>The window and the tray\<close>

record main_window =
  mw_visible :: bool
  mw_minimized :: bool
  mw_focused :: bool

definition show_main :: "main_window option \<Rightarrow> main_window option" where
  "show_main w = map_option (\<lambda>w. w\<lparr>mw_visible := True, mw_minimized := False, mw_focused := True\<rparr>) w"

text \<open>The entries of the tray menu, and what it does with a mouse button that goes down or up.\<close>

definition tray_menu :: "(string \<times> string) list" where
  "tray_menu = [(''show'', ''Show EntroTunnel''), (''quit'', ''Quit EntroTunnel'')]"

datatype mouse_button = Left_button | Right_button | Middle_button

definition tray_shows :: "mouse_button \<Rightarrow> bool \<Rightarrow> bool" where
  "tray_shows button up \<longleftrightarrow> button = Left_button \<and> up"

section \<open>Commands and tasks under way\<close>

text \<open>\<open>Launching\<close> awaits the session before it, \<open>Polling\<close> the next look at the new one; \<open>Stopping\<close> is \<open>disconnect\<close>
  after it took the handle; \<open>Quitting\<close> and \<open>Quit_stopping\<close> the task of \<open>quit_app\<close> before and after it; \<open>Leaving\<close>
  sleeps at the end of a relaunch.\<close>

datatype 'h job =
    Launching "'h connecting"
  | Polling "'h connecting" 'h nat
  | Stopping 'h
  | Quitting
  | Quit_stopping 'h
  | Leaving

record ('h, 'o) shell =
  sh_app :: "('h, 'o) gui_app"
  sh_window :: "main_window option"
  sh_jobs :: "'h job list"
  sh_exited :: bool

record ('h, 'o) shell_env =
  sv_files :: "'o gui_files"
  sv_codec :: gui_codec
  sv_engine :: "('h, 'o) engine_api"
  sv_os :: target_os
  sv_exec :: "'o exec"
  sv_read :: "string \<Rightarrow> io_error + string"
  sv_uid :: nat

definition shell_start :: "string list \<Rightarrow> string option \<Rightarrow> 'o \<Rightarrow> ('h, 'o) shell" where
  "shell_start args os_dir w =
     \<lparr>sh_app = app_start args os_dir w, sh_window = Some \<lparr>mw_visible = True, mw_minimized = False, mw_focused = True\<rparr>,
      sh_jobs = [], sh_exited = False\<rparr>"

datatype shell_event =
    Connects string
  | Disconnects
  | Relaunches "string + string"
  | Menu string
  | Tray_button mouse_button bool
  | Window_closes
  | Exit_asked
  | Reopened
  | Logged "string list"
  | Time_passes nat
  | Turn nat

text \<open>\<open>disconnect\<close> after its wait, and with it.\<close>

definition disconnect_end :: "string option \<Rightarrow> ('h, 'o) gui_app \<Rightarrow> ('h, 'o) gui_app" where
  "disconnect_end err app = app\<lparr>ga_status := (ga_status app)\<lparr>gs_connected := False, gs_error := err\<rparr>\<rparr>"

definition stop_turn :: "'o gui_files \<Rightarrow> ('h, 'o) engine_api \<Rightarrow> 'h \<Rightarrow> ('h, 'o) gui_app \<Rightarrow> ('h, 'o) gui_app" where
  "stop_turn fs en h app =
     (case en_stop en h (ga_world app) of
        (r, w) \<Rightarrow> disconnect_end (case r of Inl err \<Rightarrow> Some (show_error (gf_show fs) err) | Inr _ \<Rightarrow> None) (app\<lparr>ga_world := w\<rparr>))"

text \<open>One round of the poll loop of \<open>connect_profile\<close>, with what follows the loop when it ends there.\<close>

definition poll_turn ::
  "'o gui_files \<Rightarrow> ('h, 'o) engine_api \<Rightarrow> 'h connecting \<Rightarrow> 'h \<Rightarrow> nat \<Rightarrow> ('h, 'o) gui_app \<Rightarrow> 'h job option \<times> ('h, 'o) gui_app" where
  "poll_turn fs en c h waited app =
     (if en_finished en h (ga_world app) then (None, snd (connect_finish fs en c h True app))
      else if waited \<ge> 3000 then (None, snd (connect_finish fs en c h False app))
      else (Some (Polling c h (waited + 150)), app\<lparr>ga_world := en_sleep en 150 (ga_world app)\<rparr>))"

text \<open>The task of \<open>quit_app\<close> takes the handle: it exits at once when there is none, or awaits the engine.\<close>

definition quit_takes :: "('h, 'o) gui_app \<Rightarrow> 'h job option \<times> ('h, 'o) gui_app \<times> bool" where
  "quit_takes app =
     (case ga_engine app of
        Some h \<Rightarrow> (Some (Quit_stopping h), app\<lparr>ga_engine := None\<rparr>, False)
      | None \<Rightarrow> (None, app, True))"

text \<open>One turn of a job: what is left of it, the app, and whether it calls \<open>app.exit\<close>.\<close>

definition job_turn ::
  "('h, 'o) shell_env \<Rightarrow> 'h job \<Rightarrow> ('h, 'o) gui_app \<Rightarrow> 'h job option \<times> ('h, 'o) gui_app \<times> bool" where
  "job_turn e j app =
     (let fs = sv_files e; en = sv_engine e in
      case j of
        Launching c \<Rightarrow> (case connect_launch en c app of (h, app') \<Rightarrow> (Some (Polling c h 0), app', False))
      | Polling c h waited \<Rightarrow> (case poll_turn fs en c h waited app of (left, app') \<Rightarrow> (left, app', False))
      | Stopping h \<Rightarrow> (None, stop_turn fs en h app, False)
      | Quitting \<Rightarrow> quit_takes app
      | Quit_stopping h \<Rightarrow> (None, app\<lparr>ga_world := snd (en_stop en h (ga_world app))\<rparr>, True)
      | Leaving \<Rightarrow> (None, app, True))"

lemmas job_turns = job_turn_def poll_turn_def stop_turn_def quit_takes_def

text \<open>\<open>ExitRequested\<close>, from the system or from \<open>app.exit\<close>: the handler may prevent it.\<close>

definition exit_requested :: "('h, 'o) shell \<Rightarrow> ('h, 'o) shell" where
  "exit_requested sh = (if prevented Exit_requested (sh_app sh) then sh else sh\<lparr>sh_exited := True\<rparr>)"

definition close_requested :: "('h, 'o) shell \<Rightarrow> ('h, 'o) shell" where
  "close_requested sh =
     (if prevented Close_requested (sh_app sh) then sh\<lparr>sh_window := map_option (\<lambda>w. w\<lparr>mw_visible := False\<rparr>) (sh_window sh)\<rparr>
      else sh\<lparr>sh_window := None\<rparr>)"

text \<open>\<open>quit_app\<close> up to the start of its task.\<close>

definition quit_begin :: "('h, 'o) shell \<Rightarrow> ('h, 'o) shell" where
  "quit_begin sh = sh\<lparr>sh_app := (sh_app sh)\<lparr>ga_quitting := True\<rparr>, sh_jobs := sh_jobs sh @ [Quitting]\<rparr>"

definition on_menu :: "string \<Rightarrow> ('h, 'o) shell \<Rightarrow> ('h, 'o) shell" where
  "on_menu entry sh =
     (if entry = ''show'' then sh\<lparr>sh_window := show_main (sh_window sh)\<rparr>
      else if entry = ''quit'' then quit_begin sh else sh)"

text \<open>\<open>None\<close> after the exit, and for a turn of a job that does not exist.\<close>

definition shell_step :: "('h, 'o) shell_env \<Rightarrow> shell_event \<Rightarrow> ('h, 'o) shell \<Rightarrow> ('h, 'o) shell option" where
  "shell_step e ev sh =
     (let app = sh_app sh in
      if sh_exited sh then None
      else case ev of
        Connects name \<Rightarrow>
          (case connect_begin (sv_files e) (sv_codec e) name app of
             (Inl _, app') \<Rightarrow> Some (sh\<lparr>sh_app := app'\<rparr>)
           | (Inr c, app') \<Rightarrow> Some (sh\<lparr>sh_app := app', sh_jobs := sh_jobs sh @ [Launching c]\<rparr>))
      | Disconnects \<Rightarrow>
          (case ga_engine app of
             Some h \<Rightarrow> Some (sh\<lparr>sh_app := app\<lparr>ga_engine := None\<rparr>, sh_jobs := sh_jobs sh @ [Stopping h]\<rparr>)
           | None \<Rightarrow> Some (sh\<lparr>sh_app := disconnect_end None app\<rparr>))
      | Relaunches exe \<Rightarrow>
          (case relaunch_elevated (sv_os e) (sv_exec e) (sv_read e) (sv_uid e) exe app of
             (Inl _, app') \<Rightarrow> Some (sh\<lparr>sh_app := app'\<rparr>)
           | (Inr _, app') \<Rightarrow> Some (sh\<lparr>sh_app := app', sh_jobs := sh_jobs sh @ [Leaving]\<rparr>))
      | Menu entry \<Rightarrow> Some (on_menu entry sh)
      | Tray_button button up \<Rightarrow>
          Some (if tray_shows button up then sh\<lparr>sh_window := show_main (sh_window sh)\<rparr> else sh)
      | Window_closes \<Rightarrow> (if sh_window sh = None then None else Some (close_requested sh))
      | Exit_asked \<Rightarrow> Some (exit_requested sh)
      | Reopened \<Rightarrow> Some (if sv_os e = Macos then sh\<lparr>sh_window := show_main (sh_window sh)\<rparr> else sh)
      | Logged chunks \<Rightarrow> Some (sh\<lparr>sh_app := app\<lparr>ga_logs := log_event chunks (ga_logs app)\<rparr>\<rparr>)
      | Time_passes ms \<Rightarrow> Some (sh\<lparr>sh_app := app\<lparr>ga_world := en_sleep (sv_engine e) ms (ga_world app)\<rparr>\<rparr>)
      | Turn n \<Rightarrow>
          (if n < length (sh_jobs sh) then
             (case job_turn e (sh_jobs sh ! n) app of
                (left, app', leaves) \<Rightarrow>
                  let sh' = sh\<lparr>sh_app := app',
                     sh_jobs := take n (sh_jobs sh) @ (case left of Some j \<Rightarrow> [j] | None \<Rightarrow> []) @ drop (Suc n) (sh_jobs sh)\<rparr>
                  in Some (if leaves then exit_requested sh' else sh'))
           else None))"

fun shell_run :: "('h, 'o) shell_env \<Rightarrow> shell_event list \<Rightarrow> ('h, 'o) shell \<Rightarrow> ('h, 'o) shell option" where
  "shell_run e [] sh = Some sh"
| "shell_run e (ev # evs) sh = Option.bind (shell_step e ev sh) (shell_run e evs)"

section \<open>What is observed\<close>

text \<open>The engine a job has in hand.\<close>

fun in_hand :: "'h job \<Rightarrow> 'h set" where
  "in_hand (Launching c) = set_option (cn_prev c)"
| "in_hand (Polling c h waited) = {h}"
| "in_hand (Stopping h) = {h}"
| "in_hand (Quit_stopping h) = {h}"
| "in_hand _ = {}"

fun job_connects :: "'h job \<Rightarrow> bool" where
  "job_connects (Launching c) = True"
| "job_connects (Polling c h waited) = True"
| "job_connects _ = False"

fun job_leaves :: "'h job \<Rightarrow> bool" where
  "job_leaves Quitting = True"
| "job_leaves (Quit_stopping h) = True"
| "job_leaves Leaving = True"
| "job_leaves _ = False"

fun asks_to_leave :: "shell_event \<Rightarrow> bool" where
  "asks_to_leave (Menu entry) = (entry = ''quit'')"
| "asks_to_leave (Relaunches exe) = True"
| "asks_to_leave _ = False"

text \<open>Runs in which no connect begins while another is under way.\<close>

fun one_connect :: "('h, 'o) shell_env \<Rightarrow> shell_event list \<Rightarrow> ('h, 'o) shell \<Rightarrow> bool" where
  "one_connect e [] sh = True"
| "one_connect e (ev # evs) sh =
     ((case ev of Connects name \<Rightarrow> \<not> list_ex job_connects (sh_jobs sh) | _ \<Rightarrow> True) \<and>
      (case shell_step e ev sh of Some sh' \<Rightarrow> one_connect e evs sh' | None \<Rightarrow> True))"

definition shell_laws :: "('h, 'o) shell_env \<Rightarrow> ('o \<Rightarrow> 'h set) \<Rightarrow> bool" where
  "shell_laws e running \<longleftrightarrow>
     engine_laws (sv_files e) (sv_engine e) running \<and> (\<forall>c w. running (snd (sv_exec e c w)) = running w)"

section \<open>The steps one by one\<close>

lemma shell_step_alive: "shell_step e ev sh = Some sh' \<Longrightarrow> \<not> sh_exited sh"
  by (simp add: shell_step_def Let_def split: if_split_asm)

lemma shell_steps:
  assumes "\<not> sh_exited sh"
  shows "shell_step e (Connects name) sh =
      (case connect_begin (sv_files e) (sv_codec e) name (sh_app sh) of
         (Inl _, app') \<Rightarrow> Some (sh\<lparr>sh_app := app'\<rparr>)
       | (Inr c, app') \<Rightarrow> Some (sh\<lparr>sh_app := app', sh_jobs := sh_jobs sh @ [Launching c]\<rparr>))"
    and "shell_step e Disconnects sh =
      (case ga_engine (sh_app sh) of
         Some h \<Rightarrow> Some (sh\<lparr>sh_app := (sh_app sh)\<lparr>ga_engine := None\<rparr>, sh_jobs := sh_jobs sh @ [Stopping h]\<rparr>)
       | None \<Rightarrow> Some (sh\<lparr>sh_app := disconnect_end None (sh_app sh)\<rparr>))"
    and "shell_step e (Relaunches exe) sh =
      (case relaunch_elevated (sv_os e) (sv_exec e) (sv_read e) (sv_uid e) exe (sh_app sh) of
         (Inl _, app') \<Rightarrow> Some (sh\<lparr>sh_app := app'\<rparr>)
       | (Inr _, app') \<Rightarrow> Some (sh\<lparr>sh_app := app', sh_jobs := sh_jobs sh @ [Leaving]\<rparr>))"
    and "shell_step e (Menu entry) sh = Some (on_menu entry sh)"
    and "shell_step e (Tray_button button up) sh =
      Some (if tray_shows button up then sh\<lparr>sh_window := show_main (sh_window sh)\<rparr> else sh)"
    and "shell_step e Window_closes sh = (if sh_window sh = None then None else Some (close_requested sh))"
    and "shell_step e Exit_asked sh = Some (exit_requested sh)"
    and "shell_step e Reopened sh = Some (if sv_os e = Macos then sh\<lparr>sh_window := show_main (sh_window sh)\<rparr> else sh)"
    and "shell_step e (Logged chunks) sh = Some (sh\<lparr>sh_app := (sh_app sh)\<lparr>ga_logs := log_event chunks (ga_logs (sh_app sh))\<rparr>\<rparr>)"
    and "shell_step e (Time_passes ms) sh =
      Some (sh\<lparr>sh_app := (sh_app sh)\<lparr>ga_world := en_sleep (sv_engine e) ms (ga_world (sh_app sh))\<rparr>\<rparr>)"
    and "shell_step e (Turn n) sh =
      (if n < length (sh_jobs sh) then
         (case job_turn e (sh_jobs sh ! n) (sh_app sh) of
            (left, app', leaves) \<Rightarrow>
              let sh' = sh\<lparr>sh_app := app',
                 sh_jobs := take n (sh_jobs sh) @ (case left of Some j \<Rightarrow> [j] | None \<Rightarrow> []) @ drop (Suc n) (sh_jobs sh)\<rparr>
              in Some (if leaves then exit_requested sh' else sh'))
       else None)"
  using assms by (simp_all only: shell_step_def Let_def shell_event.case if_False)

section \<open>Commands that run alone\<close>

lemma shell_run_append [simp]: "shell_run e (xs @ ys) sh = Option.bind (shell_run e xs sh) (shell_run e ys)"
  by (induction xs arbitrary: sh) (auto split: bind_splits)

lemma turn_single:
  assumes "sh_jobs sh = [j]" and "\<not> sh_exited sh"
  shows "shell_step e (Turn 0) sh =
    (case job_turn e j (sh_app sh) of
       (left, app', leaves) \<Rightarrow>
         let sh' = sh\<lparr>sh_app := app', sh_jobs := (case left of Some j \<Rightarrow> [j] | None \<Rightarrow> [])\<rparr>
         in Some (if leaves then exit_requested sh' else sh'))"
  using assms by (simp add: shell_step_def Let_def)

lemma polls_alone:
  assumes "sh_jobs sh = [Polling c h waited]" and "\<not> sh_exited sh"
  shows "\<exists>n. shell_run e (replicate n (Turn 0)) sh =
    (case wait_early (sv_engine e) h waited (ga_world (sh_app sh)) of
       (early, w) \<Rightarrow> Some (sh\<lparr>sh_app := snd (connect_finish (sv_files e) (sv_engine e) c h early ((sh_app sh)\<lparr>ga_world := w\<rparr>)), sh_jobs := []\<rparr>))"
  using assms
proof (induction "3000 - waited" arbitrary: waited sh rule: less_induct)
  case less
  let ?en = "sv_engine e" and ?w = "ga_world (sh_app sh)"
  show ?case
  proof (cases "en_finished ?en h ?w \<or> waited \<ge> 3000")
    case True
    then have "shell_run e (replicate 1 (Turn 0)) sh =
        Some (sh\<lparr>sh_app := snd (connect_finish (sv_files e) ?en c h (en_finished ?en h ?w) (sh_app sh)), sh_jobs := []\<rparr>)"
      using turn_single [OF less.prems] by (auto simp: job_turns Let_def)
    moreover have "wait_early ?en h waited ?w = (en_finished ?en h ?w, ?w)"
      using True by (auto simp: wait_early.simps [of ?en h waited])
    ultimately show ?thesis by (intro exI [of _ 1]) simp
  next
    case False
    let ?sh = "sh\<lparr>sh_app := (sh_app sh)\<lparr>ga_world := en_sleep ?en 150 ?w\<rparr>, sh_jobs := [Polling c h (waited + 150)]\<rparr>"
    have step: "shell_step e (Turn 0) sh = Some ?sh"
      using turn_single [OF less.prems] False by (auto simp: job_turns Let_def)
    have "wait_early ?en h waited ?w = wait_early ?en h (waited + 150) (en_sleep ?en 150 ?w)"
      using False by (auto simp: wait_early.simps [of ?en h waited])
    moreover obtain n where "shell_run e (replicate n (Turn 0)) ?sh =
      (case wait_early ?en h (waited + 150) (ga_world (sh_app ?sh)) of
        (early, w) \<Rightarrow> Some (?sh\<lparr>sh_app := snd (connect_finish (sv_files e) ?en c h early ((sh_app ?sh)\<lparr>ga_world := w\<rparr>)), sh_jobs := []\<rparr>))"
      using less.hyps [of "waited + 150" ?sh] less.prems False by fastforce
    ultimately show ?thesis
      by (intro exI [of _ "Suc n"]) (simp add: step split: prod.splits)
  qed
qed

lemma connect_alone:
  assumes "sh_jobs sh = []" and "\<not> sh_exited sh"
  shows "\<exists>n. shell_run e (Connects name # replicate n (Turn 0)) sh =
    Some (sh\<lparr>sh_app := snd (connect_profile (sv_files e) (sv_codec e) (sv_engine e) name (sh_app sh))\<rparr>)"
proof (cases "connect_begin (sv_files e) (sv_codec e) name (sh_app sh)")
  case (Pair r app1)
  show ?thesis
  proof (cases r)
    case (Inl err)
    with Pair assms show ?thesis by (intro exI [of _ 0]) (simp add: shell_step_def connect_profile_def)
  next
    case (Inr c)
    obtain h app2 where l: "connect_launch (sv_engine e) c app1 = (h, app2)" by (meson surj_pair)
    let ?sh1 = "sh\<lparr>sh_app := app1, sh_jobs := [Launching c]\<rparr>" and ?sh2 = "sh\<lparr>sh_app := app2, sh_jobs := [Polling c h 0]\<rparr>"
    have 1: "shell_step e (Connects name) sh = Some ?sh1" using Pair Inr assms by (simp add: shell_step_def)
    have 2: "shell_step e (Turn 0) ?sh1 = Some ?sh2"
      using turn_single [of ?sh1 "Launching c" e] assms l by (simp add: job_turns)
    obtain n where n: "shell_run e (replicate n (Turn 0)) ?sh2 =
      (case wait_early (sv_engine e) h 0 (ga_world app2) of
        (early, w) \<Rightarrow> Some (?sh2\<lparr>sh_app := snd (connect_finish (sv_files e) (sv_engine e) c h early (app2\<lparr>ga_world := w\<rparr>)), sh_jobs := []\<rparr>))"
      using polls_alone [of ?sh2 c h 0 e] assms by auto
    have "sh\<lparr>sh_app := a, sh_jobs := []\<rparr> = sh\<lparr>sh_app := a\<rparr>" for a using assms(1) by (cases sh) simp
    with 1 2 n l Pair Inr show ?thesis
      by (intro exI [of _ "Suc n"]) (simp add: connect_profile_def split: prod.splits)
  qed
qed

lemma disconnect_alone:
  assumes "sh_jobs sh = []" and "\<not> sh_exited sh"
  shows "\<exists>n. shell_run e (Disconnects # replicate n (Turn 0)) sh =
    Some (sh\<lparr>sh_app := snd (disconnect (sv_files e) (sv_engine e) (sh_app sh))\<rparr>)"
proof (cases "ga_engine (sh_app sh)")
  case None
  with assms show ?thesis
    by (intro exI [of _ 0]) (cases "sh_app sh", simp add: shell_step_def disconnect_def disconnect_end_def Let_def)
next
  case (Some h)
  let ?sh1 = "sh\<lparr>sh_app := (sh_app sh)\<lparr>ga_engine := None\<rparr>, sh_jobs := [Stopping h]\<rparr>"
  have "shell_step e Disconnects sh = Some ?sh1" using Some assms by (simp add: shell_step_def)
  moreover have "shell_step e (Turn 0) ?sh1 = Some (sh\<lparr>sh_app := snd (disconnect (sv_files e) (sv_engine e) (sh_app sh))\<rparr>)"
    using assms Some
    by (cases "sh_app sh", cases sh)
      (simp add: shell_step_def job_turns disconnect_def disconnect_end_def Let_def split: prod.splits sum.splits)
  ultimately show ?thesis by (intro exI [of _ 1]) simp
qed

lemma quit_alone:
  assumes "sh_jobs sh = []" and "\<not> sh_exited sh"
  shows "\<exists>n. shell_run e (Menu ''quit'' # replicate n (Turn 0)) sh =
    Some (sh\<lparr>sh_app := quit_app (sv_engine e) (sh_app sh), sh_exited := True\<rparr>)"
proof (cases "ga_engine (sh_app sh)")
  case None
  with assms show ?thesis
    by (intro exI [of _ 1], cases "sh_app sh", cases sh)
      (simp add: shell_step_def on_menu_def quit_begin_def job_turns quit_app_def exit_requested_def prevented_def Let_def)
next
  case (Some h)
  with assms show ?thesis
    by (intro exI [of _ 2], cases "sh_app sh", cases sh)
      (simp add: shell_step_def on_menu_def quit_begin_def job_turns quit_app_def exit_requested_def prevented_def Let_def
        numeral_2_eq_2)
qed

section \<open>The invariant of the process\<close>

definition shell_ok :: "('o \<Rightarrow> 'h set) \<Rightarrow> ('h, 'o) shell \<Rightarrow> bool" where
  "shell_ok running sh \<longleftrightarrow>
     running (ga_world (sh_app sh)) \<subseteq> set_option (ga_engine (sh_app sh)) \<union> (\<Union>j \<in> set (sh_jobs sh). in_hand j) \<and>
     length (filter job_connects (sh_jobs sh)) \<le> 1 \<and>
     (list_ex job_connects (sh_jobs sh) \<longrightarrow> ga_engine (sh_app sh) = None) \<and>
     (list_ex job_leaves (sh_jobs sh) \<or> sh_exited sh \<longrightarrow> ga_quitting (sh_app sh)) \<and>
     (sh_window sh = None \<longrightarrow> ga_quitting (sh_app sh)) \<and>
     length (ga_logs (sh_app sh)) \<le> LOG_CAP"

lemma shell_start_ok: "running w = {} \<Longrightarrow> shell_ok running (shell_start args d w)"
  by (simp add: shell_ok_def shell_start_def app_start_def Let_def LOG_CAP_def)

lemma exec_case_running:
  assumes "\<forall>c w. running (snd (exec c w)) = running w"
  shows "running (snd (case exec c w of (Inl e, v) \<Rightarrow> (f e, v) | (Inr out, v) \<Rightarrow> (g out, v))) = running w"
proof (cases "exec c w")
  case (Pair r v)
  have "running (snd (exec c w)) = running w" using assms by blast
  with Pair show ?thesis by (cases r) simp_all
qed

lemma elevate_running:
  assumes "\<forall>c w. running (snd (exec c w)) = running w"
  shows "running (snd (elevate_relaunch os exec read uid exe dir st)) = running st"
proof -
  note out = exec_case_running [OF assms]
  have mac: "running (snd (elevate_macos exec read uid exe dir st)) = running st"
  proof -
    define tried where "tried = (if touchid_sudo_enabled read
      then (case exec (''/usr/bin/sudo'', [''/bin/sh'', ''-c'', mac_inner uid exe dir]) st of (r, st') \<Rightarrow> (succeeded r, st')) else (False, st))"
    have "running (snd tried) = running st" using assms by (simp add: tried_def split_beta)
    then show ?thesis unfolding elevate_macos_def Let_def tried_def [symmetric] by (cases tried) (simp add: out)
  qed
  show ?thesis
    by (cases os) (simp_all only: elevate_relaunch_def target_os.case mac elevate_windows_def elevate_linux_def out snd_conv)
qed

lemma relaunch_facts:
  assumes "shell_laws e running" and "relaunch_elevated (sv_os e) (sv_exec e) (sv_read e) (sv_uid e) exe app = (r, app')"
  shows "running (ga_world app') = running (ga_world app)" and "ga_engine app' = ga_engine app" and "ga_logs app' = ga_logs app"
    and "ga_quitting app' \<longleftrightarrow> ga_quitting app \<or> r = Inr ()"
proof -
  have q: "running w = running st" if "elevate_relaunch (sv_os e) (sv_exec e) (sv_read e) (sv_uid e) x d st = (y, w)" for x d st y w
    using elevate_running [of running "sv_exec e" "sv_os e" "sv_read e" "sv_uid e" x d st] assms(1) that
    by (simp add: shell_laws_def)
  show "running (ga_world app') = running (ga_world app)" "ga_engine app' = ga_engine app" "ga_logs app' = ga_logs app"
    "ga_quitting app' \<longleftrightarrow> ga_quitting app \<or> r = Inr ()"
    using assms(2) by (auto simp: relaunch_elevated_def split: sum.splits prod.splits dest: q)
qed

lemma begin_keeps:
  assumes "connect_begin fs k name app = (r, app')"
  shows "ga_logs app' = ga_logs app" and "ga_quitting app' = ga_quitting app" and "r = Inl err \<Longrightarrow> app' = app"
  using assms by (auto simp: connect_begin_def Let_def split: sum.splits)

lemma launch_keeps:
  assumes "connect_launch en c app = (h, app')"
  shows "ga_logs app' = ga_logs app" and "ga_quitting app' = ga_quitting app"
  using assms by (auto simp: connect_launch_def Let_def split: prod.splits)

text \<open>What a turn of a job changes.\<close>

lemma job_turn_facts:
  assumes "engine_laws (sv_files e) (sv_engine e) running" and "job_turn e j app = (left, app', leaves)"
    and "job_connects j \<longrightarrow> ga_engine app = None"
  shows "running (ga_world app') \<subseteq> set_option (ga_engine app') \<union> \<Union>(in_hand ` set_option left) \<union>
      (running (ga_world app) - set_option (ga_engine app) - in_hand j)"
    and "ga_engine app' = None \<or> ga_engine app' = ga_engine app \<or> job_connects j \<and> left = None"
    and "ga_logs app' = ga_logs app" and "ga_quitting app' = ga_quitting app"
    and "leaves \<longrightarrow> job_leaves j \<and> left = None"
    and "left = Some j' \<Longrightarrow> (job_connects j' \<longrightarrow> job_connects j \<and> ga_engine app' = None) \<and> (job_leaves j' \<longrightarrow> job_leaves j)"
proof -
  note laws = engine_stop_law [OF assms(1)] engine_finished_law [OF assms(1)] engine_sleep_law [OF assms(1)]
  have stop: "running w' = running w - {h}" if "en_stop (sv_engine e) h w = (r, w')" for h w r w'
    using laws(1) [of h w] that by simp
  have all: "running (ga_world app') \<subseteq> set_option (ga_engine app') \<union> \<Union>(in_hand ` set_option left) \<union>
        (running (ga_world app) - set_option (ga_engine app) - in_hand j) \<and>
      (ga_engine app' = None \<or> ga_engine app' = ga_engine app \<or> job_connects j \<and> left = None) \<and>
      ga_logs app' = ga_logs app \<and> ga_quitting app' = ga_quitting app \<and> (leaves \<longrightarrow> job_leaves j \<and> left = None) \<and>
      (\<forall>j'. left = Some j' \<longrightarrow> (job_connects j' \<longrightarrow> job_connects j \<and> ga_engine app' = None) \<and> (job_leaves j' \<longrightarrow> job_leaves j))"
  proof (cases j)
    case (Launching c)
    obtain h app2 where l: "connect_launch (sv_engine e) c app = (h, app2)" by (meson surj_pair)
    with assms(2) Launching have "left = Some (Polling c h 0)" "app' = app2" "\<not> leaves" by (simp_all add: job_turns)
    with Launching assms(3) launch_facts [OF assms(1) l] launch_keeps [OF l] show ?thesis by auto
  next
    case (Polling c h waited)
    with assms(2,3) laws(2) [of h "ga_world app"] laws(3) [of 150 "ga_world app"] show ?thesis
      by (auto simp: job_turns connect_finish_def Let_def split: if_splits)
  next
    case (Stopping h)
    with assms(2) show ?thesis by (auto simp: job_turns disconnect_end_def Let_def dest: stop split: prod.splits)
  next
    case Quitting
    with assms(2) show ?thesis by (auto simp: job_turns Let_def split: option.splits)
  next
    case (Quit_stopping h)
    with assms(2) show ?thesis by (auto simp: job_turns Let_def laws(1))
  next
    case Leaving
    with assms(2) show ?thesis by (auto simp: job_turns Let_def)
  qed
  then show "running (ga_world app') \<subseteq> set_option (ga_engine app') \<union> \<Union>(in_hand ` set_option left) \<union>
      (running (ga_world app) - set_option (ga_engine app) - in_hand j)"
    "ga_engine app' = None \<or> ga_engine app' = ga_engine app \<or> job_connects j \<and> left = None"
    "ga_logs app' = ga_logs app" "ga_quitting app' = ga_quitting app" "leaves \<longrightarrow> job_leaves j \<and> left = None"
    "left = Some j' \<Longrightarrow> (job_connects j' \<longrightarrow> job_connects j \<and> ga_engine app' = None) \<and> (job_leaves j' \<longrightarrow> job_leaves j)"
    by blast+
qed

lemma log_event_bound: "length q \<le> LOG_CAP \<Longrightarrow> length (log_event chunks q) \<le> LOG_CAP"
  using log_ring_is_suffix unfolding log_event_def by blast

lemma exit_requested_ok: "shell_ok running sh \<Longrightarrow> shell_ok running (exit_requested sh)"
  by (auto simp: shell_ok_def exit_requested_def prevented_def)

lemma moved_within: "X \<subseteq> S' \<union> L \<union> (R - S - H) \<Longrightarrow> R \<subseteq> S \<union> (U \<union> H \<union> V) \<Longrightarrow> X \<subseteq> S' \<union> (U \<union> L \<union> V)"
  by blast

lemma job_turn_ok:
  assumes "engine_laws (sv_files e) (sv_engine e) running" and "shell_ok running sh" and "n < length (sh_jobs sh)"
    and "job_turn e (sh_jobs sh ! n) (sh_app sh) = (left, app', leaves)"
  shows "shell_ok running (sh\<lparr>sh_app := app',
    sh_jobs := take n (sh_jobs sh) @ (case left of Some j \<Rightarrow> [j] | None \<Rightarrow> []) @ drop (Suc n) (sh_jobs sh)\<rparr>)"
proof -
  define us j vs where d: "us = take n (sh_jobs sh)" "j = sh_jobs sh ! n" "vs = drop (Suc n) (sh_jobs sh)"
  have js: "sh_jobs sh = us @ j # vs" unfolding d by (rule id_take_nth_drop [OF assms(3)])
  note ok = assms(2) [unfolded shell_ok_def js]
  from ok have con: "job_connects j \<longrightarrow> ga_engine (sh_app sh) = None" by simp
  note f = job_turn_facts [OF assms(1,4) [folded d(2)] con]
  have runs: "running (ga_world app') \<subseteq> set_option (ga_engine app') \<union>
      (\<Union>i \<in> set (us @ (case left of Some i \<Rightarrow> [i] | None \<Rightarrow> []) @ vs). in_hand i)"
  proof -
    have "(\<Union>i \<in> set (us @ (case left of Some i \<Rightarrow> [i] | None \<Rightarrow> []) @ vs). in_hand i) =
        \<Union>(in_hand ` set us) \<union> \<Union>(in_hand ` set_option left) \<union> \<Union>(in_hand ` set vs)" by (cases left) auto
    moreover have "running (ga_world (sh_app sh)) \<subseteq>
        set_option (ga_engine (sh_app sh)) \<union> (\<Union>(in_hand ` set us) \<union> in_hand j \<union> \<Union>(in_hand ` set vs))"
      using ok by (simp add: Un_ac)
    ultimately show ?thesis using moved_within [OF f(1)] by simp
  qed
  have one: "length (filter job_connects (us @ (case left of Some i \<Rightarrow> [i] | None \<Rightarrow> []) @ vs)) \<le> 1"
    using ok f(6) by (auto split: option.splits if_splits)
  have slot: "ga_engine app' = None" if "list_ex job_connects (us @ (case left of Some i \<Rightarrow> [i] | None \<Rightarrow> []) @ vs)"
  proof (rule ccontr)
    assume some: "ga_engine app' \<noteq> None"
    then have left: "\<not> (\<exists>i. left = Some i \<and> job_connects i)" using f(6) by auto
    then have rest: "list_ex job_connects (us @ vs)" using that by (auto split: option.splits)
    with ok have "ga_engine (sh_app sh) = None" by auto
    with some f(2) have "job_connects j" by auto
    with rest ok show False by (auto simp: list_ex_iff filter_empty_conv)
  qed
  have quits: "ga_quitting app'" if "list_ex job_leaves (us @ (case left of Some i \<Rightarrow> [i] | None \<Rightarrow> []) @ vs) \<or> sh_exited sh"
    using that ok f(4,6) by (auto split: option.splits)
  from runs one slot quits ok f(3,4) show ?thesis unfolding shell_ok_def d by simp
qed

lemma shell_step_ok:
  assumes "shell_laws e running" and "shell_ok running sh" and "shell_step e ev sh = Some sh'"
    and "case ev of Connects name \<Rightarrow> \<not> list_ex job_connects (sh_jobs sh) | _ \<Rightarrow> True"
  shows "shell_ok running sh'"
proof -
  have laws: "engine_laws (sv_files e) (sv_engine e) running" using assms(1) by (simp add: shell_laws_def)
  note steps = shell_steps [OF shell_step_alive [OF assms(3)]]
  show ?thesis
  proof (cases ev)
    case (Connects name)
    show ?thesis
    proof (cases "connect_begin (sv_files e) (sv_codec e) name (sh_app sh)")
      case (Pair r app')
      note k = begin_keeps [OF Pair]
      show ?thesis
      proof (cases r)
        case (Inl err)
        with k(3) Pair Connects assms(3) have "sh' = sh" by (simp add: steps)
        with assms(2) show ?thesis by simp
      next
        case (Inr c)
        note b = begin_facts [OF laws Pair [unfolded Inr]]
        have "sh' = sh\<lparr>sh_app := app', sh_jobs := sh_jobs sh @ [Launching c]\<rparr>"
          using Pair Inr Connects assms(3) by (simp add: steps)
        moreover have "filter job_connects (sh_jobs sh) = []" using assms(4) Connects by (simp add: filter_empty_conv list_ex_iff)
        ultimately show ?thesis using assms(2) b k by (auto simp: shell_ok_def)
      qed
    qed
  next
    case (Relaunches exe)
    show ?thesis
    proof (cases "relaunch_elevated (sv_os e) (sv_exec e) (sv_read e) (sv_uid e) exe (sh_app sh)")
      case (Pair r app')
      note k = relaunch_facts [OF assms(1) Pair]
      show ?thesis
      proof (cases r)
        case (Inl err)
        with Pair Relaunches assms(3) have "sh' = sh\<lparr>sh_app := app'\<rparr>" by (simp add: steps)
        with k assms(2) show ?thesis by (auto simp: shell_ok_def)
      next
        case (Inr u)
        with Pair Relaunches assms(3) have "sh' = sh\<lparr>sh_app := app', sh_jobs := sh_jobs sh @ [Leaving]\<rparr>"
          by (simp add: steps)
        with k Inr assms(2) show ?thesis by (auto simp: shell_ok_def)
      qed
    qed
  next
    case (Turn n)
    then obtain left app' leaves where n: "n < length (sh_jobs sh)"
      and j: "job_turn e (sh_jobs sh ! n) (sh_app sh) = (left, app', leaves)"
      using assms(3) by (cases "job_turn e (sh_jobs sh ! n) (sh_app sh)") (auto simp: steps split: if_splits)
    let ?sh = "sh\<lparr>sh_app := app',
      sh_jobs := take n (sh_jobs sh) @ (case left of Some j \<Rightarrow> [j] | None \<Rightarrow> []) @ drop (Suc n) (sh_jobs sh)\<rparr>"
    have "sh' = (if leaves then exit_requested ?sh else ?sh)"
      using assms(3) Turn n j by (simp add: steps Let_def split: if_splits)
    with job_turn_ok [OF laws assms(2) n j] exit_requested_ok [OF job_turn_ok [OF laws assms(2) n j]] show ?thesis
      by (cases leaves) simp_all
  next
    case (Time_passes ms)
    with assms(3) have "sh' = sh\<lparr>sh_app := (sh_app sh)\<lparr>ga_world := en_sleep (sv_engine e) ms (ga_world (sh_app sh))\<rparr>\<rparr>"
      by (simp add: steps)
    with subset_trans [OF engine_sleep_law [OF laws, of ms "ga_world (sh_app sh)"]] assms(2) show ?thesis
      by (simp add: shell_ok_def)
  next
    case Exit_asked
    with exit_requested_ok assms(2,3) show ?thesis by (auto simp: steps)
  next
    case (Logged chunks)
    with log_event_bound assms(2,3) show ?thesis by (auto simp: steps shell_ok_def)
  next
    case Disconnects
    show ?thesis
    proof (cases "ga_engine (sh_app sh)")
      case None
      with Disconnects assms(3) have "sh' = sh\<lparr>sh_app := disconnect_end None (sh_app sh)\<rparr>"
        by (simp add: steps)
      with assms(2) show ?thesis by (simp add: shell_ok_def disconnect_end_def)
    next
      case (Some h)
      with Disconnects assms(3) have "sh' = sh\<lparr>sh_app := (sh_app sh)\<lparr>ga_engine := None\<rparr>, sh_jobs := sh_jobs sh @ [Stopping h]\<rparr>"
        by (simp add: steps)
      with assms(2) Some show ?thesis by (simp add: shell_ok_def)
    qed
  next
    case (Menu entry)
    with assms(3) have "sh' = on_menu entry sh" by (simp add: steps)
    with assms(2) show ?thesis by (auto simp: shell_ok_def on_menu_def quit_begin_def show_main_def)
  next
    case (Tray_button button up)
    with assms(3) have "sh' = (if tray_shows button up then sh\<lparr>sh_window := show_main (sh_window sh)\<rparr> else sh)"
      by (simp add: steps)
    with assms(2) show ?thesis by (auto simp: shell_ok_def show_main_def)
  next
    case Window_closes
    with assms(3) have "sh' = close_requested sh" by (simp add: steps split: if_splits)
    with assms(2) show ?thesis by (auto simp: shell_ok_def close_requested_def prevented_def)
  next
    case Reopened
    with assms(3) have "sh' = (if sv_os e = Macos then sh\<lparr>sh_window := show_main (sh_window sh)\<rparr> else sh)"
      by (simp add: steps)
    with assms(2) show ?thesis by (auto simp: shell_ok_def show_main_def)
  qed
qed

lemma shell_run_ok:
  assumes "shell_laws e running" and "shell_ok running sh" and "shell_run e evs sh = Some sh'" and "one_connect e evs sh"
  shows "shell_ok running sh'"
  using assms(2-4)
proof (induction evs arbitrary: sh)
  case (Cons ev evs)
  then obtain sh1 where s: "shell_step e ev sh = Some sh1" and r: "shell_run e evs sh1 = Some sh'"
    by (auto simp: bind_eq_Some_conv)
  with Cons.prems(3) have "one_connect e evs sh1" by simp
  with Cons.IH [OF shell_step_ok [OF assms(1) Cons.prems(1) s]] Cons.prems(3) r show ?case by auto
qed simp

lemma quit_stops_all:
  assumes "engine_laws fs en running" and "running (ga_world app) \<subseteq> set_option (ga_engine app)"
  shows "running (ga_world (quit_app en app)) = {}"
  using assms(2) engine_stop_law [OF assms(1)] by (auto simp: quit_app_def split: option.split)

text \<open>Only Quit and a relaunch set the flag.\<close>

lemma quitting_step:
  assumes "shell_laws e running" and "shell_step e ev sh = Some sh'" and "ga_quitting (sh_app sh')"
  shows "ga_quitting (sh_app sh) \<or> asks_to_leave ev"
proof -
  note steps = shell_steps [OF shell_step_alive [OF assms(2)]]
  show ?thesis
  proof (cases ev)
    case (Connects name)
    with assms(2,3) show ?thesis
      by (auto simp: steps split: prod.splits sum.splits dest: begin_keeps(2))
  next
    case Disconnects
    with assms(2,3) show ?thesis by (auto simp: steps disconnect_end_def split: option.splits)
  next
    case (Turn n)
    have "engine_laws (sv_files e) (sv_engine e) running" using assms(1) by (simp add: shell_laws_def)
    have "ga_quitting app' = ga_quitting app" if "job_turn e j app = (left, app', leaves)" for j app left app' leaves
      using that by (cases j) (auto simp: job_turns connect_finish_def disconnect_end_def Let_def
          split: prod.splits if_splits option.splits dest: launch_keeps)
    with Turn assms(2,3) show ?thesis
      by (auto simp: steps exit_requested_def Let_def split: if_splits prod.splits)
  next
    case (Menu entry)
    with assms(2,3) show ?thesis by (auto simp: steps on_menu_def split: if_splits)
  next
    case (Tray_button button up)
    with assms(2,3) show ?thesis by (auto simp: steps split: if_splits)
  next
    case Window_closes
    with assms(2,3) show ?thesis by (auto simp: steps close_requested_def split: if_splits)
  next
    case Exit_asked
    with assms(2,3) show ?thesis by (auto simp: steps exit_requested_def split: if_splits)
  next
    case Reopened
    with assms(2,3) show ?thesis by (auto simp: steps split: if_splits)
  next
    case (Logged chunks)
    with assms(2,3) show ?thesis by (auto simp: steps)
  next
    case (Time_passes ms)
    with assms(2,3) show ?thesis by (auto simp: steps)
  qed simp
qed

lemma quitting_run:
  assumes "shell_laws e running" and "shell_run e evs sh = Some sh'" and "ga_quitting (sh_app sh')"
  shows "ga_quitting (sh_app sh) \<or> list_ex asks_to_leave evs"
  using assms(2)
proof (induction evs arbitrary: sh)
  case (Cons ev evs)
  then obtain sh1 where s: "shell_step e ev sh = Some sh1" and r: "shell_run e evs sh1 = Some sh'"
    by (auto simp: bind_eq_Some_conv)
  from Cons.IH [OF r] quitting_step [OF assms(1) s] show ?case by auto
qed (use assms(3) in simp)

section \<open>A desk\<close>

definition desk_shell :: "(nat, desk) shell_env" where
  "desk_shell = \<lparr>sv_files = desk_files, sv_codec = one_codec, sv_engine = desk_engine, sv_os = Linux,
     sv_exec = \<lambda>_ w. (Inl ''no such program'', w), sv_read = \<lambda>_. Inr [], sv_uid = 1000\<rparr>"

definition desk_shell_start :: "(nat, desk) shell" where
  "desk_shell_start = shell_start [] None (0, \<lambda>_. False)"

lemma desk_shell_laws: "shell_laws desk_shell desk_running"
  using desk_laws by (simp add: shell_laws_def desk_shell_def)

lemma desk_shell_idle: "sh_jobs desk_shell_start = []" "\<not> sh_exited desk_shell_start" "sh_app desk_shell_start = desk_app"
  "ga_engine desk_app = None" "desk_running (ga_world desk_app) = {}"
  "sh_window desk_shell_start \<noteq> None" "\<not> ga_quitting desk_app"
  by (simp_all add: desk_shell_start_def shell_start_def desk_app_def app_start_def desk_running_def Let_def)

text \<open>A connect, and the window closed while it waits.\<close>

definition desk_events :: "shell_event list" where
  "desk_events = [Connects ''home'', Turn 0, Window_closes, Logged [''up'', [newline]]]"

lemma desk_connects:
  "\<exists>c. shell_step desk_shell (Connects ''home'') desk_shell_start =
    Some (desk_shell_start\<lparr>sh_app := desk_app, sh_jobs := [Launching c]\<rparr>) \<and> cn_prev c = None"
proof -
  obtain c where "connect_begin desk_files one_codec ''home'' desk_app = (Inr c, desk_app\<lparr>ga_engine := None\<rparr>)" "cn_prev c = None"
    using desk_begin [of desk_app] desk_shell_idle(4) by auto
  moreover have "desk_app\<lparr>ga_engine := None\<rparr> = desk_app" using desk_shell_idle(4) by (cases desk_app) simp
  ultimately show ?thesis
    using desk_shell_idle by (auto simp: shell_steps desk_shell_def)
qed

lemma desk_shell_run: "\<exists>sh. shell_run desk_shell desk_events desk_shell_start = Some sh \<and> one_connect desk_shell desk_events desk_shell_start"
proof -
  obtain c where c: "shell_step desk_shell (Connects ''home'') desk_shell_start =
      Some (desk_shell_start\<lparr>sh_app := desk_app, sh_jobs := [Launching c]\<rparr>)" "cn_prev c = None"
    using desk_connects by blast
  obtain h app2 where l: "connect_launch desk_engine c desk_app = (h, app2)" by (meson surj_pair)
  let ?sh1 = "desk_shell_start\<lparr>sh_app := desk_app, sh_jobs := [Launching c]\<rparr>"
  let ?sh2 = "desk_shell_start\<lparr>sh_app := app2, sh_jobs := [Polling c h 0]\<rparr>"
  have t: "shell_step desk_shell (Turn 0) ?sh1 = Some ?sh2"
    using desk_shell_idle l by (simp add: shell_steps job_turns desk_shell_def)
  obtain sh3 where w: "shell_step desk_shell Window_closes ?sh2 = Some sh3" "\<not> sh_exited sh3"
    using desk_shell_idle by (auto simp: shell_steps close_requested_def)
  show ?thesis using c(1) t w desk_shell_idle(1) by (simp add: desk_events_def shell_steps)
qed

section \<open>Properties\<close>

text \<open>C18. Whatever the windows, the tray, the commands and their waits do in any order, as long as connects do not
  overlap: every engine that runs is the one the app holds or in the hands of a command under way; the process ends
  and the window is lost only after Quit or a relaunch; the log keeps to its bound; and from then on, when nothing is
  under way, Quit ends the process with no engine running.\<close>

theorem engines_kept_in_sight:
  assumes "shell_laws e running" and "running w = {}" and "shell_run e evs (shell_start args d w) = Some sh"
    and "one_connect e evs (shell_start args d w)"
  shows "running (ga_world (sh_app sh)) \<subseteq> set_option (ga_engine (sh_app sh)) \<union> (\<Union>j \<in> set (sh_jobs sh). in_hand j) \<and>
    (sh_exited sh \<or> sh_window sh = None \<longrightarrow> list_ex asks_to_leave evs) \<and> length (get_logs (sh_app sh)) \<le> LOG_CAP \<and>
    (sh_jobs sh = [] \<and> \<not> sh_exited sh \<longrightarrow>
      (\<exists>n sh'. shell_run e (Menu ''quit'' # replicate n (Turn 0)) sh = Some sh' \<and> sh_exited sh' \<and>
        running (ga_world (sh_app sh')) = {}))"
proof -
  have ok: "shell_ok running sh" by (rule shell_run_ok [OF assms(1) shell_start_ok [where running = running, OF assms(2)] assms(3,4)])
  have "\<not> ga_quitting (sh_app (shell_start args d w))" by (simp add: shell_start_def app_start_def Let_def)
  with quitting_run [OF assms(1,3)] ok have "sh_exited sh \<or> sh_window sh = None \<longrightarrow> list_ex asks_to_leave evs"
    by (auto simp: shell_ok_def)
  moreover have "\<exists>n sh'. shell_run e (Menu ''quit'' # replicate n (Turn 0)) sh = Some sh' \<and> sh_exited sh' \<and>
      running (ga_world (sh_app sh')) = {}" if idle: "sh_jobs sh = []" "\<not> sh_exited sh"
  proof -
    have "running (ga_world (sh_app sh)) \<subseteq> set_option (ga_engine (sh_app sh))" using ok idle by (simp add: shell_ok_def)
    with assms(1) have "running (ga_world (quit_app (sv_engine e) (sh_app sh))) = {}"
      unfolding shell_laws_def by (elim conjE) (rule quit_stops_all)
    with quit_alone [OF idle, of e] show ?thesis by fastforce
  qed
  ultimately show ?thesis using ok by (simp add: shell_ok_def get_logs_def)
qed

theorem engines_kept_in_sight_witness:
  "\<exists>sh. shell_run desk_shell desk_events desk_shell_start = Some sh \<and> \<not> sh_exited sh \<and> sh_window sh \<noteq> None \<and>
     desk_running (ga_world (sh_app sh)) \<subseteq> set_option (ga_engine (sh_app sh)) \<union> (\<Union>j \<in> set (sh_jobs sh). in_hand j)"
proof -
  obtain sh where r: "shell_run desk_shell desk_events desk_shell_start = Some sh" "one_connect desk_shell desk_events desk_shell_start"
    using desk_shell_run by blast
  have "desk_running (0, \<lambda>_. False) = {}" by (simp add: desk_running_def)
  from engines_kept_in_sight [OF desk_shell_laws this r [unfolded desk_shell_start_def]] r(1) show ?thesis
    by (auto simp: desk_events_def desk_shell_start_def)
qed

text \<open>C38. Three ways to quit that leave an engine running when the process is gone, so that the host keeps its routes and
  proxy: asking to exit, or choosing Quit a second time, while the first Quit waits for the engine to stop; and Quit
  while a connect waits, whose engine the app does not hold yet.\<close>

theorem disturbed_quit_leaves_engine:
  assumes "shell_laws e running" and "sh_jobs sh = []" and "\<not> sh_exited sh"
  shows "(\<forall>h evs. ga_engine (sh_app sh) = Some h \<and> h \<in> running (ga_world (sh_app sh)) \<and>
        evs \<in> {[Menu ''quit'', Turn 0, Exit_asked], [Menu ''quit'', Turn 0, Menu ''quit'', Turn 1]} \<longrightarrow>
      (\<exists>sh'. shell_run e evs sh = Some sh' \<and> sh_exited sh' \<and> h \<in> running (ga_world (sh_app sh')))) \<and>
    (\<forall>name c app1. connect_begin (sv_files e) (sv_codec e) name (sh_app sh) = (Inr c, app1) \<longrightarrow>
      (\<exists>sh' h. shell_run e [Connects name, Turn 0, Menu ''quit'', Turn 1] sh = Some sh' \<and> sh_exited sh' \<and>
        h \<in> running (ga_world (sh_app sh'))))"
proof (intro conjI allI impI)
  fix h evs
  assume "ga_engine (sh_app sh) = Some h \<and> h \<in> running (ga_world (sh_app sh)) \<and>
    evs \<in> {[Menu ''quit'', Turn 0, Exit_asked], [Menu ''quit'', Turn 0, Menu ''quit'', Turn 1]}"
  with assms(2,3) show "\<exists>sh'. shell_run e evs sh = Some sh' \<and> sh_exited sh' \<and> h \<in> running (ga_world (sh_app sh'))"
    by (auto simp: shell_steps on_menu_def quit_begin_def job_turns exit_requested_def prevented_def Let_def)
next
  fix name c app1
  assume b: "connect_begin (sv_files e) (sv_codec e) name (sh_app sh) = (Inr c, app1)"
  have laws: "engine_laws (sv_files e) (sv_engine e) running" using assms(1) by (simp add: shell_laws_def)
  obtain h app2 where l: "connect_launch (sv_engine e) c app1 = (h, app2)" by (meson surj_pair)
  have "ga_engine app2 = None" "h \<in> running (ga_world app2)" using begin_facts [OF laws b] launch_facts [OF laws l] by auto
  with b l assms(2,3) show "\<exists>sh' h. shell_run e [Connects name, Turn 0, Menu ''quit'', Turn 1] sh = Some sh' \<and> sh_exited sh' \<and>
      h \<in> running (ga_world (sh_app sh'))"
    by (auto simp: shell_steps on_menu_def quit_begin_def job_turns exit_requested_def prevented_def Let_def)
qed

theorem disturbed_quit_leaves_engine_witness:
  "\<exists>sh h. shell_run desk_shell [Connects ''home'', Turn 0, Menu ''quit'', Turn 1] desk_shell_start = Some sh \<and> sh_exited sh \<and>
     h \<in> desk_running (ga_world (sh_app sh))"
proof -
  obtain c app1 where "connect_begin (sv_files desk_shell) (sv_codec desk_shell) ''home'' (sh_app desk_shell_start) = (Inr c, app1)"
    using desk_begin [of desk_app] desk_shell_idle(3) by (auto simp: desk_shell_def)
  with disturbed_quit_leaves_engine [OF desk_shell_laws desk_shell_idle(1,2)] show ?thesis by blast
qed

end
