(* ===== verification/Android.thy ===== *)
theory Android
  imports Gui_Store Http_Proxy Tun State_Machine
begin

text \<open>
  The Android core (\<open>mobile/android/rust/src\<close>): \<open>engine.rs\<close>, which connects through the shared chain code and
  bridges the file descriptor of the \<open>VpnService\<close>, and \<open>lib.rs\<close>, the statics behind the JNI functions, as a
  machine. Sessions are numbered; the engine task of a session is a step that may come late. JSON text and
  the JNI strings are left to their libraries. The facts: a descriptor goes only to the session that is
  current, a running flag needs a session, and the end of a stale task clears the flag of the next session.
\<close>

section \<open>The engine\<close>

definition PEER_REFRESH_SECS :: u64 where
  "PEER_REFRESH_SECS = 5"

definition hops_of :: "client_config \<Rightarrow> server_entry list res" where
  "hops_of cfg =
     (let h = resolve_hops (cl_chain cfg) (cl_servers cfg)
      in if length (cl_chain cfg) \<ge> 2 \<and> length h \<ge> 2 then Inr h
         else bind_res (active_server cfg) (\<lambda>s. Inr [s]))"

record net_json =
  nj_mode :: session_mode
  nj_assigned_ip :: string
  nj_prefix_len :: u8
  nj_gateway :: string
  nj_mtu :: u16
  nj_dns :: "string list"

definition netcfg_json :: "welcome_msg \<Rightarrow> session_mode \<Rightarrow> net_json" where
  "netcfg_json w mode =
     \<lparr>nj_mode = mode, nj_assigned_ip = show_ipv4 (w_assigned_ip w), nj_prefix_len = w_prefix_len w,
      nj_gateway = show_ipv4 (w_gateway w), nj_mtu = w_mtu w, nj_dns = map show_ipv4 (w_dns w)\<rparr>"

text \<open>What \<open>run\<close> does once the network configuration is sent: it waits for the descriptor, or runs the proxy.\<close>

datatype 'l android_launch = AwaitFd welcome_msg 'l bool | RunProxy welcome_msg 'l

definition android_run ::
  "(io_error \<Rightarrow> string) \<Rightarrow> ('o, frame) chan \<Rightarrow> ('l, 'o) network \<Rightarrow> client_config \<Rightarrow> live_status \<Rightarrow>
   ((string + net_json) \<times> 'l android_launch res) \<times> live_status" where
  "android_run show_io co net cfg shared =
     (case hops_of cfg of
        Inl e \<Rightarrow> ((Inl (show_error show_io e), Inl e), shared)
      | Inr hops \<Rightarrow>
          (case connect_chain co net hops (cl_mode cfg) (cl_requested_ip cfg) (cl_client_name cfg) of
             Inl e \<Rightarrow> ((Inl (show_error show_io e), Inl e), shared)
           | Inr t \<Rightarrow>
               (let w = ct_welcome t;
                    member = (cl_mode cfg = Vpn \<or> cl_join_vpn cfg)
                in ((Inr (netcfg_json w (cl_mode cfg)),
                     Inr (case cl_mode cfg of
                            GlobalProxy \<Rightarrow> AwaitFd w (ct_link t) member
                          | Vpn \<Rightarrow> AwaitFd w (ct_link t) member
                          | _ \<Rightarrow> RunProxy w (ct_link t))),
                    shared\<lparr>ls_assigned_ip := Some (w_assigned_ip w)\<rparr>))))"

record 'o fd_kernel =
  fd_getfl :: "int \<Rightarrow> 'o \<Rightarrow> (io_error + 32 word) \<times> 'o"
  fd_setfl :: "int \<Rightarrow> 32 word \<Rightarrow> 'o \<Rightarrow> (io_error + unit) \<times> 'o"
  fd_register :: "int \<Rightarrow> 'o \<Rightarrow> (io_error + unit) \<times> 'o"

text \<open>\<open>O_NONBLOCK\<close> of the platform.\<close>

definition NONBLOCK :: "32 word" where
  "NONBLOCK = 0x800"

definition set_nonblocking :: "'o fd_kernel \<Rightarrow> int \<Rightarrow> 'o \<Rightarrow> (io_error + unit) \<times> 'o" where
  "set_nonblocking k fd st =
     (case fd_getfl k fd st of
        (Inl e, st1) \<Rightarrow> (Inl e, st1)
      | (Inr flags, st1) \<Rightarrow> fd_setfl k fd (flags OR NONBLOCK) st1)"

definition fd_bridge_open :: "'o fd_kernel \<Rightarrow> int \<Rightarrow> welcome_msg \<Rightarrow> 'o \<Rightarrow> nat res \<times> 'o" where
  "fd_bridge_open k fd w st =
     (if fd < 0 then (Inl (Config ''no VpnService fd provided for packet mode''), st)
      else (case set_nonblocking k fd st of
              (Inl e, st1) \<Rightarrow> (Inl (Io e), st1)
            | (Inr _, st1) \<Rightarrow>
                (case fd_register k fd st1 of
                   (Inl e, st2) \<Rightarrow> (Inl (Io e), st2)
                 | (Inr _, st2) \<Rightarrow> (Inr (max (unat (w_mtu w)) 2048), st2))))"

text \<open>\<open>tun_read\<close> and \<open>tun_write\<close>: the same loop over the turns of the reactor as \<open>recv\<close> and \<open>send\<close> of the TUN,
  a read giving at most as many bytes as the buffer has.\<close>

definition tun_read :: "nat \<Rightarrow> bytes io_turn list \<Rightarrow> bytes res option" where
  "tun_read buf_len turns = map_option (\<lambda>r. bind_res r (\<lambda>d. Inr (take buf_len d))) (tun_io turns)"

definition tun_write :: "nat io_turn list \<Rightarrow> nat res option" where
  "tun_write turns = tun_io turns"

record 'w fd_bridge =
  fb_writer :: 'w
  fb_tun :: "bytes list"
  fb_status :: live_status

datatype fd_event = Fd_keepalive | Fd_peers | Fd_read "bytes res"

text \<open>One turn of the uplink: \<open>None\<close> when the branch is not enabled, \<open>False\<close> when the task ends; then it closes
  the writer.\<close>

definition fd_up ::
  "(frame \<Rightarrow> 'w \<Rightarrow> unit res \<times> 'w) \<Rightarrow> ('w \<Rightarrow> 'w) \<Rightarrow> bool \<Rightarrow> fd_event \<Rightarrow> 'w fd_bridge \<Rightarrow> (bool \<times> 'w fd_bridge) option" where
  "fd_up send close member ev b =
     (let sent = (\<lambda>f. case send f (fb_writer b) of
            (Inr _, w) \<Rightarrow> (True, b\<lparr>fb_writer := w\<rparr>)
          | (Inl _, w) \<Rightarrow> (False, b\<lparr>fb_writer := close w\<rparr>))
      in case ev of
           Fd_keepalive \<Rightarrow> Some (sent Ping)
         | Fd_peers \<Rightarrow> if member then Some (sent GetPeers) else None
         | Fd_read (Inr d) \<Rightarrow> Some (if d = [] then (True, b) else sent (Packet d))
         | Fd_read (Inl _) \<Rightarrow> Some (False, b\<lparr>fb_writer := close (fb_writer b)\<rparr>))"

definition fd_down :: "frame res \<Rightarrow> bool \<Rightarrow> 'w fd_bridge \<Rightarrow> bool \<times> 'w fd_bridge" where
  "fd_down got wrote b =
     (case got of
        Inl _ \<Rightarrow> (False, b)
      | Inr (Packet p) \<Rightarrow> (True, if wrote then b\<lparr>fb_tun := fb_tun b @ [p]\<rparr> else b)
      | Inr (PeerList ps) \<Rightarrow> (True, b\<lparr>fb_status := (fb_status b)\<lparr>ls_peers := ps\<rparr>\<rparr>)
      | Inr _ \<Rightarrow> (True, b))"

section \<open>The statics behind the JNI functions\<close>

text \<open>\<open>an_holds\<close> are the sessions whose task still holds the receiver of the descriptor, \<open>an_tasks\<close> those whose
  task has not run to its end, \<open>an_fds\<close> the descriptors handed over.\<close>

record android =
  an_logs :: "string list"
  an_engine :: "nat option"
  an_shared :: "nat \<Rightarrow> live_status"
  an_error :: "string option"
  an_fd_tx :: "nat option"
  an_running :: bool
  an_cancelled :: "nat set"
  an_holds :: "nat set"
  an_tasks :: "nat set"
  an_fds :: "nat \<rightharpoonup> int"
  an_next :: nat

definition android_start :: android where
  "android_start = \<lparr>an_logs = [], an_engine = None, an_shared = (\<lambda>_. live_default), an_error = None, an_fd_tx = None,
     an_running = False, an_cancelled = {}, an_holds = {}, an_tasks = {}, an_fds = Map.empty, an_next = 0\<rparr>"

definition log_writer_drop :: "string \<Rightarrow> android \<Rightarrow> android" where
  "log_writer_drop acc st =
     st\<lparr>an_logs := (if acc = [] then an_logs st else foldl push_line (an_logs st) (split_on newline acc))\<rparr>"

definition stop_impl :: "android \<Rightarrow> android" where
  "stop_impl st =
     (let st1 = st\<lparr>an_fd_tx := None\<rparr>
      in case an_engine st1 of
           Some s \<Rightarrow> st1\<lparr>an_engine := None, an_cancelled := insert s (an_cancelled st1), an_running := False\<rparr>
         | None \<Rightarrow> st1)"

text \<open>The configuration from the two Java strings; \<open>get\<close> reads a string through JNI.\<close>

definition parse_config ::
  "('j \<Rightarrow> string + string) \<Rightarrow> (string \<Rightarrow> string + profile) \<Rightarrow> (string \<Rightarrow> string + connection_settings) \<Rightarrow> 'j \<Rightarrow> 'j \<Rightarrow>
   string + client_config" where
  "parse_config get from_profile from_settings profile_json settings_json =
     bind_res (get profile_json) (\<lambda>profile_s.
     bind_res (get settings_json) (\<lambda>settings_s.
     bind_res (map_err (\<lambda>e. ''bad profile JSON: '' @ e) (from_profile profile_s)) (\<lambda>p.
     bind_res (map_err (\<lambda>e. ''bad settings JSON: '' @ e) (from_settings settings_s)) (\<lambda>s.
       Inr (compose p s)))))"

datatype reply = Reply_error string | Reply_config net_json

text \<open>\<open>connect_impl\<close> up to its wait: the reply when it fails, else the session whose task was spawned.\<close>

definition connect_start :: "string + client_config \<Rightarrow> string + unit \<Rightarrow> android \<Rightarrow> (reply + nat) \<times> android" where
  "connect_start parsed rt st =
     (case parsed of
        Inl e \<Rightarrow> (Inl (Reply_error e), st)
      | Inr cfg \<Rightarrow>
          (let st1 = stop_impl st
           in case rt of
                Inl e \<Rightarrow> (Inl (Reply_error e), st1)
              | Inr _ \<Rightarrow>
                  (let s = an_next st1
                   in (Inr s, st1\<lparr>an_fd_tx := Some s, an_error := None, an_running := True, an_engine := Some s,
                         an_holds := insert s (an_holds st1), an_tasks := insert s (an_tasks st1), an_next := Suc s\<rparr>))))"

text \<open>What the wait of twenty seconds brings: the message of the engine, or nothing.\<close>

definition connect_reply :: "(string + net_json) option \<Rightarrow> android \<Rightarrow> reply \<times> android" where
  "connect_reply got st =
     (case got of
        Some (Inr v) \<Rightarrow> (Reply_config v, st)
      | Some (Inl e) \<Rightarrow> (Reply_error e, stop_impl st)
      | None \<Rightarrow> (Reply_error ''timed out connecting'', stop_impl st))"

definition start_bridge_impl :: "int \<Rightarrow> android \<Rightarrow> (string + unit) \<times> android" where
  "start_bridge_impl fd st =
     (case an_fd_tx st of
        None \<Rightarrow> (Inl ''no pending connection'', st)
      | Some s \<Rightarrow>
          (let st1 = st\<lparr>an_fd_tx := None\<rparr>
           in if s \<in> an_holds st1 then (Inr (), st1\<lparr>an_fds := (an_fds st1)(s \<mapsto> fd)\<rparr>)
              else (Inl ''engine is not awaiting a fd'', st1)))"

text \<open>The end of the spawned task: the engine's result is recorded and the flag cleared.\<close>

definition task_end :: "(io_error \<Rightarrow> string) \<Rightarrow> nat \<Rightarrow> unit res \<Rightarrow> android \<Rightarrow> android" where
  "task_end show_io s r st =
     st\<lparr>an_error := (case r of Inl e \<Rightarrow> Some (show_error show_io e) | Inr _ \<Rightarrow> an_error st),
        an_running := False, an_holds := an_holds st - {s}, an_tasks := an_tasks st - {s}\<rparr>"

record status_json =
  sj_running :: bool
  sj_assigned_ip :: "string option"
  sj_peers :: "(string \<times> string) list"
  sj_error :: "string option"

definition status_json :: "android \<Rightarrow> status_json" where
  "status_json st =
     (let (ip, ps) = (case an_engine st of
            None \<Rightarrow> (None, [])
          | Some s \<Rightarrow> (map_option show_ipv4 (ls_assigned_ip (an_shared st s)),
                       map (\<lambda>p. (show_ipv4 (pi_ip p), pi_name p)) (ls_peers (an_shared st s))))
      in \<lparr>sj_running = an_running st, sj_assigned_ip = ip, sj_peers = ps, sj_error = an_error st\<rparr>)"

definition logs_text :: "android \<Rightarrow> string" where
  "logs_text st = join [newline] (an_logs st)"

text \<open>\<open>nativeStartBridge\<close> answers with the empty string or the error.\<close>

definition native_start_bridge :: "int \<Rightarrow> android \<Rightarrow> string \<times> android" where
  "native_start_bridge fd st = (case start_bridge_impl fd st of (Inl e, st') \<Rightarrow> (e, st') | (Inr _, st') \<Rightarrow> ([], st'))"

section \<open>The machine\<close>

inductive android_step :: "(io_error \<Rightarrow> string) \<Rightarrow> android \<Rightarrow> android \<Rightarrow> bool" for show_io where
  jni_connect: "connect_start parsed rt st = (r, st') \<Longrightarrow> android_step show_io st st'"
| jni_answered: "connect_reply got st = (r, st') \<Longrightarrow> android_step show_io st st'"
| jni_bridge: "start_bridge_impl fd st = (r, st') \<Longrightarrow> android_step show_io st st'"
| jni_stop: "android_step show_io st (stop_impl st)"
| task_reports: "s \<in> an_tasks st \<Longrightarrow> android_step show_io st (st\<lparr>an_shared := (an_shared st)(s := live)\<rparr>)"
| task_ends: "s \<in> an_tasks st \<Longrightarrow> android_step show_io st (task_end show_io s r st)"
| logged: "android_step show_io st (log_writer_drop acc st)"

definition android_init :: "android \<Rightarrow> bool" where
  "android_init st \<longleftrightarrow> st = android_start"

definition android_ok :: "android \<Rightarrow> bool" where
  "android_ok st \<longleftrightarrow>
     (\<forall>s. an_fd_tx st = Some s \<longrightarrow> an_engine st = Some s) \<and>
     (an_running st \<longrightarrow> an_engine st \<noteq> None) \<and>
     (\<forall>s. an_engine st = Some s \<longrightarrow> s < an_next st) \<and>
     (\<forall>s \<in> an_tasks st. s < an_next st) \<and> (\<forall>s fd. an_fds st s = Some fd \<longrightarrow> s < an_next st) \<and>
     length (an_logs st) \<le> LOG_CAP"

lemma stop_impl_simps [simp]:
  "an_fd_tx (stop_impl st) = None" "an_engine (stop_impl st) = None" "an_next (stop_impl st) = an_next st"
  "an_tasks (stop_impl st) = an_tasks st" "an_fds (stop_impl st) = an_fds st" "an_logs (stop_impl st) = an_logs st"
  "an_holds (stop_impl st) = an_holds st" "an_error (stop_impl st) = an_error st"
  by (simp_all add: stop_impl_def Let_def split: option.split)

lemma stop_impl_running: "android_ok st \<Longrightarrow> \<not> an_running (stop_impl st)"
  by (auto simp: android_ok_def stop_impl_def Let_def split: option.split)

lemma android_ok_stop: "android_ok st \<Longrightarrow> android_ok (stop_impl st)"
  using stop_impl_running [of st] by (auto simp: android_ok_def)

lemma push_lines_bounded: "length q \<le> LOG_CAP \<Longrightarrow> length (foldl push_line q ls) \<le> LOG_CAP"
  by (induction ls arbitrary: q) (auto simp: push_line_def Let_def LOG_CAP_def)

lemma android_ok_step:
  assumes "android_ok st" and "android_step show_io st st'"
  shows "android_ok st'"
  using assms(2)
proof cases
  case (jni_connect parsed rt r)
  with assms(1) android_ok_stop [OF assms(1)] show ?thesis
    by (auto simp: connect_start_def android_ok_def Let_def less_Suc_eq split: sum.splits)
next
  case (jni_answered got r)
  with assms(1) android_ok_stop [OF assms(1)] show ?thesis
    by (auto simp: connect_reply_def split: option.splits sum.splits)
next
  case (jni_bridge fd r)
  with assms(1) show ?thesis
    by (auto simp: start_bridge_impl_def android_ok_def Let_def split: option.splits if_splits)
next
  case jni_stop
  with android_ok_stop [OF assms(1)] show ?thesis by simp
next
  case (task_reports s live)
  with assms(1) show ?thesis by (simp add: android_ok_def)
next
  case (task_ends s r)
  with assms(1) show ?thesis by (auto simp: android_ok_def task_end_def)
next
  case (logged acc)
  with assms(1) push_lines_bounded [of "an_logs st"] show ?thesis
    by (simp add: android_ok_def log_writer_drop_def)
qed

interpretation jni: invariant android_init "android_step show_io" android_ok
proof
  show "android_ok st" if "android_init st" for st
    using that by (simp add: android_init_def android_start_def android_ok_def)
  show "android_ok st'" if "android_ok st" "android_step show_io st st'" for st st'
    using that by (rule android_ok_step)
qed


definition first_session :: android where
  "first_session = snd (connect_start (Inr (compose one_profile default_settings)) (Inr ()) android_start)"

lemma first_reach: "reach android_init (android_step show_io) first_session"
proof (rule reach_step [OF reach_init])
  show "android_init android_start" by (simp add: android_init_def)
  have "connect_start (Inr (compose one_profile default_settings)) (Inr ()) android_start = (Inr 0, first_session)"
    by (simp add: first_session_def connect_start_def Let_def) (simp add: android_start_def)
  then show "android_step show_io android_start first_session" by (rule jni_connect)
qed


text \<open>The end of a task that belongs to an earlier session is taken for the end of the current one: when the user
  has connected again meanwhile, the status says that nothing runs and shows the old session's error, though
  the new session is there and its task goes on.\<close>

theorem stale_task_hides_session:
  assumes "reach android_init (android_step show_io) st" and "an_engine st = Some s" and "s \<in> an_tasks st"
    and "connect_start (Inr cfg) (Inr ()) st = (Inr s', st1)" and "task_end show_io s (Inl e) st1 = st2"
  shows "s' \<noteq> s \<and> an_engine st2 = Some s' \<and> s' \<in> an_tasks st2 \<and>
    \<not> sj_running (status_json st2) \<and> sj_error (status_json st2) = Some (show_error show_io e)"
  using jni.reach_ok [OF assms(1)] assms(2-5)
  by (auto simp: android_ok_def connect_start_def task_end_def status_json_def Let_def)

theorem stale_task_hides_session_witness:
  "\<exists>st1 st2. connect_start (Inr (compose one_profile default_settings)) (Inr ()) first_session = (Inr 1, st1) \<and>
     task_end (\<lambda>_. ''io'') 0 (Inl Closed) st1 = st2 \<and> an_engine st2 = Some 1 \<and> \<not> sj_running (status_json st2)"
proof -
  obtain st1 where c: "connect_start (Inr (compose one_profile default_settings)) (Inr ()) first_session = (Inr 1, st1)"
    by (simp add: connect_start_def first_session_def android_start_def stop_impl_def Let_def)
  have "an_engine first_session = Some 0" "0 \<in> an_tasks first_session"
    by (simp_all add: first_session_def connect_start_def android_start_def stop_impl_def Let_def)
  from stale_task_hides_session [OF first_reach this c refl] c show ?thesis by blast
qed

end
