(* ===== verification/Spec2Isabelle.thy ===== *)
theory Spec2Isabelle
  imports Server_Main Http_Mode Stream_Relay Dial Netcfg_Mac Netcfg_Win Sysproxy Tun_Native Cli Gui_Shell Android
begin

text \<open>
  EntroTunnel is a tunnel: a client (command line, desktop app, Android app) sends IP packets or the streams of a
  local HTTP proxy through an encrypted link to a server, which routes them between its clients or out to the
  Internet. This development models the Rust sources of both ends and proves what makes them correct. Third-party
  crates and the operating system are arguments of the definitions; what the code relies on is a named predicate
  that a theorem assumes and its witness discharges on a concrete instance.

  \<^bold>\<open>From bytes to frames.\<close> \<open>Prelude\<close>, \<open>Rust_Str\<close>, \<open>Ip_Addr\<close> and \<open>Ip_Parse\<close> hold the integer widths, the errors,
  the \<open>str\<close> methods and the addresses of the standard library. \<open>Wire_Types\<close> (\<open>core/src/config.rs\<close>,
  \<open>protocol/control.rs\<close>, \<open>protocol/frame.rs\<close>) has the messages; \<open>Byte_Io\<close> the byte streams and the locale
  \<open>message_link\<close>, the contract of a transport, which \<open>Transports\<close> (\<open>transport/tcp.rs\<close>, \<open>framing.rs\<close>, \<open>ws.rs\<close>,
  \<open>quic.rs\<close>) interprets for each of them; \<open>Frame_Channel\<close> (\<open>protocol/mod.rs\<close>) puts the codec on top, and
  \<open>Connect\<close> (\<open>crypto/noise.rs\<close>, \<open>transport/mod.rs\<close>) the Noise handshake and the choice of a transport. A
  transport refines a queue of messages; the theorems of the first section say so for frames. \<open>Tls\<close>
  (\<open>crypto/tls.rs\<close>) has certificates, trust anchors and the four TLS configurations; \<open>Dial\<close> (the other half of
  \<open>tcp.rs\<close>, \<open>ws.rs\<close> and \<open>quic.rs\<close>) sets links up from both sides: a TCP link carries frames from its first byte, and a
  link over TLS or QUIC was verified as the profile asks, on every hop of a chain.

  \<^bold>\<open>The server.\<close> \<open>Server_Config\<close> (\<open>server/src/config.rs\<close>), \<open>Router\<close>, \<open>Metrics\<close> and \<open>Session\<close>
  (\<open>server/src/session.rs\<close>), \<open>Web_Admin\<close> (\<open>web.rs\<close>) and \<open>Server_Net\<close> (\<open>net.rs\<close>) have one definition per
  operation. \<open>Server_Machine\<close> interleaves them: a step is one turn of one task (a frame of a session, a writer
  that takes a packet, a remote socket, the TUN demultiplexer, the sampler, a request of the admin API). Its
  invariants are interpretations of the locales of \<open>State_Machine\<close>; admission, routing, streams, traffic and table
  sizes rest on them. \<open>Server_Main\<close> (\<open>main.rs\<close>) starts from an initial state of that machine and ends by
  restoring the firewall.

  \<^bold>\<open>The client library.\<close> \<open>Client_Config\<close> (\<open>client-core/src/config.rs\<close>) has profiles, settings and links, with the
  locale \<open>server_choice\<close>; \<open>Chain\<close> (\<open>chain.rs\<close>) builds proxy chains; \<open>Engine\<close> and \<open>Live_Status\<close> (\<open>engine.rs\<close>) run
  a session, its stall monitor and the loop that reconnects; \<open>Http_Head\<close> and \<open>Http_Proxy\<close> (\<open>proxy.rs\<close>) are the
  local proxy and \<open>Proxy_Run\<close> its tasks in any interleaving, whose streams do not mix; \<open>Latency\<close> (\<open>latency.rs\<close>) is
  the probe. \<open>Packet_Mode\<close> puts the TUN device, the network set-up, the loop and the clean-up of a packet session
  together, \<open>Http_Mode\<close> the listener, the VPN LAN, the tasks and the proxy switch of a proxy session, and on top the
  whole of \<open>Engine::run\<close>: the host is as before whatever way a run of the client ends. It also shows what the proxy
  does not do: notice that its link is lost.

  \<^bold>\<open>Both ends.\<close> \<open>Tunnel\<close> composes the client's bridge with a session of the server over any two links that are
  \<open>exact_link\<close>s (\<open>Frame_Channel\<close>: what is received is the first of what was sent): packets reach the server's TUN in
  order, each once, and none gets stuck. \<open>Stream_Relay\<close> does the same for a proxy session: the local proxy with all its
  tasks, the server's session with its remote streams, and two links between them, in any interleaving. What a socket
  is sent at either end is, in order, what the sockets of its stream gave at the other end, less what a channel
  refused.

  \<^bold>\<open>The host.\<close> \<open>Shell\<close> runs commands: an argument takes a command and the state of the host to its output and the
  next state. On it rest \<open>Netcfg\<close>, \<open>Netcfg_Mac\<close> and \<open>Netcfg_Win\<close> (\<open>netcfg.rs\<close> on its three platforms),
  \<open>Sysproxy\<close> (\<open>sysproxy.rs\<close>) and \<open>Server_Net\<close>. Two kinds of facts are proved about them: what an observed
  table (routes, firewall rules, proxy switch) holds after a guard is dropped, and which commands can run at all
  (\<open>records\<close> and \<open>ran\<close>). \<open>Tun\<close> and \<open>Tun_Native\<close> (\<open>core/src/tun.rs\<close>) are the TUN devices.

  \<^bold>\<open>The front ends.\<close> \<open>Cli\<close> (\<open>desktop/cli\<close>); \<open>Gui_Store\<close>, \<open>Gui_Engine\<close>, \<open>Gui_Elevate\<close> and \<open>Gui_Shell\<close> (the Tauri app): the
  profile files, the engine commands cut at their waits so that two of them can overlap, and the quoting of the
  command that starts the app with more rights, and the life of the process, in which window, tray and the turns of
  the commands interleave: no engine is lost from sight, and how a Quit that is disturbed leaves one running;
  \<open>Android\<close> (\<open>mobile/android/rust\<close>): the statics behind the JNI
  functions as a machine in which the end of an engine task may come late.

  \<^bold>\<open>What is assumed.\<close> \<open>codec_laws\<close>: a frame that was encoded decodes to itself. \<open>tls_checks\<close> and
  \<open>quinn_checks\<close>: the libraries ask the configured verifier before they return a connection. \<open>tun_laws\<close>: a TUN device
  takes only the routes through it away. \<open>snow_laws\<close> and \<open>aead_laws\<close>: two Noise states in step decrypt what the other encrypted, and
  a message over the limit is refused. \<open>link_laws\<close>: JSON and base64 round trip for a profile. \<open>queue_laws\<close>,
  \<open>data_laws\<close>, \<open>chan_laws\<close>: a bounded channel is a queue with a capacity. \<open>fw_laws\<close>, \<open>route_laws\<close>,
  \<open>proxy_laws\<close>, \<open>file_laws\<close>, \<open>tun_quiet\<close>, \<open>env_quiet\<close>: what \<open>iptables\<close>, \<open>ip route\<close>, the proxy tools and the files do
  to the table that is observed. \<open>store_laws\<close> and \<open>engine_laws\<close>: a file that was written reads back, and an engine
  that was stopped no longer runs. \<open>host_records\<close> and \<open>win_records\<close>: a list of the commands that ran.
  \<open>machine_laws\<close> puts those of the host together and says that nobody else changes it meanwhile. Nothing is assumed of
  a command's success, except of the commands that switch the system proxy off.

  \<^bold>\<open>Bounds.\<close> Integers have the width of the source; counters wrap at 64 bits (a release build) except the
  client's, which saturate. Loops that the source bounds keep their bound: 3 attempts to reconnect, 21 polls of
  the engine after a connect, 10 tries to address the wintun adapter, 64 KiB of request head, 180 samples, 2000 log
  lines, 1024 packets in the wintun channel. Loops over a stream are recursions over what the stream delivers, so no
  fuel is needed; where a task waits for ever the model says \<open>None\<close>.

  \<^bold>\<open>Not modelled.\<close> The inside of \<open>rustls\<close>, \<open>quinn\<close>, \<open>tungstenite\<close>, \<open>snow\<close> and \<open>rcgen\<close>; argument parsing, logging set-up
  and printing; the routes of the web framework and the embedded page; the command table of Tauri; strings and JSON text of the JNI layer. Text is a list of bytes: character classes are those of ASCII.
  Real time appears only as the order of events.
\<close>

section \<open>Frames over the transports\<close>

text \<open>C17. Frames sent over the Noise transport arrive in order and unchanged: any schedule of frame sends
  and receives on a fresh link of two Noise states in step behaves as a queue of frames, and every
  receive returns.\<close>

theorem noise_frames_in_order:
  assumes "aead_laws wm rm in_step" and "in_step a b"
    and "\<forall>f. Some f \<in> set ops \<longrightarrow> transportable ser de noise_fits f"
    and "frame_queue ops [] = Some (fs, rest)"
  shows "\<exists>l'. frame_run (frame_send ser (noise_link_send wm)) (frame_recv de (noise_link_recv rm)) ops
           \<lparr>n_pipe = empty_pipe, n_tx = a, n_rx = b\<rparr> = (Inr fs, l')"
proof -
  have "noise_up \<lparr>n_pipe = empty_pipe, n_tx = a, n_rx = b\<rparr>"
    by (simp add: noise_up_def empty_pipe_def healthy_def)
  with message_link.frames_refine_queue [OF noise_message_link [OF assms(1)]
      noise_carries_frames_Nil [OF assms(1,2)] this _ assms(4), where de = de] assms(3)
  show ?thesis by auto
qed

theorem noise_frames_in_order_witness:
  "\<exists>l'. frame_run (frame_send tag_ser (noise_link_send seal)) (frame_recv tag_de (noise_link_recv unseal))
     [Some Ping, Some (Packet [7, 8]), None, Some Pong, None]
     \<lparr>n_pipe = empty_pipe, n_tx = 0, n_rx = 0\<rparr> = (Inr [Ping, Packet [7, 8]], l')"
  by (rule noise_frames_in_order [OF seal_laws refl, where rest = "[Pong]"])
    (auto simp: transportable_def noise_fits_def NOISE_MAX_PLAINTEXT_def)

text \<open>The same over length-delimited framing, the channel under the WebSocket-less TLS transports.\<close>

theorem ld_frames_in_order:
  assumes "\<forall>f. Some f \<in> set ops \<longrightarrow> transportable ser de ld_fits f"
    and "frame_queue ops [] = Some (fs, rest)"
  shows "\<exists>l'. frame_run (frame_send ser (\<lambda>m. pipe_write (ld_send m))) (frame_recv de (pipe_read ld_recv)) ops
           empty_pipe = (Inr fs, l')"
  using ld.frames_refine_queue [OF carries_frames_Nil _ _ assms(2), where l = empty_pipe and de = de] empty_pipe_ld assms(1)
  by auto

theorem ld_frames_in_order_witness:
  "\<exists>l'. frame_run (frame_send tag_ser (\<lambda>m. pipe_write (ld_send m))) (frame_recv tag_de (pipe_read ld_recv))
     [Some Ping, None] empty_pipe = (Inr [Ping], l')"
  by (rule ld_frames_in_order [where rest = "[]"]) (auto simp: transportable_def ld_fits_def MAX_MESSAGE_LEN_def)

text \<open>A Noise session from the first byte: with one key on both ends the two handshakes finish, each
  reading exactly what the other wrote and nothing of what follows, and any schedule of frames over the
  resulting link arrives in order and unchanged.\<close>

theorem noise_session_carries_frames:
  assumes "snow_laws sn in_step" and "aead_laws wm rm in_step"
    and "\<forall>f. Some f \<in> set ops \<longrightarrow> transportable ser de noise_fits f"
    and "frame_queue ops [] = Some (fs, rest)"
  shows "\<exists>b1 b2 ti tr.
    (\<forall>w more. healthy w \<longrightarrow>
       initiator_handshake sn psk \<lparr>dx_in = \<lparr>r_avail = b2 @ more, r_end = e1\<rparr>, dx_out = w\<rparr> =
         (Inr ti, \<lparr>dx_in = \<lparr>r_avail = more, r_end = e1\<rparr>, dx_out = w\<lparr>w_sent := w_sent w @ b1\<rparr>\<rparr>)) \<and>
    (\<forall>w more. healthy w \<longrightarrow>
       responder_handshake sn psk \<lparr>dx_in = \<lparr>r_avail = b1 @ more, r_end = e2\<rparr>, dx_out = w\<rparr> =
         (Inr tr, \<lparr>dx_in = \<lparr>r_avail = more, r_end = e2\<rparr>, dx_out = w\<lparr>w_sent := w_sent w @ b2\<rparr>\<rparr>)) \<and>
    (\<exists>l'. frame_run (frame_send ser (noise_link_send wm)) (frame_recv de (noise_link_recv rm)) ops
       \<lparr>n_pipe = empty_pipe, n_tx = ti, n_rx = tr\<rparr> = (Inr fs, l'))"
proof -
  from handshake_agrees [OF assms(1), of psk e1 e2] obtain b1 b2 ti tr where st: "in_step ti tr"
    and h: "(\<forall>w rest. healthy w \<longrightarrow>
       initiator_handshake sn psk \<lparr>dx_in = \<lparr>r_avail = b2 @ rest, r_end = e1\<rparr>, dx_out = w\<rparr> =
         (Inr ti, \<lparr>dx_in = \<lparr>r_avail = rest, r_end = e1\<rparr>, dx_out = w\<lparr>w_sent := w_sent w @ b1\<rparr>\<rparr>)) \<and>
    (\<forall>w rest. healthy w \<longrightarrow>
       responder_handshake sn psk \<lparr>dx_in = \<lparr>r_avail = b1 @ rest, r_end = e2\<rparr>, dx_out = w\<rparr> =
         (Inr tr, \<lparr>dx_in = \<lparr>r_avail = rest, r_end = e2\<rparr>, dx_out = w\<lparr>w_sent := w_sent w @ b2\<rparr>\<rparr>))"
    by blast
  have up: "noise_up \<lparr>n_pipe = empty_pipe, n_tx = ti, n_rx = tr\<rparr>"
    by (simp add: noise_up_def empty_pipe_def healthy_def)
  have "\<exists>l'. frame_run (frame_send ser (noise_link_send wm)) (frame_recv de (noise_link_recv rm)) ops
       \<lparr>n_pipe = empty_pipe, n_tx = ti, n_rx = tr\<rparr> = (Inr fs, l')"
    using message_link.frames_refine_queue [OF noise_message_link [OF assms(2)]
      noise_carries_frames_Nil [OF assms(2) st] up _ assms(4), where de = de] assms(3) by auto
  with h show ?thesis by blast
qed

theorem noise_session_carries_frames_witness:
  "\<exists>b1 b2 ti tr i' r'.
    initiator_handshake short_snow [1] \<lparr>dx_in = \<lparr>r_avail = b2 @ [7], r_end = UnexpectedEof\<rparr>, dx_out = p_out empty_pipe\<rparr> =
      (Inr ti, i') \<and> r_avail (dx_in i') = [7] \<and>
    responder_handshake short_snow [1] \<lparr>dx_in = \<lparr>r_avail = b1, r_end = UnexpectedEof\<rparr>, dx_out = p_out empty_pipe\<rparr> =
      (Inr tr, r') \<and> r_avail (dx_in r') = [] \<and> w_sent (dx_out i') = b1 \<and> w_sent (dx_out r') = b2 \<and>
    (\<exists>l'. frame_run (frame_send tag_ser (noise_link_send seal)) (frame_recv tag_de (noise_link_recv unseal))
       [Some Ping, None] \<lparr>n_pipe = empty_pipe, n_tx = ti, n_rx = tr\<rparr> = (Inr [Ping], l'))"
proof -
  have fits: "\<forall>f. Some f \<in> set [Some Ping, None] \<longrightarrow> transportable tag_ser tag_de noise_fits f"
    by (auto simp: transportable_def noise_fits_def NOISE_MAX_PLAINTEXT_def)
  have w: "healthy (p_out empty_pipe)" "w_sent (p_out empty_pipe) = []" by (simp_all add: healthy_def empty_pipe_def)
  have q: "frame_queue [Some Ping, None] [] = Some ([Ping], [])" by simp
  obtain b1 b2 ti tr where
    i: "\<forall>w more. healthy w \<longrightarrow>
       initiator_handshake short_snow [1] \<lparr>dx_in = \<lparr>r_avail = b2 @ more, r_end = UnexpectedEof\<rparr>, dx_out = w\<rparr> =
         (Inr ti, \<lparr>dx_in = \<lparr>r_avail = more, r_end = UnexpectedEof\<rparr>, dx_out = w\<lparr>w_sent := w_sent w @ b1\<rparr>\<rparr>)" and
    r: "\<forall>w more. healthy w \<longrightarrow>
       responder_handshake short_snow [1] \<lparr>dx_in = \<lparr>r_avail = b1 @ more, r_end = UnexpectedEof\<rparr>, dx_out = w\<rparr> =
         (Inr tr, \<lparr>dx_in = \<lparr>r_avail = more, r_end = UnexpectedEof\<rparr>, dx_out = w\<lparr>w_sent := w_sent w @ b2\<rparr>\<rparr>)" and
    l: "\<exists>l'. frame_run (frame_send tag_ser (noise_link_send seal)) (frame_recv tag_de (noise_link_recv unseal))
       [Some Ping, None] \<lparr>n_pipe = empty_pipe, n_tx = ti, n_rx = tr\<rparr> = (Inr [Ping], l')"
    using noise_session_carries_frames [OF short_snow_laws seal_laws fits q, of "[1]" UnexpectedEof UnexpectedEof]
    by (elim exE conjE) (rule that, assumption, assumption, erule exI)
  from i [rule_format, OF w(1), of "[7]"] r [rule_format, OF w(1), of "[]"] w(2) l show ?thesis
    by (intro exI [where x = b1] exI [where x = b2] exI [where x = ti] exI [where x = tr]) (simp del: ex_simps)
qed



section \<open>The server\<close>

text \<open>C6. In every reachable state of the server the byte totals are, modulo 64 bits, the bytes of the
  finished sessions plus those of the sessions that still run: no payload byte is lost or counted twice.\<close>

theorem server_traffic_conserved:
  assumes "reach server_init (server_step rt np send close saver) W"
  shows "totals (metrics_of (app W)) =
    (agg_sum pa_up (metrics_of (app W)) + (\<Sum>k \<in> dom (active W). c_up (counters_of (app W) k)),
     agg_sum pa_down (metrics_of (app W)) + (\<Sum>k \<in> dom (active W). c_down (counters_of (app W) k)))"
  using traffic.reach_rel [OF assms] by (simp add: traffic_ok_def live_sum_def totals_def)

theorem server_traffic_conserved_witness:
  "totals (metrics_of (app run_w2)) =
    (agg_sum pa_up (metrics_of (app run_w2)) + (\<Sum>k \<in> dom (active run_w2). c_up (counters_of (app run_w2) k)),
     agg_sum pa_down (metrics_of (app run_w2)) + (\<Sum>k \<in> dom (active run_w2). c_down (counters_of (app run_w2) k)))"
  by (rule server_traffic_conserved [OF run_reach2])

text \<open>C7. A packet off the TUN goes nowhere but to the session that owns its destination: in every reachable
  state, demultiplexing a packet changes at most the queue of one running session, and that session's pinned
  IPv4 address (or derived IPv6 address) is the packet's destination.\<close>

theorem packets_reach_their_owner:
  assumes "reach server_init (server_step rt np send close saver) W"
  shows "queues (run_tun_router rt pkt (app W)) j = queues (app W) j \<or>
    (\<exists>s. active W j = Some s \<and>
       (dst_of pkt = Some (V4 (pc_ip (ss_peer s))) \<or> (\<exists>ip6. ss_ip6 s = Some ip6 \<and> dst_of pkt = Some (V6 ip6))))"
proof (cases "Option.bind (dst_of pkt) (owner (router_of (app W))) = Some j")
  case False
  then show ?thesis
    by (auto simp: run_tun_router_push push_frame_def split: option.splits)
next
  case True
  have ok: "router_ok W" by (rule routing.reach_rel [OF assms])
  from True obtain d where d: "dst_of pkt = Some d" "owner (router_of (app W)) d = Some j"
    by (auto simp: bind_eq_Some_conv)
  show ?thesis
  proof (cases d)
    case (V4 ip)
    with d(2) obtain e where e: "map_of (peers (router_of (app W))) ip = Some e" "e_tx e = j"
      by (auto simp: owner_def)
    from router_ok_v4 [OF ok e(1)] e(2) d(1) V4 show ?thesis by auto
  next
    case (V6 ip6)
    with d(2) have "map_of (peers6 (router_of (app W))) ip6 = Some j" by (simp add: owner_def)
    from router_ok_v6 [OF ok this] d(1) V6 show ?thesis by auto
  qed
qed

theorem packets_reach_their_owner_witness:
  "queues (run_tun_router bounded_rt (69 # replicate 15 0 @ [10, 66, 0, 2]) (app run_w2)) 0 = queues (app run_w2) 0 \<or>
    (\<exists>s. active run_w2 0 = Some s \<and>
       (dst_of (69 # replicate 15 0 @ [10, 66, 0, 2]) = Some (V4 (pc_ip (ss_peer s))) \<or>
        (\<exists>ip6. ss_ip6 s = Some ip6 \<and> dst_of (69 # replicate 15 0 @ [10, 66, 0, 2]) = Some (V6 ip6))))"
  by (rule packets_reach_their_owner [OF run_reach2])

text \<open>Only admitted peers have sessions: in every reachable state the peer of a running session is enabled,
  and may use the global proxy if its session is in that mode.\<close>

theorem sessions_are_admitted:
  assumes "reach server_init (server_step rt np send close saver) W" and "active W k = Some s"
  shows "pc_enabled (ss_peer s) \<and> (ss_mode s = GlobalProxy \<longrightarrow> pc_allow_global (ss_peer s))"
  using auth.reach_ok [OF assms(1)] assms(2) by (auto simp: auth_ok_def admitted_def)

theorem sessions_are_admitted_witness:
  "active run_w2 0 = Some demo_session \<and> pc_enabled (ss_peer demo_session)"
  using sessions_are_admitted [OF run_reach2, of 0 demo_session] by (simp add: run_w2_def)

text \<open>C10. Remote sockets belong to peers that may use the HTTP proxy, and the stream table of a session names
  only remote tasks that answer to this very session.\<close>

theorem streams_are_entitled:
  assumes "reach server_init (server_step rt np send close saver) W" and "active W k = Some s"
    and "(i, r) \<in> set (ss_streams s)"
  shows "pc_allow_http_proxy (ss_peer s) \<and> (\<exists>rm. remotes (app W) r = Some rm \<and> rm_out rm = k)"
proof -
  have ok: "streams_ok W" by (rule streams.reach_rel [OF assms(1)])
  from streams_ok_table [OF ok assms(2,3)] obtain rm where rm: "remotes (app W) r = Some rm" "rm_out rm = k" by blast
  with streams_ok_remote [OF ok rm(1)] assms(2) show ?thesis by auto
qed

text \<open>The run of the examples goes on with a stream that the client opens.\<close>

definition run_opened :: "session \<times> (frame queue, bytes queue) app_state" where
  "run_opened = session_frame bounded_rt demo_session (StreamOpen 9 (TargetDomain ''example.org'' 80)) (app run_w2)"

definition run_w3 :: "(frame queue, bytes queue, frame list) world" where
  "run_w3 = run_w2\<lparr>app := snd run_opened, active := (active run_w2)(0 \<mapsto> fst run_opened)\<rparr>"

lemma run_reach3: "reach server_init run_step run_w3"
proof (rule reach_step [OF run_reach2])
  have "active run_w2 0 = Some demo_session" by (simp add: run_w2_def)
  moreover have "session_frame bounded_rt demo_session (StreamOpen 9 (TargetDomain ''example.org'' 80)) (app run_w2) =
      (fst run_opened, snd run_opened)" by (simp add: run_opened_def)
  ultimately show "run_step run_w2 run_w3" unfolding run_w3_def by (rule got_frame)
qed

lemma run_streams: "ss_streams demo_session = []"
  by (simp add: demo_session_def run_accepted_def accept_session_def run_w0_def run_check open_session_def
      run_send_def run_hello_mode Let_def)

lemma run_opened_stream: "\<exists>r. (9, r) \<in> set (ss_streams (fst run_opened))"
  by (auto simp: run_opened_def demo_session_peer run_streams run_cfg_def template_def open_remote_stream_def Let_def)

theorem streams_are_entitled_witness:
  "\<exists>r. pc_allow_http_proxy (ss_peer (fst run_opened)) \<and> (\<exists>rm. remotes (app run_w3) r = Some rm \<and> rm_out rm = 0)"
proof -
  obtain r where r: "(9, r) \<in> set (ss_streams (fst run_opened))" using run_opened_stream by blast
  have "active run_w3 0 = Some (fst run_opened)" by (simp add: run_w3_def)
  from streams_are_entitled [OF run_reach3 this r] show ?thesis by blast
qed

text \<open>C9. The router's IPv4 table names running sessions: in every reachable state an entry for an address is the
  queue, the token and the counters of one running session, whose peer has that pinned address.\<close>

theorem router_entries_are_live:
  assumes "reach server_init (server_step rt np send close saver) W"
    and "map_of (peers (router_of (app W))) ip = Some e"
  shows "\<exists>s. active W (e_tx e) = Some s \<and> pc_ip (ss_peer s) = ip \<and> e_token e = pc_token (ss_peer s) \<and>
    e_counters e = e_tx e"
  using router_ok_v4 [OF routing.reach_rel [OF assms(1)] assms(2)] by blast

lemma run_registered: "\<exists>e. map_of (peers (router_of (app run_w2))) (ipv4_new 10 66 0 2) = Some e"
proof -
  have cfg: "config (app run_w0) = run_cfg" by (simp add: run_w0_def)
  have ip: "pc_ip (hd (sc_peers run_cfg)) = ipv4_new 10 66 0 2" by (simp add: run_cfg_def template_def)
  have "\<exists>e. map_of (peers (router_of (app run_w1))) (ipv4_new 10 66 0 2) = Some e"
    by (simp add: run_w1_def run_accepted_def accept_session_def cfg run_check open_session_def Let_def
        run_send_def router_tables update_conv' ip)
  moreover have "router_of (app run_w2) = router_of (app run_w1)"
    by (simp add: run_w2_def Let_def)
  ultimately show ?thesis by simp
qed

theorem router_entries_are_live_witness:
  "\<exists>e s. map_of (peers (router_of (app run_w2))) (ipv4_new 10 66 0 2) = Some e \<and> active run_w2 (e_tx e) = Some s \<and>
     pc_ip (ss_peer s) = ipv4_new 10 66 0 2"
proof -
  obtain e where e: "map_of (peers (router_of (app run_w2))) (ipv4_new 10 66 0 2) = Some e"
    using run_registered by blast
  from router_entries_are_live [OF run_reach2 e] e show ?thesis by blast
qed

text \<open>C30. The end of a session whose token connected a second time takes the second session off the router: the
  entry is keyed by the address alone, so after the first handler's cleanup no packet reaches the second one.\<close>

theorem takeover_unregisters_newcomer:
  assumes "check_hello (config st) (Inr (Hello hello)) = Inr (hello, ss_peer s1)"
    and "open_session rt now addr hello (ss_peer s1) (ss_ip6 s1) st = (s2, st2)"
  shows "map_of (peers (router_of st2)) (pc_ip (ss_peer s1)) \<noteq> None \<and>
    map_of (peers (router_of (close_session rt s1 st2))) (pc_ip (ss_peer s1)) = None"
  using open_session_facts(10) [OF assms(2)]
  by (auto simp: close_session_def router_tables update_conv' delete_conv')

theorem takeover_unregisters_newcomer_witness:
  "\<exists>s2 st2. open_session bounded_rt 6 ''1.2.3.4:6'' run_hello (ss_peer demo_session) (ss_ip6 demo_session) (app run_w1) = (s2, st2) \<and>
     map_of (peers (router_of (close_session bounded_rt demo_session st2))) (pc_ip (ss_peer demo_session)) = None"
proof -
  obtain s2 st2 where o: "open_session bounded_rt 6 ''1.2.3.4:6'' run_hello (ss_peer demo_session) (ss_ip6 demo_session) (app run_w1) = (s2, st2)"
    by (meson surj_pair)
  have c: "config (app run_w1) = run_cfg"
    by (simp add: run_w1_def run_accepted_def accept_session_def run_check open_session_def Let_def run_send_def run_w0_def)
  have "check_hello (config (app run_w1)) (Inr (Hello run_hello)) = Inr (run_hello, ss_peer demo_session)"
    using run_check by (simp add: c demo_session_peer)
  from takeover_unregisters_newcomer [OF this o] o show ?thesis by blast
qed



text \<open>C8. Who is admitted: over a connection that takes the \<open>Welcome\<close>, a session for a peer starts exactly when the
  first frame is a \<open>Hello\<close> of this protocol version with the token of that configured and enabled peer, and not
  in the global mode unless the peer may use it.\<close>

theorem admission_exact:
  assumes "\<forall>m. fst (send (Welcome m) w) = Inr ()"
  shows "(\<exists>s w' st'. accept_session rt np now uuid addr send first w st = (Some s, w', st') \<and> ss_peer s = peer) \<longleftrightarrow>
     (\<exists>hello. first = Inr (Hello hello) \<and> h_version hello = PROTOCOL_VERSION \<and>
        find_peer (config st) (h_token hello) = Some peer \<and> pc_enabled peer \<and>
        \<not> (h_mode hello = GlobalProxy \<and> \<not> pc_allow_global peer))"
proof
  assume "\<exists>s w' st'. accept_session rt np now uuid addr send first w st = (Some s, w', st') \<and> ss_peer s = peer"
  then obtain s w' st' where a: "accept_session rt np now uuid addr send first w st = (Some s, w', st')" "ss_peer s = peer"
    by blast
  then obtain hello wm where "check_hello (config st) first = Inr (hello, peer)"
    by (auto elim!: accept_session_Some simp: open_session_def Let_def)
  then show "\<exists>hello. first = Inr (Hello hello) \<and> h_version hello = PROTOCOL_VERSION \<and>
        find_peer (config st) (h_token hello) = Some peer \<and> pc_enabled peer \<and>
        \<not> (h_mode hello = GlobalProxy \<and> \<not> pc_allow_global peer)"
    by (auto simp: check_hello_Inr)
next
  assume "\<exists>hello. first = Inr (Hello hello) \<and> h_version hello = PROTOCOL_VERSION \<and>
        find_peer (config st) (h_token hello) = Some peer \<and> pc_enabled peer \<and>
        \<not> (h_mode hello = GlobalProxy \<and> \<not> pc_allow_global peer)"
  then obtain hello where c: "check_hello (config st) first = Inr (hello, peer)" by (auto simp: check_hello_Inr)
  define wm where "wm = welcome_for np (config st) (ipv6_on st) uuid peer"
  obtain w' where w: "send (Welcome wm) w = (Inr (), w')" using assms by (metis prod.collapse)
  show "\<exists>s w' st'. accept_session rt np now uuid addr send first w st = (Some s, w', st') \<and> ss_peer s = peer"
    using c w by (simp add: accept_session_def wm_def [symmetric] open_session_def Let_def)
qed

theorem admission_exact_witness:
  "(\<exists>s w' st'. accept_session bounded_rt run_np 5 7 ''1.2.3.4:5'' run_send (Inr (Hello run_hello)) [] (app run_w0) =
       (Some s, w', st') \<and> ss_peer s = hd (sc_peers run_cfg)) \<longleftrightarrow>
     (\<exists>hello. Inr (Hello run_hello) = (Inr (Hello hello) :: frame res) \<and> h_version hello = PROTOCOL_VERSION \<and>
        find_peer (config (app run_w0)) (h_token hello) = Some (hd (sc_peers run_cfg)) \<and> pc_enabled (hd (sc_peers run_cfg)) \<and>
        \<not> (h_mode hello = GlobalProxy \<and> \<not> pc_allow_global (hd (sc_peers run_cfg))))"
  by (rule admission_exact) (simp add: run_send_def)

text \<open>The derived IPv6 address: its low 32 bits are the peer's IPv4 address, the rest is the configured
  subnet, so different peers of one subnet never share one.\<close>

theorem derived_ipv6_exact:
  "ucast (derive_ipv6 net v4) = v4 \<and> drop_bit 32 (derive_ipv6 net v4) = drop_bit 32 (fst net) \<and>
   (derive_ipv6 net v4 = derive_ipv6 net v4' \<longleftrightarrow> v4 = v4')"
  using derive_ipv6_low derive_ipv6_high derive_ipv6_inj by blast

text \<open>The answer to \<open>GetPeers\<close> lists exactly the VPN members other than the asker: an address is in it if and
  only if it is registered, is not the asker's, and its session is a member.\<close>

theorem peer_list_exact:
  assumes "reach server_init (server_step rt np send close saver) W"
  shows "p \<in> set (peer_list ip (router_of (app W))) \<longleftrightarrow>
    (\<exists>e s. map_of (peers (router_of (app W))) (pi_ip p) = Some e \<and> active W (e_tx e) = Some s \<and> pi_ip p \<noteq> ip \<and>
       ss_member s \<and> pi_name p = on_name (e_info e) \<and> pi_ip6 p = on_ip6 (e_info e))"
proof -
  have ok: "router_ok W" by (rule routing.reach_rel [OF assms])
  then have "router_wf (router_of (app W))" by (simp add: router_ok_def)
  from peer_list_iff [OF this, of p ip] show ?thesis
    using router_ok_v4 [OF ok] by (cases p) fastforce
qed

definition run_info :: peer_info where
  "run_info = \<lparr>pi_ip = ipv4_new 10 66 0 2, pi_name = ''laptop'', pi_ip6 = None\<rparr>"

theorem peer_list_exact_witness:
  "run_info \<in> set (peer_list 7 (router_of (app run_w2))) \<longleftrightarrow>
    (\<exists>e s. map_of (peers (router_of (app run_w2))) (pi_ip run_info) = Some e \<and> active run_w2 (e_tx e) = Some s \<and>
       pi_ip run_info \<noteq> 7 \<and> ss_member s \<and> pi_name run_info = on_name (e_info e) \<and> pi_ip6 run_info = on_ip6 (e_info e))"
  by (rule peer_list_exact [OF run_reach2])


text \<open>Data of a stream that its remote socket does not take fast enough is dropped without a word: with the
  channel of the stream full, a \<open>StreamData\<close> frame is counted as carried, and neither the remote task nor
  any queue learns of it.\<close>

theorem congested_stream_loses_data:
  assumes "map_of (ss_streams s) i = Some r" and "remotes st r = Some rm" and "try_send_d rt (rm_queue rm) d = None"
    and "session_frame rt s (StreamData i d) st = (s', st')"
  shows "remotes st' = remotes st \<and> queues st' = queues st \<and> s' = s \<and>
    c_up (counters_of st' (ss_id s)) = c_up (counters_of st (ss_id s)) + of_nat (length d)"
  using assms by (auto simp: Let_def feed_remote_def)

theorem congested_stream_loses_data_witness:
  "\<exists>rm st. remotes st 0 = Some rm \<and>
     remotes (snd (session_frame bounded_rt (demo_session\<lparr>ss_streams := [(9, 0)]\<rparr>) (StreamData 9 [1]) st)) = remotes st"
proof -
  define rm :: "bytes queue remote" where "rm = \<lparr>rm_stream = 9, rm_target = TargetDomain ''h'' 80, rm_out = 0,
    rm_queue = (False, 1, [[0]]), rm_phase = Dialing, rm_written = []\<rparr>"
  define st where "st = (app run_w2)\<lparr>remotes := [0 \<mapsto> rm]\<rparr>"
  define s where "s = demo_session\<lparr>ss_streams := [(9, 0)]\<rparr>"
  obtain s' st' where f: "session_frame bounded_rt s (StreamData 9 [1]) st = (s', st')" by (meson surj_pair)
  have "map_of (ss_streams s) 9 = Some 0" "remotes st 0 = Some rm" "try_send_d bounded_rt (rm_queue rm) [1] = None"
    by (simp_all add: s_def st_def rm_def bounded_rt_def q_try_send_def)
  from congested_stream_loses_data [OF this f] f this(2) show ?thesis unfolding s_def by auto
qed

text \<open>C28. Requests without the admin token do nothing: any sequence of peer additions, and any sequence of
  deletions, none of them authorized, leaves the server's state as it was.\<close>

theorem unauthorized_requests_are_void:
  assumes "\<forall>(a, p) \<in> set adds. \<not> authorized st a" and "\<forall>(a, t) \<in> set dels. \<not> authorized st a"
  shows "fold (\<lambda>(a, t) s. snd (del_peer saver a t s)) dels (fold (\<lambda>(a, p) s. snd (add_peer saver a p s)) adds st) = st"
  using add_api.requests_unauthorized [OF assms(1)] del_api.requests_unauthorized [OF assms(2)] by simp

theorem unauthorized_requests_are_void_witness:
  "fold (\<lambda>(a, t) s. snd (del_peer (\<lambda>_. Inr ()) a t s)) [(\<lparr>au_token = ''bad'', au_header = None\<rparr>, ''tok'')]
     (fold (\<lambda>(a, p) s. snd (add_peer (\<lambda>_. Inr ()) a p s)) [] (app run_w0)) = app run_w0"
  by (rule unauthorized_requests_are_void) (simp_all add: authorized_def run_w0_def run_cfg_def template_def)

text \<open>C29. The registry of the admin API: after an authorized addition of a peer with a new token and address exactly
  that token finds the new peer and every other lookup is as before, and a deletion of the token undoes it.\<close>

theorem peer_added_then_deleted:
  assumes "authorized st a" and "find_peer (config st) (pc_token p) = None"
    and "\<forall>q \<in> set (sc_peers (config st)). pc_ip q \<noteq> pc_ip p"
  shows "find_peer (config (snd (add_peer saver a p st))) t = (if t = pc_token p then Some p else find_peer (config st) t) \<and>
    find_peer (config (snd (del_peer saver a (pc_token p) (snd (add_peer saver a p st))))) t = find_peer (config st) t"
  using find_peer_added [OF assms, of saver] add_api.same_admin_token [of saver a p st a] assms(1,2)
    find_peer_deleted [of "snd (add_peer saver a p st)" a saver "pc_token p" t] by simp

theorem peer_added_then_deleted_witness:
  "find_peer (config (snd (add_peer (\<lambda>_. Inr ()) \<lparr>au_token = ''adm'', au_header = None\<rparr>
     \<lparr>pc_name = ''b'', pc_token = ''t2'', pc_ip = 5, pc_enabled = True, pc_allow_global = False, pc_allow_http_proxy = False\<rparr>
     (app run_w0)))) ''tok'' = find_peer (config (app run_w0)) ''tok''"
  using peer_added_then_deleted [of "app run_w0" "\<lparr>au_token = ''adm'', au_header = None\<rparr>"
     "\<lparr>pc_name = ''b'', pc_token = ''t2'', pc_ip = 5, pc_enabled = True, pc_allow_global = False, pc_allow_http_proxy = False\<rparr>"
     "\<lambda>_. Inr ()" "''tok''"]
  by (simp add: authorized_def run_w0_def run_cfg_def template_def find_peer_def ipv4_new_def un32_def)



text \<open>The statistics per peer add up: one row per token, sorted by traffic, and the upload and download columns sum to
  the finished totals plus the live counters, in whatever order the hash table yields its values.\<close>

theorem peer_statistics_add_up:
  assumes "mset (into_values (stats_table m live)) = mset (map snd (stats_table m live))"
    and "distinct (map fst (m_agg m))"
  shows "distinct (map ps_token (peer_stats into_values m live)) \<and>
    sorted_wrt (\<lambda>a b. ps_up b + ps_down b \<le> ps_up a + ps_down a) (peer_stats into_values m live) \<and>
    sum_list (map ps_up (peer_stats into_values m live)) = agg_sum pa_up m + sum_list (map le_up live) \<and>
    sum_list (map ps_down (peer_stats into_values m live)) = agg_sum pa_down m + sum_list (map le_down live)"
  using peer_stats_distinct [where into_values = into_values and m = m and live = live, OF assms(1)]
    peer_stats_sorted [of into_values m live] peer_stats_sums [where into_values = into_values and m = m and live = live, OF assms]
  by blast

theorem peer_statistics_add_up_witness:
  "sum_list (map ps_up (peer_stats (map snd) (metrics_of (app run_w2)) [])) = agg_sum pa_up (metrics_of (app run_w2))"
  using peer_statistics_add_up [of "map snd" "metrics_of (app run_w2)" "[]"] tables.reach_ok [OF run_reach2]
  by (simp add: tables_ok_def)

section \<open>The client\<close>

text \<open>C39. The local proxy reads a request head however it is cut: when the head ends with the bytes read and fits the
  limit, any sequence of non-empty reads gives the target, the method and the bytes to forward of one read.\<close>

theorem request_head_in_pieces:
  assumes "\<forall>c \<in> set cs. c \<noteq> []" and "concat cs = head" and "length head \<le> 64 * 1024"
    and "find_sub head crlf2 = Some pos" and "pos + 4 = length head"
  shows "parse_http_head [] (map Inr cs) = parse_http_head [] [Inr head]"
proof -
  have ne: "cs \<noteq> []" "head \<noteq> []" using assms(2,5) by auto
  have "parse_http_head [] (map Inr cs) = (head_done head pos, [])"
    using parse_http_head_chunks [OF assms(1) ne(1), of "[]" pos] assms(2-5) by simp
  moreover have "parse_http_head [] [Inr head] = (head_done head pos, [])"
    using parse_http_head_chunks [of "[head]" "[]" pos] assms(3-5) ne(2) by simp
  ultimately show ?thesis by simp
qed

definition connect_head :: bytes where
  "connect_head = bytes_of ((''CONNECT'' @ '' '' @ (''h'' @ '':'' @ show_u16 443) @ '' '' @ ''HTTP/1.1'') @ crlf @ crlf)"

lemma connect_bytes: "connect_head = [67, 79, 78, 78, 69, 67, 84, 32, 104, 58, 52, 52, 51, 32, 72, 84, 84, 80, 47, 49, 46, 49, 13, 10, 13, 10]"
  by code_simp

theorem request_head_in_pieces_witness:
  "parse_http_head [] (map Inr [take 5 connect_head, drop 5 connect_head]) = parse_http_head [] [Inr connect_head]"
proof (rule request_head_in_pieces [where pos = "length connect_head - 4"])
  show "\<forall>c \<in> set [take 5 connect_head, drop 5 connect_head]. c \<noteq> []" "length connect_head \<le> 64 * 1024"
    "length connect_head - 4 + 4 = length connect_head" "concat [take 5 connect_head, drop 5 connect_head] = connect_head"
    by (simp_all add: connect_bytes)
  show "find_sub connect_head crlf2 = Some (length connect_head - 4)"
    unfolding connect_bytes by code_simp
qed

text \<open>A \<open>CONNECT\<close> request names its target: the request line \<open>CONNECT host:port version\<close> gives that host and port,
  whatever the headers after it say.\<close>

theorem connect_request_target:
  assumes "word_ok h" and "word_ok v"
  shows "parse_request_line (bytes_of ((''CONNECT'' @ '' '' @ (h @ '':'' @ show_u16 p) @ '' '' @ v) @ crlf @ headers))
    = Inr (TargetDomain h p, True)"
  by (rule parse_connect [OF assms])

theorem connect_request_target_witness:
  "parse_request_line (bytes_of ((''CONNECT'' @ '' '' @ (''h'' @ '':'' @ show_u16 443) @ '' '' @ ''HTTP/1.1'') @ crlf @ []))
    = Inr (TargetDomain ''h'' 443, True)"
  by (rule connect_request_target) (simp_all add: word_ok_def is_ws_def)

text \<open>Bytes a client sends in the same read as its \<open>CONNECT\<close> head, after it, are lost: whatever follows the head, nothing
  is forwarded.\<close>

theorem connect_early_data_lost:
  assumes "find_sub (head @ early) crlf2 = Some pos" and "pos + 4 = length head"
    and "parse_request_line head = Inr (target, True)" and "head \<noteq> []"
  shows "parse_http_head [] (Inr (head @ early) # rs) = (Inr (target, True, []), rs)"
  using parse_http_head_found [of "[]" "head @ early" pos rs] assms by (simp add: head_done_def)

theorem connect_early_data_lost_witness:
  "parse_http_head [] [Inr (connect_head @ [22, 3, 1])] = (Inr (TargetDomain ''h'' 443, True, []), [])"
proof (rule connect_early_data_lost [where pos = "length connect_head - 4"])
  show "find_sub (connect_head @ [22, 3, 1]) crlf2 = Some (length connect_head - 4)" by code_simp
  show "length connect_head - 4 + 4 = length connect_head" by code_simp
  show "connect_head \<noteq> []" by code_simp
  show "parse_request_line connect_head = Inr (TargetDomain ''h'' 443, True)"
    unfolding connect_head_def by (rule parse_connect) (simp_all add: word_ok_def is_ws_def)
qed

text \<open>Data frames of a stream reach the local socket in order: over any schedule of data frames and turns of the
  downlink, what the socket got and what still waits is, byte for byte, what was there before followed by the
  frames' data.\<close>

theorem local_stream_in_order:
  assumes "chan_laws cl pending" and "flowing cl pending i n px" and "feed_run co cl i n ops px = Some px'"
  shows "sock_feed pending n px' = sock_feed pending n px @ concat (map (case_option [] id) ops)"
  using feed_run_in_order [OF assms] by blast

text \<open>A proxy with one stream in its data phase, on bounded queues.\<close>

definition flowing_proxy :: "(frame queue, to_local queue) proxy" where
  "flowing_proxy = \<lparr>px_out = q_channel 8, px_streams = [(3, 0)], px_chans = (\<lambda>_. q_channel 8),
     px_locals = [0 \<mapsto> \<lparr>lo_id = 3, lo_phase = Pumps True, lo_sock = [9]\<rparr>], px_tun = None, px_status = live_default,
     px_next_id = 4, px_next = 1\<rparr>"

theorem local_stream_in_order_witness:
  "\<exists>px'. feed_run queue_chan queue_chan 3 0 [Some [1, 2], Some [3], None] flowing_proxy = Some px' \<and>
     sock_feed q_pending 0 px' = [9, 1, 2, 3]"
proof -
  have f: "flowing queue_chan q_pending 3 0 flowing_proxy"
    by (simp add: flowing_def flowing_proxy_def queue_chan_def q_channel_def q_pending_def) blast
  have "feed_run queue_chan queue_chan 3 0 [Some [1, 2], Some [3], None] flowing_proxy \<noteq> None" by code_simp
  then obtain px' where r: "feed_run queue_chan queue_chan 3 0 [Some [1, 2], Some [3], None] flowing_proxy = Some px'" by blast
  from local_stream_in_order [OF queue_chan_laws f r] r show ?thesis
    by (simp add: sock_feed_def flowing_proxy_def q_pending_def q_channel_def)
qed

text \<open>A stream the server closes ends without an answer: the local handler that takes the close from its channel is gone
  and queues nothing for the server, so the server's entry for the stream stays until the session ends.\<close>

theorem server_close_is_unanswered:
  assumes "lo_phase lc = Pumps u" and "ch_recv cl (px_chans px n) = Some (ToClose, q')"
  shows "\<exists>px'. local_deliver cl n lc held wrote px = Some px' \<and> px_out px' = px_out px \<and>
    (\<exists>lc'. px_locals px' n = Some lc' \<and> local_read co n lc' got px' = None \<and> local_deliver cl n lc' held' wrote' px' = None)"
proof -
  from server_close_silent [where held = held and wrote = wrote, OF assms]
  obtain px' where p: "local_deliver cl n lc held wrote px = Some px'" "px_out px' = px_out px"
    "px_locals px' n = Some (lc\<lparr>lo_phase := Gone\<rparr>)" by blast
  have g: "lo_phase (lc\<lparr>lo_phase := Gone\<rparr>) = Gone" by simp
  from p gone_is_silent(3,4) [OF g] show ?thesis by blast
qed

theorem server_close_is_unanswered_witness:
  "\<exists>px'. local_deliver queue_chan 0 \<lparr>lo_id = 3, lo_phase = Pumps True, lo_sock = []\<rparr> True (Inr ())
      (flowing_proxy\<lparr>px_chans := (\<lambda>_. (False, 8, [ToClose]))\<rparr>) = Some px' \<and> px_out px' = px_out flowing_proxy"
proof -
  have r: "ch_recv queue_chan (px_chans (flowing_proxy\<lparr>px_chans := (\<lambda>_. (False, 8, [ToClose]))\<rparr>) 0) = Some (ToClose, False, 8, [])"
    by (simp add: queue_chan_def q_recv_def)
  have "px_out (flowing_proxy\<lparr>px_chans := (\<lambda>_. (False, 8, [ToClose]))\<rparr>) = px_out flowing_proxy" by simp
  with server_close_is_unanswered [where lc = "\<lparr>lo_id = 3, lo_phase = Pumps True, lo_sock = []\<rparr>" and u = True and n = 0 and
      held = True and wrote = "Inr ()" and co = queue_chan, OF _ r]
  show ?thesis by (metis local_conn.select_convs(2))
qed

text \<open>C40. A configuration link decodes to the profile it was made from, blanks around it or not, given the round trips
  of JSON and base64.\<close>

theorem link_round_trip:
  assumes "link_laws k p" and "list_all is_ws before" and "list_all is_ws after"
  shows "decode_link k (before @ encode_link k p @ after) = Inr p"
proof -
  have "trim (before @ encode_link k p @ after) = trim (encode_link k p)"
    by (rule trim_surround [OF assms(2,3)])
  then show ?thesis using decode_encode_link [OF assms(1)] by (simp add: decode_link_def)
qed

theorem link_round_trip_witness:
  "decode_link letter_codec ('' '' @ encode_link letter_codec one_profile @ [newline]) = Inr one_profile"
  by (rule link_round_trip [OF letter_codec_laws]) simp_all

text \<open>C31. Building a chain is running its plan: \<open>connect_chain\<close> resolves the first hop and then takes one uniform step per
  hop; in the plan every hop but the last is asked to relay streams and is not told the requested address, the
  last one gets the chosen mode and the address.\<close>

theorem chain_follows_plan:
  "connect_chain co net (h0 # hs) final_mode rip cname =
    bind_res (resolve net (se_host h0) (se_port h0)) (\<lambda>ip.
      bind_res (run_plan co net cname (chain_plan (h0 # hs) final_mode rip) None) (\<lambda>r.
        Inr \<lparr>ct_link = fst (the r), ct_welcome = snd (the r), ct_first_hop_ip = ip\<rparr>)) \<and>
   chain_plan (h0 # hs) final_mode rip =
     map (\<lambda>h. (h, HttpProxy, None)) (butlast (h0 # hs)) @ [(last (h0 # hs), final_mode, rip)]"
proof
  show "connect_chain co net (h0 # hs) final_mode rip cname =
    bind_res (resolve net (se_host h0) (se_port h0)) (\<lambda>ip.
      bind_res (run_plan co net cname (chain_plan (h0 # hs) final_mode rip) None) (\<lambda>r.
        Inr \<lparr>ct_link = fst (the r), ct_welcome = snd (the r), ct_first_hop_ip = ip\<rparr>))"
    by (rule connect_chain_plan) simp
  have "drop (length (h0 # hs) - 1) (h0 # hs) = [last (h0 # hs)]"
    by (metis Cons_nth_drop_Suc One_nat_def Suc_pred diff_less drop_all last_conv_nth length_greater_0_conv
        less_numeral_extra(1) list.discI order_refl)
  then show "chain_plan (h0 # hs) final_mode rip =
     map (\<lambda>h. (h, HttpProxy, None)) (butlast (h0 # hs)) @ [(last (h0 # hs), final_mode, rip)]"
    by (simp only: chain_plan_def list.map)
qed

text \<open>A QUIC hop after the first is refused: the chain is never built, whatever the network does.\<close>

theorem quic_only_first:
  assumes "h \<in> set hs" and "se_transport h = Quic"
  shows "\<exists>e. connect_chain co net (h0 # hs) final_mode rip cname = Inl e"
proof -
  have "hs \<noteq> []" using assms(1) by auto
  then have plan: "chain_plan (h0 # hs) final_mode rip = (h0, HttpProxy, None) # chain_plan hs final_mode rip"
    by (rule chain_plan_Cons)
  have "h \<in> set (butlast hs) \<or> h \<in> set (drop (length hs - 1) hs)"
    using assms(1) by (metis Un_iff append_take_drop_id butlast_conv_take set_append)
  then obtain m ip where m: "(h, m, ip) \<in> set (chain_plan hs final_mode rip)"
    by (auto simp: chain_plan_def)
  have "\<exists>e. run_plan co net cname (chain_plan (h0 # hs) final_mode rip) None = Inl e"
  proof (cases "reach_hop co net None h0")
    case (Inl e)
    then show ?thesis by (simp add: plan)
  next
    case (Inr l)
    obtain r l' where hsk: "handshake net l h0 HttpProxy None cname = (r, l')" by (meson surj_pair)
    show ?thesis
    proof (cases r)
      case (Inl e)
      with Inr hsk show ?thesis by (simp add: plan)
    next
      case (Inr w)
      with \<open>reach_hop co net None h0 = Inr l\<close> hsk run_plan_quic [OF m assms(2)] show ?thesis by (simp add: plan)
    qed
  qed
  then show ?thesis
    by (auto simp: connect_chain_plan [of "h0 # hs" h0 hs] bind_res_def split: sum.split)
qed

definition hop :: "string \<Rightarrow> transport_kind \<Rightarrow> server_entry" where
  "hop n k = \<lparr>se_name = n, se_host = ''192.0.2.1'', se_port = 443, se_transport = k, se_token = ''t'',
     se_noise_psk = [], se_tls_skip_verify = False, se_server_name = None\<rparr>"

theorem quic_only_first_witness:
  "\<exists>e. connect_chain queue_chan open_net [hop ''a'' Quic, hop ''b'' Tcp, hop ''c'' Quic] GlobalProxy None None = Inl e"
  by (rule quic_only_first [where h = "hop ''c'' Quic"]) (simp_all add: hop_def)

text \<open>C34. The stall monitor trips exactly on one-sided silence: over the counters it reads tick by tick, it ends the
  connection if and only if between two consecutive readings one direction moved and the other did not.\<close>

theorem monitor_trips_iff_lopsided:
  "monitor_run cs (monitor_start s) = None \<longleftrightarrow>
    (\<exists>i < length cs. lopsided ((traffic_counters s # cs) ! i) (cs ! i))"
  using monitor_run_None [of cs "traffic_counters s"] by (cases "traffic_counters s") (simp add: monitor_start_def)

text \<open>C32. A lost connection comes back if one of the attempts succeeds: when the user does not cancel, attempts before
  number \<open>j\<close> fail and attempt \<open>j\<close> succeeds within the limit, the pass closes the old link, goes on with the new one
  and shows the newly assigned address.\<close>

theorem lost_connection_comes_back:
  assumes "pl_running s" and "sc_end sc (pl_pass s) = Lost" and "\<not> sc_cancelled sc (pl_pass s)"
    and "\<not> sc_cancelled_after sc (pl_pass s)" and "j < RECONNECT_ATTEMPTS"
    and "\<forall>i < j. \<exists>e. sc_dial sc (pl_pass s) (1 + i) = AttemptFailed e"
    and "sc_dial sc (pl_pass s) (1 + j) = AttemptOk l w"
  shows "pl_running (loop_pass sc s) \<and> pl_link (loop_pass sc s) = l \<and> pl_closed (loop_pass sc s) = pl_closed s @ [pl_link s] \<and>
    ls_assigned_ip (pl_status (loop_pass sc s)) = Some (w_assigned_ip w) \<and> pl_dials (loop_pass sc s) = pl_dials s + Suc j"
proof -
  have r: "reconnect_attempts (sc_dial sc (pl_pass s)) 1 RECONNECT_ATTEMPTS = (Some (l, w), Suc j)"
    unfolding reconnect_attempts_Some using assms(5-7) by blast
  with assms(1-4) show ?thesis by (simp add: loop_pass_def Let_def)
qed

definition flaky :: "nat script" where
  "flaky = \<lparr>sc_end = (\<lambda>_. Lost), sc_cancelled = (\<lambda>_. False),
     sc_dial = (\<lambda>_ k. if k = 2 then AttemptOk 7 home_welcome else AttemptFailed Closed), sc_cancelled_after = (\<lambda>_. False)\<rparr>"

definition flaky_start :: "nat packet_loop" where
  "flaky_start = \<lparr>pl_link = 1, pl_closed = [], pl_status = live_default, pl_pass = 0, pl_dials = 0, pl_running = True\<rparr>"

theorem lost_connection_comes_back_witness:
  "pl_running (loop_pass flaky flaky_start) \<and> pl_link (loop_pass flaky flaky_start) = 7 \<and> pl_dials (loop_pass flaky flaky_start) = 2"
  using lost_connection_comes_back [of flaky_start flaky 1 7 home_welcome]
  by (simp add: flaky_def flaky_start_def RECONNECT_ATTEMPTS_def)

text \<open>C33. A server that stays away ends the loop: when every attempt after the loss fails, the pass makes exactly the
  limit of attempts and stops for good.\<close>

theorem dead_server_ends_loop:
  assumes "pl_running s" and "sc_end sc (pl_pass s) = Lost" and "\<not> sc_cancelled sc (pl_pass s)"
    and "\<forall>k. \<exists>e. sc_dial sc (pl_pass s) k = AttemptFailed e"
  shows "\<not> pl_running (run_packet_loop sc (Suc n) s) \<and> pl_dials (run_packet_loop sc (Suc n) s) = pl_dials s + RECONNECT_ATTEMPTS"
proof -
  have all: "reconnect_attempts (sc_dial sc (pl_pass s)) k m = (None, m)" for k m
  proof (induction m arbitrary: k)
    case (Suc m)
    obtain e where "sc_dial sc (pl_pass s) k = AttemptFailed e" using assms(4) by blast
    with Suc show ?case by simp
  qed simp
  then have r: "reconnect_attempts (sc_dial sc (pl_pass s)) 1 RECONNECT_ATTEMPTS = (None, RECONNECT_ATTEMPTS)" .
  have p: "\<not> pl_running (loop_pass sc s)" "pl_dials (loop_pass sc s) = pl_dials s + RECONNECT_ATTEMPTS"
    using assms(1-3) r by (simp_all add: loop_pass_def Let_def)
  have "run_packet_loop sc (Suc n) s = run_packet_loop sc n (loop_pass sc s)"
    by (simp add: run_packet_loop_def funpow_swap1)
  with p run_packet_loop_stopped [OF p(1), of sc n] show ?thesis by simp
qed

theorem dead_server_ends_loop_witness:
  "\<not> pl_running (run_packet_loop (flaky\<lparr>sc_dial := \<lambda>_ _. AttemptFailed Closed\<rparr>) (Suc 3) flaky_start) \<and>
    pl_dials (run_packet_loop (flaky\<lparr>sc_dial := \<lambda>_ _. AttemptFailed Closed\<rparr>) (Suc 3) flaky_start) = RECONNECT_ATTEMPTS"
  using dead_server_ends_loop [of flaky_start "flaky\<lparr>sc_dial := \<lambda>_ _. AttemptFailed Closed\<rparr>" 3]
  by (simp add: flaky_def flaky_start_def)

text \<open>Resolving the first hop ahead does not change what its certificate is checked against: for a hop named by
  a domain, or with a configured server name, the name sent in the handshake is the same before and after.\<close>

theorem preresolve_keeps_server_name:
  assumes "hops \<noteq> []" and "se_server_name (hd hops) \<noteq> None \<or> parse_ip (se_host (hd hops)) = None"
  shows "length (preresolve net hops) = length hops \<and> sni (hd (preresolve net hops)) = sni (hd hops) \<and>
    tl (preresolve net hops) = tl hops"
  using assms by (cases hops) (auto simp: preresolve_def sni_def Let_def split: sum.split)

theorem preresolve_keeps_server_name_witness:
  "sni (hd (preresolve open_net [(hop ''a'' Tcp)\<lparr>se_server_name := Some ''vpn.example''\<rparr>])) = ''vpn.example''"
  using preresolve_keeps_server_name [of "[(hop ''a'' Tcp)\<lparr>se_server_name := Some ''vpn.example''\<rparr>]" open_net]
  by (simp add: sni_def)

text \<open>The counters the user sees never wrap: after any sequence of uploads the shown total is the sum, or the
  largest 64-bit value once the sum exceeds it.\<close>

theorem shown_traffic_saturates:
  assumes "\<forall>n \<in> set ns. n < 2 ^ 64"
  shows "unat (ls_up_bytes (fold add_traffic_up ns s)) = min (unat (ls_up_bytes s) + sum_list ns) (2 ^ 64 - 1)"
  using assms
proof (induction ns arbitrary: s)
  case Nil
  have "unat (ls_up_bytes s) < 2 ^ 64" using unsigned_less [where ?'a = nat, of "ls_up_bytes s"] by simp
  then show ?case by simp
next
  case (Cons n ns)
  have "unat (ls_up_bytes (add_traffic_up n s)) = min (unat (ls_up_bytes s) + n) (2 ^ 64 - 1)"
  proof (cases "n = 0")
    case True
    have "unat (ls_up_bytes s) < 2 ^ 64" using unsigned_less [where ?'a = nat, of "ls_up_bytes s"] by simp
    with True show ?thesis by (simp add: add_traffic_up_def)
  next
    case False
    have "unat (of_nat n :: u64) = n" using Cons.prems by (simp add: unat_of_nat)
    with False show ?thesis by (simp add: add_traffic_up_def unat_saturating_add)
  qed
  with Cons show ?case by simp
qed

theorem shown_traffic_saturates_witness:
  "unat (ls_up_bytes (fold add_traffic_up [18446744073709551615, 5] live_default)) = 18446744073709551615"
  using shown_traffic_saturates [of "[18446744073709551615, 5]" live_default] by (simp add: live_default_def)

end
